(* ===== verification/Bfs_Prelude.thy ===== *)
theory Bfs_Prelude
  imports Main "HOL-Library.Word"
begin

text \<open>
  Shared vocabulary of the development: bytes and C buffers, little-endian
  integers, the fixed-width truncations of the C integer types, and the
  state-and-exception computations in which the stateful parts of the file
  system are written.  The generic lemmas are collected under
  \<^verbatim>\<open>buf_simps\<close> (buffers) and \<^verbatim>\<open>comp_simps\<close> (computations), so that the
  component theories can rely on \<^verbatim>\<open>simp add:\<close>.
\<close>

named_theorems buf_simps \<open>reading and writing C buffers\<close>
named_theorems comp_simps \<open>running state-and-exception computations\<close>

section \<open>Bytes and machine integers\<close>

type_synonym byte = "8 word"

text \<open>The conversions C performs when a value is stored in an unsigned type.\<close>

definition u32 :: "nat \<Rightarrow> nat" where
  "u32 n = n mod 2 ^ 32"

definition u64 :: "nat \<Rightarrow> nat" where
  "u64 n = n mod 2 ^ 64"

text \<open>Unsigned 64-bit subtraction, which wraps below zero.\<close>

definition sub64 :: "nat \<Rightarrow> nat \<Rightarrow> nat" where
  "sub64 a b = nat ((int a - int b) mod 2 ^ 64)"

lemma u32_id [simp]: "n < 2 ^ 32 \<Longrightarrow> u32 n = n"
  by (simp add: u32_def)

lemma u64_id [simp]: "n < 2 ^ 64 \<Longrightarrow> u64 n = n"
  by (simp add: u64_def)

lemma u32_less [simp]: "u32 n < 2 ^ 32"
  by (simp add: u32_def)

lemma u64_less [simp]: "u64 n < 2 ^ 64"
  by (simp add: u64_def)

lemma sub64_no_wrap [simp]: "b \<le> a \<Longrightarrow> a < 2 ^ 64 \<Longrightarrow> sub64 a b = a - b"
  by (simp add: sub64_def nat_diff_distrib flip: of_nat_diff)

lemma sub64_wrap:
  assumes "a < b" "b \<le> 2 ^ 64"
  shows "sub64 a b = 2 ^ 64 + a - b"
proof -
  have "(int a - int b) mod 2 ^ 64 = (int a - int b + 2 ^ 64) mod 2 ^ 64"
    by simp
  also have "\<dots> = int a - int b + 2 ^ 64"
    using assms by (intro mod_pos_pos_trivial) simp_all
  finally show ?thesis
    using assms by (simp add: sub64_def)
qed

section \<open>Little-endian integers\<close>

text \<open>
  The code stores an integer by \<^verbatim>\<open>memcpy\<close> from its address; on the supported
  target (x86-64) that is the little-endian byte sequence.
\<close>

primrec le_bytes :: "nat \<Rightarrow> nat \<Rightarrow> byte list" where
  "le_bytes 0 v = []"
| "le_bytes (Suc n) v = word_of_nat (v mod 256) # le_bytes n (v div 256)"

primrec le_val :: "byte list \<Rightarrow> nat" where
  "le_val [] = 0"
| "le_val (b # bs) = unat b + 256 * le_val bs"

lemma length_le_bytes [simp]: "length (le_bytes n v) = n"
  by (induction n arbitrary: v) simp_all

lemma unat_byte_less: "unat (b :: byte) < 256"
  using unsigned_less [of b, where ?'a = nat] by simp

lemma le_val_less: "le_val bs < 256 ^ length bs"
proof (induction bs)
  case (Cons b bs)
  have "unat b < 256"
    by (rule unat_byte_less)
  with Cons.IH have "unat b + 256 * le_val bs < 256 * (le_val bs + 1)"
    by simp
  also have "\<dots> \<le> 256 * 256 ^ length bs"
    using Cons.IH by (intro mult_le_mono2) simp
  finally show ?case by simp
qed simp

lemma unat_word_of_nat_byte [simp]: "v < 256 \<Longrightarrow> unat (word_of_nat v :: byte) = v"
  by (simp add: unsigned_of_nat take_bit_nat_def)

lemma le_val_le_bytes [simp]: "le_val (le_bytes n v) = v mod 256 ^ n"
proof (induction n arbitrary: v)
  case (Suc n)
  then show ?case
    by (simp add: mod_mult2_eq)
qed simp

lemma le_bytes_le_val [simp]: "length bs = n \<Longrightarrow> le_bytes n (le_val bs) = bs"
proof (induction bs arbitrary: n)
  case (Cons b bs)
  have b: "unat b < 256"
    by (rule unat_byte_less)
  from Cons.prems obtain m where m: "n = Suc m" "length bs = m"
    by (cases n) auto
  have "(unat b + 256 * le_val bs) mod 256 = unat b"
    using b by simp
  moreover have "(unat b + 256 * le_val bs) div 256 = le_val bs"
    using b by simp
  ultimately show ?case
    using m Cons.IH [of m] by simp
qed simp

text \<open>A stored 32- or 64-bit field reads back as the field's value.\<close>

lemma le_val_le_bytes_8 [simp]: "v < 2 ^ 64 \<Longrightarrow> le_val (le_bytes 8 v) = v"
  by simp

lemma le_val_le_bytes_4 [simp]: "v < 2 ^ 32 \<Longrightarrow> le_val (le_bytes 4 v) = v"
  by simp

lemma le_val_less_64: "length bs = 8 \<Longrightarrow> le_val bs < 2 ^ 64"
  using le_val_less [of bs] by simp

section \<open>Buffers\<close>

text \<open>\<^verbatim>\<open>chunk off len buf\<close> are the \<^verbatim>\<open>len\<close> bytes at \<^verbatim>\<open>buf + off\<close>, and
  \<^verbatim>\<open>blit off src buf\<close> is the buffer after \<^verbatim>\<open>memcpy (buf + off, src, |src|)\<close>.\<close>

definition chunk :: "nat \<Rightarrow> nat \<Rightarrow> 'a list \<Rightarrow> 'a list" where
  "chunk off len buf = take len (drop off buf)"

definition blit :: "nat \<Rightarrow> 'a list \<Rightarrow> 'a list \<Rightarrow> 'a list" where
  "blit off src buf = take off buf @ src @ drop (off + length src) buf"

lemma length_chunk [buf_simps, simp]:
  "off + len \<le> length buf \<Longrightarrow> length (chunk off len buf) = len"
  by (simp add: chunk_def)

lemma length_blit [buf_simps, simp]:
  "off + length src \<le> length buf \<Longrightarrow> length (blit off src buf) = length buf"
  by (simp add: blit_def)

lemma nth_blit:
  assumes "off + length src \<le> length buf" "i < length buf"
  shows "blit off src buf ! i =
    (if off \<le> i \<and> i < off + length src then src ! (i - off) else buf ! i)"
  using assms by (auto simp: blit_def nth_append min_def)

lemma nth_chunk: "off + len \<le> length buf \<Longrightarrow> i < len \<Longrightarrow> chunk off len buf ! i = buf ! (off + i)"
  by (simp add: chunk_def)

lemma chunk_blit_same [buf_simps]:
  "off + length src \<le> length buf \<Longrightarrow> len = length src \<Longrightarrow> chunk off len (blit off src buf) = src"
  by (simp add: chunk_def blit_def)

lemma chunk_blit_disjoint [buf_simps]:
  assumes "off + length src \<le> length buf" "off' + len \<le> length buf"
    and "off' + len \<le> off \<or> off + length src \<le> off'"
  shows "chunk off' len (blit off src buf) = chunk off' len buf"
proof (rule nth_equalityI)
  show "length (chunk off' len (blit off src buf)) = length (chunk off' len buf)"
    using assms by simp
next
  fix i assume "i < length (chunk off' len (blit off src buf))"
  with assms have "i < len" by simp
  with assms show "chunk off' len (blit off src buf) ! i = chunk off' len buf ! i"
    by (auto simp: nth_chunk nth_blit)
qed

lemma blit_all [buf_simps]: "length src = length buf \<Longrightarrow> blit 0 src buf = src"
  by (simp add: blit_def)

lemma chunk_all [buf_simps]: "len = length buf \<Longrightarrow> chunk 0 len buf = buf"
  by (simp add: chunk_def)

lemma chunk_append_left [buf_simps]: "len \<le> length xs \<Longrightarrow> chunk 0 len (xs @ ys) = take len xs"
  by (simp add: chunk_def)

lemma chunk_append_right [buf_simps]:
  "length xs \<le> off \<Longrightarrow> chunk off len (xs @ ys) = chunk (off - length xs) len ys"
  by (simp add: chunk_def)

section \<open>State-and-exception computations\<close>

text \<open>
  The error classes the code throws (\<^verbatim>\<open>bfs_core.h\<close>, \<^verbatim>\<open>bfsBlockError.h\<close>,
  \<^verbatim>\<open>bfsDeviceError.h\<close>, \<^verbatim>\<open>bfsCryptoError.h\<close>, \<^verbatim>\<open>bfsUtilError.h\<close>), an explicit \<^verbatim>\<open>abort\<close> or failed assertion,
  the exception of a checked container access (\<^verbatim>\<open>std::vector::at\<close>) and of the network
  code of the client (\<^verbatim>\<open>std::runtime_error\<close>), the two
  forms of undefined behaviour the model makes visible, an access outside a
  C array (or a value outside the range of its C type) and the dereference of an
  invalid pointer, and a wait that never ends, for a
  lock that is never released or a message that never comes.
\<close>

datatype bfs_error =
    BfsServerError
  | BfsClientRequestFailedError
  | BfsAccessDeniedError
  | bfsBlockError
  | bfsDeviceError
  | bfsCryptoError
  | bfsUtilError
  | BfsAbort
  | StdOutOfRange
  | StdRuntimeError
  | BfsOutOfBounds
  | BfsBadPointer
  | BfsBlocked

text \<open>A C++ exception leaves the mutations made before it in place, so the
  final state is returned on the exceptional path as well.\<close>

type_synonym ('s, 'a) comp = "'s \<Rightarrow> (bfs_error + 'a) \<times> 's"

definition retE :: "'a \<Rightarrow> ('s, 'a) comp" where
  "retE x = (\<lambda>s. (Inr x, s))"

definition throwE :: "bfs_error \<Rightarrow> ('s, 'a) comp" where
  "throwE e = (\<lambda>s. (Inl e, s))"

definition bindE :: "('s, 'a) comp \<Rightarrow> ('a \<Rightarrow> ('s, 'b) comp) \<Rightarrow> ('s, 'b) comp" where
  "bindE m f = (\<lambda>s. case m s of (Inl e, s') \<Rightarrow> (Inl e, s') | (Inr x, s') \<Rightarrow> f x s')"

definition seqE :: "('s, 'a) comp \<Rightarrow> ('s, 'b) comp \<Rightarrow> ('s, 'b) comp" where
  "seqE m k = bindE m (\<lambda>_. k)"

definition getE :: "('s \<Rightarrow> 'a) \<Rightarrow> ('s, 'a) comp" where
  "getE f = (\<lambda>s. (Inr (f s), s))"

definition modE :: "('s \<Rightarrow> 's) \<Rightarrow> ('s, unit) comp" where
  "modE f = (\<lambda>s. (Inr (), f s))"

definition guardE :: "bool \<Rightarrow> bfs_error \<Rightarrow> ('s, unit) comp" where
  "guardE b e = (if b then retE () else throwE e)"

text \<open>A \<^verbatim>\<open>try/catch\<close> whose handler sees the error.\<close>

definition catchE :: "('s, 'a) comp \<Rightarrow> (bfs_error \<Rightarrow> ('s, 'a) comp) \<Rightarrow> ('s, 'a) comp" where
  "catchE m h = (\<lambda>s. case m s of (Inl e, s') \<Rightarrow> h e s' | (Inr x, s') \<Rightarrow> (Inr x, s'))"

lemma retE_run [comp_simps]: "retE x s = (Inr x, s)"
  by (simp add: retE_def)

lemma throwE_run [comp_simps]: "throwE e s = (Inl e, s)"
  by (simp add: throwE_def)

lemma getE_run [comp_simps]: "getE f s = (Inr (f s), s)"
  by (simp add: getE_def)

lemma modE_run [comp_simps]: "modE f s = (Inr (), f s)"
  by (simp add: modE_def)

lemma guardE_run [comp_simps]: "guardE b e s = (if b then Inr () else Inl e, s)"
  by (simp add: guardE_def retE_def throwE_def)

lemma bindE_Inr [comp_simps]: "m s = (Inr x, s') \<Longrightarrow> bindE m f s = f x s'"
  by (simp add: bindE_def)

lemma bindE_Inl [comp_simps]: "m s = (Inl e, s') \<Longrightarrow> bindE m f s = (Inl e, s')"
  by (simp add: bindE_def)

lemma seqE_Inr [comp_simps]: "m s = (Inr x, s') \<Longrightarrow> seqE m k s = k s'"
  by (simp add: seqE_def bindE_def)

lemma seqE_Inl [comp_simps]: "m s = (Inl e, s') \<Longrightarrow> seqE m k s = (Inl e, s')"
  by (simp add: seqE_def bindE_def)

lemma bindE_eq_Inr: "bindE m f s = (Inr y, s') \<longleftrightarrow>
    (\<exists>x t. m s = (Inr x, t) \<and> f x t = (Inr y, s'))"
  by (auto simp: bindE_def split: prod.splits sum.splits)

lemma seqE_eq_Inr: "seqE m k s = (Inr y, s') \<longleftrightarrow>
    (\<exists>x t. m s = (Inr x, t) \<and> k t = (Inr y, s'))"
  by (simp add: seqE_def bindE_eq_Inr)

lemma bindE_retE [simp]: "bindE (retE x) f = f x"
  by (simp add: bindE_def retE_def)

lemma bindE_throwE [simp]: "bindE (throwE e) f = throwE e"
  by (simp add: bindE_def throwE_def)

lemma bindE_assoc: "bindE (bindE m f) g = bindE m (\<lambda>x. bindE (f x) g)"
  by (rule ext) (auto simp: bindE_def split: prod.splits sum.splits)

text \<open>Sequencing of results without state, and their use in a computation.\<close>

definition bindS :: "bfs_error + 'a \<Rightarrow> ('a \<Rightarrow> bfs_error + 'b) \<Rightarrow> bfs_error + 'b" where
  "bindS m f = (case m of Inl e \<Rightarrow> Inl e | Inr x \<Rightarrow> f x)"

definition liftS :: "bfs_error + 'a \<Rightarrow> ('s, 'a) comp" where
  "liftS m = (\<lambda>s. (m, s))"

lemma bindS_simps [simp, comp_simps]: "bindS (Inr x) f = f x" "bindS (Inl e) f = Inl e"
  by (simp_all add: bindS_def)

lemma liftS_run [comp_simps]: "liftS m s = (m, s)"
  by (simp add: liftS_def)

text \<open>
  \<^verbatim>\<open>keeps m I\<close>: whatever the outcome, exceptions included, the computation
  re-establishes the invariant.
\<close>

definition keeps :: "('s, 'a) comp \<Rightarrow> ('s \<Rightarrow> bool) \<Rightarrow> bool" where
  "keeps m I \<longleftrightarrow> (\<forall>s. I s \<longrightarrow> I (snd (m s)))"

named_theorems keeps_intros \<open>structural rules for invariant preservation\<close>

lemma keepsI: "(\<And>s. I s \<Longrightarrow> I (snd (m s))) \<Longrightarrow> keeps m I"
  by (simp add: keeps_def)

lemma keepsD: "keeps m I \<Longrightarrow> I s \<Longrightarrow> I (snd (m s))"
  by (simp add: keeps_def)

lemma keeps_retE [keeps_intros]: "keeps (retE x) I"
  by (simp add: keeps_def retE_def)

lemma keeps_throwE [keeps_intros]: "keeps (throwE e) I"
  by (simp add: keeps_def throwE_def)

lemma keeps_getE [keeps_intros]: "keeps (getE f) I"
  by (simp add: keeps_def getE_def)

lemma keeps_guardE [keeps_intros]: "keeps (guardE b e) I"
  by (simp add: keeps_def comp_simps)

lemma keeps_modE [keeps_intros]: "(\<And>s. I s \<Longrightarrow> I (f s)) \<Longrightarrow> keeps (modE f) I"
  by (simp add: keeps_def modE_def)

lemma keeps_bindE [keeps_intros]:
  assumes "keeps m I" "\<And>x. keeps (f x) I"
  shows "keeps (bindE m f) I"
proof (rule keepsI)
  fix s assume "I s"
  with assms(1) have "I (snd (m s))" by (rule keepsD)
  with assms(2) show "I (snd (bindE m f s))"
    by (auto simp: bindE_def keeps_def split: prod.splits sum.splits)
qed

lemma keeps_seqE [keeps_intros]: "keeps m I \<Longrightarrow> keeps k I \<Longrightarrow> keeps (seqE m k) I"
  by (simp add: seqE_def keeps_bindE)

lemma keeps_if [keeps_intros]:
  "(b \<Longrightarrow> keeps m I) \<Longrightarrow> (\<not> b \<Longrightarrow> keeps k I) \<Longrightarrow> keeps (if b then m else k) I"
  by simp

lemma keeps_catchE [keeps_intros]:
  assumes "keeps m I" "\<And>e. keeps (h e) I"
  shows "keeps (catchE m h) I"
proof (rule keepsI)
  fix s assume "I s"
  with assms(1) have "I (snd (m s))" by (rule keepsD)
  with assms(2) show "I (snd (catchE m h s))"
    by (auto simp: catchE_def keeps_def split: prod.splits sum.splits)
qed

end
