(* ===== verification/Bfs_Util.thy ===== *)
theory Bfs_Util
  imports Bfs_Prelude "HOL-Library.Signed_Division"
begin

text \<open>
  The utility functions of \<^verbatim>\<open>src/src/bfs_utils/bfs_util.cpp\<close>: the time and
  random-number helpers, path splitting, and the bitmap primitives.  The bytes
  drawn from \<^verbatim>\<open>gcry_randomize\<close> are an argument of the random helpers.  C strings
  are character lists without the terminating NUL.
\<close>

unbundle bit_operations_syntax

section \<open>Time and random values\<close>

record timeval =
  tv_sec :: int
  tv_usec :: int

definition compareTimes :: "timeval \<Rightarrow> timeval \<Rightarrow> int" where
  "compareTimes tm1 tm2 =
    (if tv_usec tm2 < tv_usec tm1
     then (tv_sec tm2 - tv_sec tm1 - 1) * 1000000 + ((tv_usec tm2 + 1000000) - tv_usec tm1)
     else (tv_sec tm2 - tv_sec tm1) * 1000000 + (tv_usec tm2 - tv_usec tm1))"

definition get_random_value :: "64 word \<Rightarrow> 64 word \<Rightarrow> 64 word \<Rightarrow> 32 word" where
  "get_random_value rnd lo hi =
    (let range_length = hi - lo + 1;
         val = (if range_length \<noteq> 0 then (rnd mod range_length) + lo else rnd)
     in ucast val)"

text \<open>The signed variant works on 32-bit integers, which wrap around, with C's remainder, which takes the sign of the
  dividend.  \<^verbatim>\<open>rnd\<close> is the random word.\<close>

definition get_random_signed_value :: "32 word \<Rightarrow> 32 word \<Rightarrow> 32 word \<Rightarrow> 32 word" where
  "get_random_signed_value rnd lo hi =
    (let range_length = hi - lo + 1
     in if range_length \<noteq> 0 then word_of_int (sint rnd smod sint range_length) + lo else rnd)"

definition BFSUTIL_ALLCHARS :: string where
  "BFSUTIL_ALLCHARS =
    '' !#$%&()*+,-./'' @
    ''0123456789:;<=>?@ABCDEFGHIJKLMNOPQRSTUVWXYZ[]^_'' @
    ''abcdefghijklmnopqrstuvwxyz{'' @
    ''|}~''"

primrec get_random_alphanumeric_data :: "64 word list \<Rightarrow> string" where
  "get_random_alphanumeric_data [] = []"
| "get_random_alphanumeric_data (r # rs) =
     BFSUTIL_ALLCHARS !
       unat (get_random_value r 0 (word_of_nat (length BFSUTIL_ALLCHARS) - 1))
     # get_random_alphanumeric_data rs"

section \<open>Path names\<close>

text \<open>\<^verbatim>\<open>strrchr\<close>: the position of the last occurrence of a character.\<close>

fun strrchr :: "string \<Rightarrow> char \<Rightarrow> nat option" where
  "strrchr [] c = None"
| "strrchr (x # xs) c =
    (case strrchr xs c of
       Some i \<Rightarrow> Some (Suc i)
     | None \<Rightarrow> (if x = c then Some 0 else None))"

definition bfs_basename :: "string \<Rightarrow> string" where
  "bfs_basename path =
    (case strrchr path (CHR ''/'') of
       Some p \<Rightarrow> drop (p + 1) path
     | None \<Rightarrow> path)"

text \<open>The result and the contents left in the caller's buffer: apart from the
  static \<^verbatim>\<open>"."\<close>, the function truncates the buffer and returns it.\<close>

definition bfs_dirname :: "string \<Rightarrow> string \<times> string" where
  "bfs_dirname path =
    (case strrchr path (CHR ''/'') of
       None \<Rightarrow> (''.'', path)
     | Some p \<Rightarrow>
         (let path' = (if p = 0 then ''/'' else take p path) in (path', path')))"

definition bfs_strdup :: "string \<Rightarrow> string" where
  "bfs_strdup s = (let len = length s + 1 in take (len - 1) s)"

section \<open>Bitmaps\<close>

text \<open>An index past the buffer is an out-of-bounds access of the C code.\<close>

definition bfs_set_bit :: "nat \<Rightarrow> byte list \<Rightarrow> bfs_error + byte list" where
  "bfs_set_bit nr addr =
    (let i = drop_bit 3 nr; shift = nr AND 7; mask = push_bit shift 1
     in if i < length addr then Inr (addr[i := (addr ! i) OR mask]) else Inl BfsOutOfBounds)"

definition bfs_clear_bit :: "nat \<Rightarrow> byte list \<Rightarrow> bfs_error + byte list" where
  "bfs_clear_bit nr addr =
    (let i = drop_bit 3 nr; shift = nr AND 7; mask = push_bit shift 1
     in if i < length addr then Inr (addr[i := (addr ! i) AND NOT mask]) else Inl BfsOutOfBounds)"

definition bfs_test_bit :: "nat \<Rightarrow> byte list \<Rightarrow> bfs_error + bool" where
  "bfs_test_bit nr addr =
    (let i = drop_bit 3 nr; mask = push_bit (nr AND 7) (1 :: 32 word)
     in if i < length addr then Inr ((mask AND ucast (addr ! i)) \<noteq> 0) else Inl BfsOutOfBounds)"

section \<open>Lemmas on paths\<close>

lemma strrchr_None: "strrchr s c = None \<longleftrightarrow> c \<notin> set s"
  by (induction s) (auto split: option.splits)

lemma strrchr_Some:
  "strrchr s c = Some i \<Longrightarrow> i < length s \<and> s ! i = c \<and> c \<notin> set (drop (Suc i) s)"
proof (induction s arbitrary: i)
  case (Cons x xs)
  show ?case
  proof (cases "strrchr xs c")
    case None
    then have "c \<notin> set xs" by (simp add: strrchr_None)
    with None Cons.prems show ?thesis by (auto split: if_splits)
  next
    case (Some j)
    with Cons.IH [OF Some] Cons.prems show ?thesis by auto
  qed
qed simp

lemma strrchr_split:
  assumes "strrchr s c = Some i"
  shows "s = take i s @ c # drop (Suc i) s"
  using strrchr_Some [OF assms] by (metis id_take_nth_drop)

section \<open>Lemmas on bitmaps\<close>

definition nbits :: "byte list \<Rightarrow> nat" where
  "nbits addr = 8 * length addr"

text \<open>The bit that \<^verbatim>\<open>bfs_test_bit\<close> reads, as a plain truth value.\<close>

definition bit_at :: "byte list \<Rightarrow> nat \<Rightarrow> bool" where
  "bit_at addr nr = bit (addr ! (nr div 8)) (nr mod 8)"

lemma index_div: "drop_bit 3 (nr :: nat) = nr div 8"
  by (simp add: drop_bit_eq_div)

lemma shift_mod: "(nr :: nat) AND 7 = nr mod 8"
  using take_bit_eq_mask [of 3 nr] by (simp add: take_bit_eq_mod mask_eq_exp_minus_1)

lemma nbits_index: "nr < nbits addr \<longleftrightarrow> nr div 8 < length addr"
  by (auto simp: nbits_def div_less_iff_less_mult mult.commute)

lemma mask_test:
  fixes b :: byte
  assumes "k < 8"
  shows "push_bit k (1 :: 32 word) AND ucast b \<noteq> 0 \<longleftrightarrow> bit b k"
proof -
  have "bit (push_bit k (1 :: 32 word) AND ucast b) n \<longleftrightarrow> n = k \<and> bit b k" for n
    using assms by (auto simp: bit_simps)
  then show ?thesis
    by (metis bit_0_eq bit_eq_iff bot_apply bot_bool_def)
qed

lemma bfs_test_bit_eq: "nr < nbits addr \<Longrightarrow> bfs_test_bit nr addr = Inr (bit_at addr nr)"
  by (simp add: bfs_test_bit_def index_div shift_mod nbits_index bit_at_def mask_test
      del: push_bit_of_1)

lemma bfs_set_bit_ok:
  assumes "nr < nbits addr"
  obtains addr' where "bfs_set_bit nr addr = Inr addr'" "length addr' = length addr"
    "\<And>k. k < nbits addr \<Longrightarrow> bit_at addr' k = (k = nr \<or> bit_at addr k)"
proof -
  let ?i = "nr div 8" and ?s = "nr mod 8"
  define addr' where "addr' = addr[?i := (addr ! ?i) OR push_bit ?s 1]"
  have i: "?i < length addr" using assms by (simp add: nbits_index)
  have "bit_at addr' k = (k = nr \<or> bit_at addr k)" if "k < nbits addr" for k
  proof (cases "k div 8 = ?i")
    case True
    then have eq: "k = nr \<longleftrightarrow> k mod 8 = ?s" by (metis mult_div_mod_eq)
    show ?thesis unfolding bit_at_def addr'_def eq
      using True i by (auto simp: bit_simps)
  next
    case False
    then show ?thesis using i by (auto simp: bit_at_def addr'_def)
  qed
  then show thesis
    using that [of addr'] i by (simp add: bfs_set_bit_def index_div shift_mod addr'_def Let_def)
qed

lemma bfs_clear_bit_ok:
  assumes "nr < nbits addr"
  obtains addr' where "bfs_clear_bit nr addr = Inr addr'" "length addr' = length addr"
    "\<And>k. k < nbits addr \<Longrightarrow> bit_at addr' k = (k \<noteq> nr \<and> bit_at addr k)"
proof -
  let ?i = "nr div 8" and ?s = "nr mod 8"
  define addr' where "addr' = addr[?i := (addr ! ?i) AND NOT (push_bit ?s 1)]"
  have i: "?i < length addr" using assms by (simp add: nbits_index)
  have "bit_at addr' k = (k \<noteq> nr \<and> bit_at addr k)" if "k < nbits addr" for k
  proof (cases "k div 8 = ?i")
    case True
    then have eq: "k = nr \<longleftrightarrow> k mod 8 = ?s" by (metis mult_div_mod_eq)
    show ?thesis unfolding bit_at_def addr'_def eq
      using True i by (auto simp: bit_simps)
  next
    case False
    then show ?thesis using i by (auto simp: bit_at_def addr'_def)
  qed
  then show thesis
    using that [of addr'] i by (simp add: bfs_clear_bit_def index_div shift_mod addr'_def Let_def)
qed

lemma bfs_bit_out_of_bounds:
  assumes "nbits addr \<le> nr"
  shows "bfs_set_bit nr addr = Inl BfsOutOfBounds" "bfs_clear_bit nr addr = Inl BfsOutOfBounds"
    "bfs_test_bit nr addr = Inl BfsOutOfBounds"
proof -
  have "\<not> nr div 8 < length addr"
    using assms nbits_index [of nr addr] by simp
  then show "bfs_set_bit nr addr = Inl BfsOutOfBounds"
    "bfs_clear_bit nr addr = Inl BfsOutOfBounds" "bfs_test_bit nr addr = Inl BfsOutOfBounds"
    by (simp_all add: bfs_set_bit_def bfs_clear_bit_def bfs_test_bit_def index_div)
qed

section \<open>Properties\<close>

text \<open>C27: A path with a slash is the directory part, a slash and the base name; the base
  name has no further slash, and the directory of a top-level entry is the root.\<close>

lemma path_split:
  assumes "CHR ''/'' \<in> set p"
  shows "\<exists>d. p = d @ ''/'' @ bfs_basename p \<and> CHR ''/'' \<notin> set (bfs_basename p) \<and>
    fst (bfs_dirname p) = (if d = [] then ''/'' else d)"
proof -
  obtain i where i: "strrchr p (CHR ''/'') = Some i"
    using assms strrchr_None [of p "CHR ''/''"] by (cases "strrchr p (CHR ''/'')") auto
  have b: "bfs_basename p = drop (Suc i) p" and le: "i < length p"
    using i strrchr_Some [OF i] by (simp_all add: bfs_basename_def)
  have "p = take i p @ ''/'' @ bfs_basename p"
    using strrchr_split [OF i] b by simp
  moreover have "fst (bfs_dirname p) = (if take i p = [] then ''/'' else take i p)"
    using i le by (auto simp: bfs_dirname_def Let_def)
  ultimately show ?thesis
    using strrchr_Some [OF i] b by (intro exI [of _ "take i p"]) simp
qed

lemma path_split_witness:
  "\<exists>d. ''/a/bc'' = d @ ''/'' @ bfs_basename ''/a/bc'' \<and>
    CHR ''/'' \<notin> set (bfs_basename ''/a/bc'') \<and> fst (bfs_dirname ''/a/bc'') = (if d = [] then ''/'' else d)"
  by (rule path_split) simp

text \<open>A random value drawn for a 32-bit range lies in that range, for every 64-bit
  random word: neither the range length nor the shifted remainder wraps.\<close>

lemma get_random_value_range:
  assumes "unat lo \<le> unat hi" "unat hi < 2 ^ 32"
  shows "unat lo \<le> unat (get_random_value rnd lo hi) \<and> unat (get_random_value rnd lo hi) \<le> unat hi"
proof -
  let ?r = "hi - lo + 1"
  have d: "unat (hi - lo) = unat hi - unat lo"
    using assms(1) by (simp add: unat_sub word_le_nat_alt)
  have r: "unat ?r = unat hi - unat lo + 1"
    using assms(2) d by (subst unat_word_ariths(1)) simp
  then have nz: "?r \<noteq> 0" by (metis add_is_0 one_neq_zero unsigned_0)
  have m: "unat (rnd mod ?r) < unat hi - unat lo + 1"
    using r by (simp add: unat_mod)
  have "unat (rnd mod ?r + lo) = unat (rnd mod ?r) + unat lo"
    using m assms by (subst unat_word_ariths(1)) simp
  with m assms have v: "unat lo \<le> unat (rnd mod ?r + lo)" "unat (rnd mod ?r + lo) \<le> unat hi"
    by simp_all
  then have "unat (ucast (rnd mod ?r + lo) :: 32 word) = unat (rnd mod ?r + lo)"
    using assms(2) by (simp add: unsigned_ucast_eq take_bit_nat_eq_self_iff)
  with v nz show ?thesis by (simp add: get_random_value_def)
qed

lemma get_random_value_range_witness:
  "unat (3 :: 64 word) \<le> unat (get_random_value 100 3 9) \<and> unat (get_random_value 100 3 9) \<le> unat (9 :: 64 word)"
  by (rule get_random_value_range) simp_all

text \<open>The value of C's remainder, and of words read as signed integers.\<close>

lemma smod_neg: "r < 0 \<Longrightarrow> 0 < n \<Longrightarrow> r smod n = - ((- r) mod (n :: int))"
  by (simp add: signed_modulo_int_def signed_divide_int_def minus_mult_div_eq_mod [symmetric] algebra_simps)

lemma smod_nonneg: "0 \<le> r \<Longrightarrow> 0 < n \<Longrightarrow> r smod n = r mod (n :: int)"
  by (cases "r = 0") (simp_all add: signed_modulo_int_def signed_divide_int_def minus_mult_div_eq_mod [symmetric] algebra_simps)

lemma sint_32: "- (2 ^ 31) \<le> sint (w :: 32 word)" "sint w < 2 ^ 31"
  using sint_greater_eq [of w] sint_less [of w] by simp_all

lemma sint_word_of_int_32: "sint (word_of_int k :: 32 word) = (k + 2 ^ 31) mod 2 ^ 32 - 2 ^ 31"
  by (simp only: sint_sbintrunc' signed_take_bit_eq_take_bit_shift take_bit_eq_mod) simp

lemma sint_32_id: "- (2 ^ 31) \<le> k \<Longrightarrow> k < 2 ^ 31 \<Longrightarrow> sint (word_of_int k :: 32 word) = k"
  by (simp add: sint_word_of_int_32)

lemma sint_32_wrap:
  assumes "k < - (2 ^ 31)" "- (2 ^ 32) \<le> k"
  shows "sint (word_of_int k :: 32 word) = k + 2 ^ 32"
proof -
  have "(k + 2 ^ 31) mod 2 ^ 32 = (k + 2 ^ 31 + 2 ^ 32) mod 2 ^ 32" by (simp only: mod_add_self2)
  also have "\<dots> = k + 2 ^ 31 + 2 ^ 32" using assms by (intro mod_pos_pos_trivial) auto
  finally show ?thesis by (simp add: sint_word_of_int_32)
qed

lemma sint_range_length:
  assumes "sint lo \<le> sint hi" "sint hi - sint lo + 1 < 2 ^ 31"
  shows "sint (hi - lo + 1 :: 32 word) = sint hi - sint lo + 1"
proof -
  have "hi - lo + 1 = word_of_int (sint hi - sint lo + 1)" by simp
  then show ?thesis using sint_32_id [of "sint hi - sint lo + 1"] assms by simp
qed

text \<open>A sum that misses a range of less than half the words by less than its length misses it with wrap-around too.\<close>

lemma sint_outside:
  fixes lo :: "32 word"
  assumes "n < 2 ^ 31" "- n < m" "m < 0"
  shows "\<not> (sint lo \<le> sint (word_of_int m + lo) \<and> sint (word_of_int m + lo) < sint lo + n)"
proof -
  have e: "word_of_int m + lo = word_of_int (m + sint lo)" by simp
  show ?thesis
  proof (cases "- (2 ^ 31) \<le> m + sint lo")
    case True
    then have "sint (word_of_int m + lo) = m + sint lo" using assms sint_32(2) [of lo] by (subst e, intro sint_32_id) auto
    then show ?thesis using assms by simp
  next
    case False
    then have "sint (word_of_int m + lo) = m + sint lo + 2 ^ 32"
      unfolding e using assms sint_32(1) [of lo] by (intro sint_32_wrap) auto
    then show ?thesis using assms by simp
  qed
qed

text \<open>C40: The signed variant leaves its range for negative random words.  For a non-empty range shorter than \<^verbatim>\<open>2^31\<close>,
  the 32-bit result lies between the minimum and the maximum if and only if the random word is not negative or is a multiple
  of the range length; in the range of all 32-bit integers, where the length wraps around to 0, the random word is the
  result.\<close>

lemma get_random_signed_value_range:
  assumes "sint lo \<le> sint hi" "sint hi - sint lo + 1 < 2 ^ 31 \<or> hi - lo + 1 = 0"
  shows "(sint lo \<le> sint (get_random_signed_value rnd lo hi) \<and> sint (get_random_signed_value rnd lo hi) \<le> sint hi) \<longleftrightarrow>
    (hi - lo + 1 = 0 \<or> 0 \<le> sint rnd \<or> (sint hi - sint lo + 1) dvd sint rnd)"
proof (cases "hi - lo + 1 = 0")
  case True
  have "hi = (hi - lo + 1) + (lo - 1)" by simp
  then have "hi = lo - 1" unfolding True by simp
  then have h: "sint hi = sint (word_of_int (sint lo - 1) :: 32 word)" by simp
  have "sint lo = - (2 ^ 31)"
  proof (rule ccontr)
    assume "sint lo \<noteq> - (2 ^ 31)"
    then have "sint hi = sint lo - 1" unfolding h using sint_32 [of lo] by (intro sint_32_id) auto
    then show False using assms(1) by simp
  qed
  moreover from this have "sint hi = 2 ^ 31 - 1" unfolding h by (simp add: sint_word_of_int_32)
  ultimately show ?thesis using True sint_32 [of rnd] by (simp add: get_random_signed_value_def)
next
  case False
  define n where "n = sint hi - sint lo + 1"
  have n: "0 < n" "n < 2 ^ 31" "sint (hi - lo + 1) = n"
    using assms False sint_range_length [of lo hi] by (auto simp: n_def)
  define m where "m = sint rnd smod n"
  have v: "get_random_signed_value rnd lo hi = word_of_int m + lo" using False n(3) by (simp add: get_random_signed_value_def m_def)
  have h: "sint hi = sint lo + n - 1" by (simp add: n_def)
  show ?thesis
  proof (cases "0 \<le> sint rnd \<or> n dvd sint rnd")
    case True
    then have m: "0 \<le> m" "m < n"
      using n(1) smod_nonneg [of "sint rnd" n] smod_neg [of "sint rnd" n]
      by (cases "0 \<le> sint rnd"; simp add: m_def)+
    have "word_of_int m + lo = word_of_int (m + sint lo)" by simp
    moreover have "sint (word_of_int (m + sint lo) :: 32 word) = m + sint lo"
      using m h sint_32 [of lo] sint_32(2) [of hi] by (intro sint_32_id) auto
    ultimately have "sint (word_of_int m + lo) = m + sint lo" by simp
    then show ?thesis using True m h unfolding v by (simp add: n_def [symmetric])
  next
    case out: False
    have "(- sint rnd) mod n \<noteq> 0" using out by (simp add: mod_eq_0_iff_dvd)
    then have "0 < (- sint rnd) mod n" "(- sint rnd) mod n < n"
      using pos_mod_bound [OF n(1), of "- sint rnd"] pos_mod_sign [OF n(1), of "- sint rnd"] by linarith+
    moreover have "m = - ((- sint rnd) mod n)" unfolding m_def by (rule smod_neg) (use out n(1) in auto)
    ultimately have "- n < m" "m < 0" by linarith+
    then have "\<not> (sint lo \<le> sint (word_of_int m + lo) \<and> sint (word_of_int m + lo) \<le> sint hi)"
      using sint_outside [of n m lo] n(2) h by linarith
    then show ?thesis using out False unfolding v n_def by blast
  qed
qed

lemma get_random_signed_value_range_witness:
  "\<not> (1 \<le> sint (get_random_signed_value (- 1) 1 6) \<and> sint (get_random_signed_value (- 1) 1 6) \<le> 6)"
  using get_random_signed_value_range [of 1 6 "- 1"] by simp

end
