(* ===== verification/Bfs_FlexBuffer.thy ===== *)
theory Bfs_FlexBuffer
  imports Bfs_Prelude
begin

text \<open>
  The flexible buffer of \<^verbatim>\<open>src/src/bfs_utils/bfsFlexibleBuffer.cpp\<close>, the byte
  container in which every message and block travels.  An allocation is split
  into a header region, the data and a trailer region; headers and trailers are
  added and removed by moving the boundaries.  Lengths are 32-bit
  (\<^verbatim>\<open>bfs_size_t\<close>); memory accesses outside the allocation are the error
  \<^const>\<open>BfsOutOfBounds\<close>.
\<close>

section \<open>The buffer and its operations\<close>

record flexbuf =
  buffer :: "byte list option"   \<comment> \<open>the allocation, \<^const>\<open>None\<close> for \<^verbatim>\<open>NULL\<close>\<close>
  allocation :: nat
  hlength :: nat
  blength :: nat                  \<comment> \<open>the field \<^verbatim>\<open>length\<close>\<close>
  tlength :: nat
  burnOnFree :: bool

definition BFSFLEXBUF_DEFAULT_PAD :: nat where
  "BFSFLEXBUF_DEFAULT_PAD = 32"

definition flexbuf_new :: flexbuf where
  "flexbuf_new = \<lparr> buffer = None, allocation = 0, hlength = 0, blength = 0, tlength = 0,
     burnOnFree = True \<rparr>"

text \<open>\<^verbatim>\<open>memcpy (&buffer[off], src, |src|)\<close> and \<^verbatim>\<open>memcpy (dst, &buffer[off], len)\<close>.\<close>

definition fb_write :: "nat \<Rightarrow> byte list \<Rightarrow> (flexbuf, unit) comp" where
  "fb_write off src = (\<lambda>fb.
    if src = [] then (Inr (), fb)
    else case buffer fb of
      None \<Rightarrow> (Inl BfsBadPointer, fb)
    | Some b \<Rightarrow>
        if off + length src \<le> length b
        then (Inr (), fb \<lparr> buffer := Some (blit off src b) \<rparr>)
        else (Inl BfsOutOfBounds, fb))"

definition fb_read :: "nat \<Rightarrow> nat \<Rightarrow> (flexbuf, byte list) comp" where
  "fb_read off len = (\<lambda>fb.
    if len = 0 then (Inr [], fb)
    else case buffer fb of
      None \<Rightarrow> (Inl BfsBadPointer, fb)
    | Some b \<Rightarrow>
        if off + len \<le> length b then (Inr (chunk off len b), fb)
        else (Inl BfsOutOfBounds, fb))"

definition do_alloc :: "nat \<Rightarrow> byte list" where
  "do_alloc sz = replicate sz 0"

definition resizeAllocation :: "nat \<Rightarrow> nat \<Rightarrow> nat \<Rightarrow> (flexbuf, nat) comp" where
  "resizeAllocation minhd newlen mintl = (\<lambda>fb.
    let newsz = u32 (minhd + newlen + mintl) in
    if minhd \<le> hlength fb \<and> newlen = blength fb \<and> mintl \<le> tlength fb
    then (Inr (allocation fb), fb)
    else if newsz \<le> allocation fb then
      (let left = allocation fb - newsz;
           new_hlength = u32 (minhd + left div 2 + left mod 2);
           new_tlength = u32 (mintl + left div 2)
       in (Inr (allocation fb),
           fb \<lparr> blength := newlen, hlength := new_hlength, tlength := new_tlength \<rparr>))
    else
      (let newbuf = do_alloc newsz;
           copied =
             (if blength fb > 0 then
                (case buffer fb of
                   None \<Rightarrow> Inl bfsUtilError
                 | Some b \<Rightarrow>
                     if hlength fb + blength fb \<le> length b \<and> minhd + blength fb \<le> newsz
                     then Inr (blit minhd (chunk (hlength fb) (blength fb) b) newbuf)
                     else Inl BfsOutOfBounds)
              else Inr newbuf)
       in case copied of
            Inl e \<Rightarrow> (Inl e, fb)
          | Inr newbuf' \<Rightarrow>
              (Inr newlen,
               fb \<lparr> allocation := newsz, hlength := minhd, blength := newlen, tlength := mintl,
                    buffer := Some newbuf' \<rparr>)))"

definition setData :: "byte list \<Rightarrow> (flexbuf, nat) comp" where
  "setData dat =
    (let len = length dat in
     seqE (bindE (getE (\<lambda>fb. (blength fb, hlength fb, tlength fb))) (\<lambda>(l, h, t).
             if len \<noteq> l then resizeAllocation h len t else retE 0))
     (seqE (bindE (getE hlength) (\<lambda>h. fb_write h dat))
     (seqE (modE (blength_update (\<lambda>_. len)))
     (getE blength))))"

text \<open>The attribute constructor ignores its padding arguments.\<close>

definition flexbuf_of :: "byte list \<Rightarrow> nat \<Rightarrow> nat \<Rightarrow> (bfs_error + nat) \<times> flexbuf" where
  "flexbuf_of dat hpadsz tpadsz = setData dat flexbuf_new"

definition flexbuf_copy :: "flexbuf \<Rightarrow> flexbuf" where
  "flexbuf_copy cpy = cpy \<lparr> buffer := Some (case buffer cpy of None \<Rightarrow> [] | Some b \<Rightarrow> b) \<rparr>"

text \<open>The destructor returns the bytes handed back to the allocator: zeroed when
  the buffer burns on free.\<close>

definition flexbuf_delete :: "flexbuf \<Rightarrow> byte list option \<times> flexbuf" where
  "flexbuf_delete fb =
    (let burned = (if burnOnFree fb then map_option (\<lambda>b. replicate (length b) 0) (buffer fb)
                   else buffer fb)
     in (burned, fb \<lparr> buffer := None, allocation := 0, hlength := 0, blength := 0, tlength := 0 \<rparr>))"

definition burn :: "flexbuf \<Rightarrow> flexbuf" where
  "burn fb = fb \<lparr> buffer := map_option (\<lambda>b. replicate (length b) 0) (buffer fb) \<rparr>"

definition resetWithAlloc :: "nat \<Rightarrow> byte \<Rightarrow> nat \<Rightarrow> nat \<Rightarrow> bool \<Rightarrow> (flexbuf, nat) comp" where
  "resetWithAlloc sz fill hpadsz tpadsz burn_on_reset =
     seqE (if burn_on_reset then modE burn else retE ())
     (seqE (bindE (getE (\<lambda>fb. blength fb \<noteq> sz \<or> hlength fb < hpadsz \<or> tlength fb < tpadsz))
             (\<lambda>b. if b then resizeAllocation hpadsz sz tpadsz else retE 0))
     (seqE (bindE (getE hlength) (\<lambda>h. fb_write h (replicate sz fill)))
     (retE sz)))"

definition addHeader :: "byte list \<Rightarrow> (flexbuf, nat) comp" where
  "addHeader dat =
    (let len = length dat in
     seqE (bindE (getE (\<lambda>fb. (hlength fb, blength fb, tlength fb))) (\<lambda>(h, l, t).
             if len > h then resizeAllocation (BFSFLEXBUF_DEFAULT_PAD + len) l t else retE 0))
     (seqE (bindE (getE hlength) (\<lambda>h. fb_write (h - len) dat))
     (seqE (modE (\<lambda>fb. fb \<lparr> hlength := hlength fb - len, blength := blength fb + len \<rparr>))
     (getE blength))))"

definition removeHeader :: "nat \<Rightarrow> (flexbuf, byte list) comp" where
  "removeHeader len =
     bindE (getE id) (\<lambda>fb.
     seqE (guardE (buffer fb \<noteq> None) bfsUtilError)
     (seqE (guardE (\<not> len > blength fb) bfsUtilError)
     (bindE (fb_read (hlength fb) len) (\<lambda>dat.
     seqE (modE (\<lambda>fb. fb \<lparr> hlength := hlength fb + len, blength := blength fb - len \<rparr>))
     (retE dat)))))"

definition addTrailer :: "byte list \<Rightarrow> (flexbuf, nat) comp" where
  "addTrailer dat =
    (let len = length dat in
     seqE (bindE (getE (\<lambda>fb. (hlength fb, blength fb, tlength fb))) (\<lambda>(h, l, t).
             if len > t then resizeAllocation h l (len + BFSFLEXBUF_DEFAULT_PAD) else retE 0))
     (seqE (bindE (getE (\<lambda>fb. hlength fb + blength fb)) (\<lambda>off. fb_write off dat))
     (seqE (modE (\<lambda>fb. fb \<lparr> tlength := tlength fb - len, blength := blength fb + len \<rparr>))
     (getE blength))))"

definition removeTrailer :: "nat \<Rightarrow> (flexbuf, byte list) comp" where
  "removeTrailer len =
     bindE (getE id) (\<lambda>fb.
     seqE (guardE (buffer fb \<noteq> None) bfsUtilError)
     (seqE (guardE (\<not> blength fb < len) bfsUtilError)
     (bindE (fb_read (hlength fb + blength fb - len) len) (\<lambda>dat.
     seqE (modE (\<lambda>fb. fb \<lparr> tlength := tlength fb + len, blength := blength fb - len \<rparr>))
     (retE dat)))))"

text \<open>The bytes a client sees through \<^verbatim>\<open>getBuffer\<close> and \<^verbatim>\<open>getLength\<close>, an in-place
  change of them, and the two comparison operators.\<close>

definition fb_data :: "flexbuf \<Rightarrow> byte list" where
  "fb_data fb = (case buffer fb of None \<Rightarrow> [] | Some b \<Rightarrow> chunk (hlength fb) (blength fb) b)"

definition fb_overwrite :: "byte list \<Rightarrow> (flexbuf, unit) comp" where
  "fb_overwrite dat = bindE (getE hlength) (\<lambda>h. fb_write h dat)"

definition flexbuf_assign :: "flexbuf \<Rightarrow> (flexbuf, nat) comp" where
  "flexbuf_assign fb = setData (fb_data fb)"

definition flexbuf_eq :: "flexbuf \<Rightarrow> flexbuf \<Rightarrow> bool" where
  "flexbuf_eq a b = (blength a = blength b \<and> fb_data a = fb_data b)"

section \<open>Typed headers and trailers\<close>

text \<open>The overloads of \<^verbatim>\<open>addHeader\<close>, \<^verbatim>\<open>removeHeader\<close>, \<^verbatim>\<open>addTrailer\<close>, \<^verbatim>\<open>removeTrailer\<close> and the
  streaming operators for the scalar types: the bytes of the variable are added or
  removed.\<close>

datatype fb_type = CharT | BoolT | U16T | I16T | U32T | I32T | U64T | I64T

primrec fb_sizeof :: "fb_type \<Rightarrow> nat" where
  "fb_sizeof CharT = 1"
| "fb_sizeof BoolT = 1"
| "fb_sizeof U16T = 2"
| "fb_sizeof I16T = 2"
| "fb_sizeof U32T = 4"
| "fb_sizeof I32T = 4"
| "fb_sizeof U64T = 8"
| "fb_sizeof I64T = 8"

definition fb_signed :: "fb_type \<Rightarrow> bool" where
  "fb_signed ty = (ty \<in> {CharT, I16T, I32T, I64T})"

definition fb_encode :: "fb_type \<Rightarrow> int \<Rightarrow> byte list" where
  "fb_encode ty v = le_bytes (fb_sizeof ty) (nat (v mod 2 ^ (8 * fb_sizeof ty)))"

definition fb_decode :: "fb_type \<Rightarrow> byte list \<Rightarrow> int" where
  "fb_decode ty bs =
    (let n = int (le_val bs) in
     if fb_signed ty \<and> n \<ge> 2 ^ (8 * fb_sizeof ty - 1) then n - 2 ^ (8 * fb_sizeof ty) else n)"

definition addHeader_val :: "fb_type \<Rightarrow> int \<Rightarrow> (flexbuf, nat) comp" where
  "addHeader_val ty v = addHeader (fb_encode ty v)"

definition removeHeader_val :: "fb_type \<Rightarrow> (flexbuf, int) comp" where
  "removeHeader_val ty = bindE (removeHeader (fb_sizeof ty)) (\<lambda>bs. retE (fb_decode ty bs))"

definition addTrailer_val :: "fb_type \<Rightarrow> int \<Rightarrow> (flexbuf, nat) comp" where
  "addTrailer_val ty v = addTrailer (fb_encode ty v)"

definition removeTrailer_val :: "fb_type \<Rightarrow> (flexbuf, int) comp" where
  "removeTrailer_val ty = bindE (removeTrailer (fb_sizeof ty)) (\<lambda>bs. retE (fb_decode ty bs))"

definition stream_out :: "fb_type \<Rightarrow> int \<Rightarrow> (flexbuf, unit) comp" where
  "stream_out ty v = seqE (addHeader_val ty v) (retE ())"

definition stream_in :: "fb_type \<Rightarrow> (flexbuf, int) comp" where
  "stream_in ty = removeHeader_val ty"

primrec stream_all :: "(fb_type \<times> int) list \<Rightarrow> (flexbuf, unit) comp" where
  "stream_all [] = retE ()"
| "stream_all (p # ps) = seqE (stream_out (fst p) (snd p)) (stream_all ps)"

primrec unstream_all :: "fb_type list \<Rightarrow> (flexbuf, int list) comp" where
  "unstream_all [] = retE []"
| "unstream_all (ty # tys) = bindE (stream_in ty) (\<lambda>v. bindE (unstream_all tys) (\<lambda>vs. retE (v # vs)))"

section \<open>The buffer invariant\<close>

text \<open>\<^verbatim>\<open>fb_rep fb H D T\<close>: the allocation consists of the header space \<^verbatim>\<open>H\<close>, the
  data \<^verbatim>\<open>D\<close> and the trailer space \<^verbatim>\<open>T\<close>.\<close>

definition fb_rep :: "flexbuf \<Rightarrow> byte list \<Rightarrow> byte list \<Rightarrow> byte list \<Rightarrow> bool" where
  "fb_rep fb H D T \<longleftrightarrow>
     (buffer fb = Some (H @ D @ T) \<or> buffer fb = None \<and> H = [] \<and> D = [] \<and> T = []) \<and>
     hlength fb = length H \<and> blength fb = length D \<and> tlength fb = length T \<and>
     allocation fb = length H + length D + length T \<and> allocation fb < 2 ^ 32"

definition fb_ok :: "flexbuf \<Rightarrow> bool" where
  "fb_ok fb \<longleftrightarrow>
     (case buffer fb of None \<Rightarrow> allocation fb = 0 | Some b \<Rightarrow> length b = allocation fb) \<and>
     hlength fb + blength fb + tlength fb = allocation fb \<and> allocation fb < 2 ^ 32"

lemma fb_rep_ok: "fb_rep fb H D T \<Longrightarrow> fb_ok fb"
  by (auto simp: fb_rep_def fb_ok_def)

lemma fb_rep_data: "fb_rep fb H D T \<Longrightarrow> fb_data fb = D"
  by (auto simp: fb_rep_def fb_data_def chunk_def)

lemma fb_rep_alloc: "fb_rep fb H D T \<Longrightarrow> allocation fb = length H + length D + length T"
  by (simp add: fb_rep_def)

lemma fb_okE:
  assumes "fb_ok fb"
  obtains H T where "fb_rep fb H (fb_data fb) T"
proof (cases "buffer fb")
  case None
  with assms that [of "[]" "[]"] show thesis
    by (simp add: fb_ok_def fb_rep_def fb_data_def)
next
  case (Some b)
  have "b = take (hlength fb) b @ chunk (hlength fb) (blength fb) b @ drop (hlength fb + blength fb) b"
    by (simp add: chunk_def) (metis append_take_drop_id drop_drop add.commute)
  with assms Some that [of "take (hlength fb) b" "drop (hlength fb + blength fb) b"] show thesis
    by (auto simp: fb_ok_def fb_rep_def fb_data_def)
qed

lemma fb_rep_new [simp]: "fb_rep flexbuf_new [] [] []"
  by (simp add: fb_rep_def flexbuf_new_def)

lemma fb_ok_new [simp]: "fb_ok flexbuf_new"
  by (rule fb_rep_ok [OF fb_rep_new])

lemma fb_data_new [simp]: "fb_data flexbuf_new = []"
  by (rule fb_rep_data [OF fb_rep_new])

lemma length_fb_data [simp]: "fb_ok fb \<Longrightarrow> length (fb_data fb) = blength fb"
  by (auto simp: fb_ok_def fb_data_def split: option.splits)

text \<open>Growing the header or trailer region always takes the reallocating branch,
  which keeps the data; the branch that re-centres the boundaries without moving
  the bytes is unreachable when only a region grows.\<close>

lemma resize_grow:
  assumes rep: "fb_rep fb H D T"
    and big: "allocation fb < minhd + newlen + mintl" "minhd + newlen + mintl < 2 ^ 32"
    and fits: "length D \<le> newlen"
  obtains fb' where "resizeAllocation minhd newlen mintl fb = (Inr newlen, fb')"
    "fb_rep fb' (replicate minhd 0) (D @ replicate (newlen - length D) 0) (replicate mintl 0)"
proof -
  let ?n = "minhd + newlen + mintl"
  let ?buf = "replicate minhd 0 @ (D @ replicate (newlen - length D) 0) @ replicate mintl 0"
  define fb' where "fb' = fb \<lparr> allocation := ?n, hlength := minhd, blength := newlen,
    tlength := mintl, buffer := Some ?buf \<rparr>"
  have n: "u32 ?n = ?n" using big by simp
  have blit: "blit minhd D (do_alloc ?n) = ?buf"
    using fits by (simp add: blit_def do_alloc_def replicate_add [symmetric] add.commute add.left_commute)
  have "resizeAllocation minhd newlen mintl fb = (Inr newlen, fb')"
  proof (cases "D = []")
    case True
    with rep big n show ?thesis
      by (auto simp: resizeAllocation_def Let_def fb'_def fb_rep_def do_alloc_def
          replicate_add [symmetric] add.assoc)
  next
    case False
    with rep big n fits blit show ?thesis
      by (auto simp: resizeAllocation_def Let_def fb'_def fb_rep_def chunk_def)
  qed
  with that [of fb'] big fits show thesis
    by (simp add: fb_rep_def fb'_def)
qed

lemma fb_write_in:
  assumes "fb_rep fb H D T" "off + length src \<le> allocation fb"
  shows "fb_write off src fb =
    (Inr (), if src = [] then fb else fb \<lparr> buffer := Some (blit off src (H @ D @ T)) \<rparr>)"
  using assms by (auto simp: fb_write_def fb_rep_def)

lemma addHeader_rep:
  assumes rep: "fb_rep fb H D T"
    and room: "allocation fb + length dat + BFSFLEXBUF_DEFAULT_PAD < 2 ^ 32"
  obtains fb' H' T' where "addHeader dat fb = (Inr (length dat + length D), fb')"
    "fb_rep fb' H' (dat @ D) T'"
    "allocation fb' \<le> allocation fb + length dat + BFSFLEXBUF_DEFAULT_PAD"
proof -
  let ?n = "length dat" and ?pad = BFSFLEXBUF_DEFAULT_PAD
  obtain fb1 H1 T1 r where r: "(if ?n > length H
       then resizeAllocation (?pad + ?n) (length D) (length T) else retE 0) fb = (Inr r, fb1)"
    and rep1: "fb_rep fb1 H1 D T1" and h1: "?n \<le> length H1"
    and a1: "allocation fb1 \<le> allocation fb + ?n + ?pad"
  proof (cases "?n > length H")
    case True
    have "allocation fb < ?pad + ?n + length D + length T"
      "?pad + ?n + length D + length T < 2 ^ 32"
      using rep True room by (auto simp: fb_rep_def)
    from resize_grow [OF rep this] obtain fb1 where
      "resizeAllocation (?pad + ?n) (length D) (length T) fb = (Inr (length D), fb1)"
      "fb_rep fb1 (replicate (?pad + ?n) 0) D (replicate (length T) 0)"
      by auto
    with that [OF _ this(2)] True fb_rep_alloc [OF rep] fb_rep_alloc [OF this(2)] show thesis
      by simp
  next
    case False
    with that [of 0 fb H T] rep show thesis by (auto simp: comp_simps)
  qed
  let ?H = "take (length H1 - ?n) H1"
  define fb' where "fb' = (if dat = [] then fb1 else fb1 \<lparr> buffer := Some (?H @ dat @ D @ T1) \<rparr>)
    \<lparr> hlength := length H1 - ?n, blength := ?n + length D \<rparr>"
  have b: "blit (length H1 - ?n) dat (H1 @ D @ T1) = ?H @ dat @ D @ T1"
    using h1 by (simp add: blit_def)
  have "addHeader dat fb = (Inr (?n + length D), fb')"
    using r rep rep1 h1 fb_write_in [OF rep1, of "length H1 - ?n" dat] b
    by (auto simp: addHeader_def Let_def seqE_def bindE_def getE_def modE_def fb'_def fb_rep_def)
  moreover have "fb_rep fb' ?H (dat @ D) T1"
    using rep1 h1 by (auto simp: fb'_def fb_rep_def)
  moreover have "allocation fb' \<le> allocation fb + ?n + ?pad"
    using a1 by (auto simp: fb'_def)
  ultimately show thesis by (rule that)
qed

lemma addTrailer_rep:
  assumes rep: "fb_rep fb H D T"
    and room: "allocation fb + length dat + BFSFLEXBUF_DEFAULT_PAD < 2 ^ 32"
  obtains fb' H' T' where "addTrailer dat fb = (Inr (length D + length dat), fb')"
    "fb_rep fb' H' (D @ dat) T'"
    "allocation fb' \<le> allocation fb + length dat + BFSFLEXBUF_DEFAULT_PAD"
proof -
  let ?n = "length dat" and ?pad = BFSFLEXBUF_DEFAULT_PAD
  obtain fb1 H1 T1 r where r: "(if ?n > length T
       then resizeAllocation (length H) (length D) (?n + ?pad) else retE 0) fb = (Inr r, fb1)"
    and rep1: "fb_rep fb1 H1 D T1" and t1: "?n \<le> length T1"
    and a1: "allocation fb1 \<le> allocation fb + ?n + ?pad"
  proof (cases "?n > length T")
    case True
    have "allocation fb < length H + length D + (?n + ?pad)"
      "length H + length D + (?n + ?pad) < 2 ^ 32"
      using rep True room by (auto simp: fb_rep_def)
    from resize_grow [OF rep this] obtain fb1 where
      "resizeAllocation (length H) (length D) (?n + ?pad) fb = (Inr (length D), fb1)"
      "fb_rep fb1 (replicate (length H) 0) D (replicate (?n + ?pad) 0)"
      by auto
    with that [OF _ this(2)] True fb_rep_alloc [OF rep] fb_rep_alloc [OF this(2)] show thesis
      by simp
  next
    case False
    with that [of 0 fb H T] rep show thesis by (auto simp: comp_simps)
  qed
  let ?T = "drop ?n T1"
  define fb' where "fb' = (if dat = [] then fb1 else fb1 \<lparr> buffer := Some (H1 @ D @ dat @ ?T) \<rparr>)
    \<lparr> tlength := length T1 - ?n, blength := length D + ?n \<rparr>"
  have b: "blit (length H1 + length D) dat (H1 @ D @ T1) = H1 @ D @ dat @ ?T"
    by (simp add: blit_def add.assoc)
  have "addTrailer dat fb = (Inr (length D + ?n), fb')"
    using r rep rep1 t1 fb_write_in [OF rep1, of "length H1 + length D" dat] b
    by (auto simp: addTrailer_def Let_def seqE_def bindE_def getE_def modE_def fb'_def fb_rep_def)
  moreover have "fb_rep fb' H1 (D @ dat) ?T"
    using rep1 t1 by (auto simp: fb'_def fb_rep_def)
  moreover have "allocation fb' \<le> allocation fb + ?n + ?pad"
    using a1 by (auto simp: fb'_def)
  ultimately show thesis by (rule that)
qed

lemma removeHeader_rep:
  assumes rep: "fb_rep fb H D T" and "buffer fb \<noteq> None" "len \<le> length D"
  obtains fb' where "removeHeader len fb = (Inr (take len D), fb')"
    "fb_rep fb' (H @ take len D) (drop len D) T" "allocation fb' = allocation fb"
proof -
  define fb' where "fb' = fb \<lparr> hlength := hlength fb + len, blength := blength fb - len \<rparr>"
  have "fb_read (hlength fb) len fb = (Inr (take len D), fb)"
    using assms by (auto simp: fb_read_def fb_rep_def chunk_def)
  with assms have "removeHeader len fb = (Inr (take len D), fb')"
    by (auto simp: removeHeader_def seqE_def bindE_def guardE_def getE_def modE_def retE_def
        fb'_def fb_rep_def)
  moreover have "fb_rep fb' (H @ take len D) (drop len D) T"
    using assms by (auto simp: fb_rep_def fb'_def)
  ultimately show thesis using that by (simp add: fb'_def)
qed

lemma removeTrailer_rep:
  assumes rep: "fb_rep fb H D T" and "buffer fb \<noteq> None" "len \<le> length D"
  obtains fb' where "removeTrailer len fb = (Inr (drop (length D - len) D), fb')"
    "fb_rep fb' H (take (length D - len) D) (drop (length D - len) D @ T)"
    "allocation fb' = allocation fb"
proof -
  define fb' where "fb' = fb \<lparr> tlength := tlength fb + len, blength := blength fb - len \<rparr>"
  have "fb_read (hlength fb + blength fb - len) len fb = (Inr (drop (length D - len) D), fb)"
    using assms by (auto simp: fb_read_def fb_rep_def chunk_def)
  with assms have "removeTrailer len fb = (Inr (drop (length D - len) D), fb')"
    by (auto simp: removeTrailer_def seqE_def bindE_def guardE_def getE_def modE_def retE_def
        fb'_def fb_rep_def)
  moreover have "fb_rep fb' H (take (length D - len) D) (drop (length D - len) D @ T)"
    using assms by (auto simp: fb_rep_def fb'_def)
  ultimately show thesis using that by (simp add: fb'_def)
qed

lemma fb_overwrite_rep:
  assumes rep: "fb_rep fb H D T" and "length dat = length D"
  obtains fb' where "fb_overwrite dat fb = (Inr (), fb')" "fb_rep fb' H dat T"
    "allocation fb' = allocation fb" "(buffer fb' = None) = (buffer fb = None)"
proof -
  define fb' where "fb' = (if dat = [] then fb else fb \<lparr> buffer := Some (H @ dat @ T) \<rparr>)"
  have "fb_overwrite dat fb = (Inr (), fb')"
    using fb_write_in [OF rep, of "length H" dat] assms
    by (auto simp: fb_overwrite_def bindE_def getE_def fb_rep_def fb'_def blit_def)
  moreover have "fb_rep fb' H dat T"
    using assms by (auto simp: fb_rep_def fb'_def)
  ultimately show thesis
    using that [of fb'] rep assms by (auto simp: fb'_def fb_rep_def)
qed

text \<open>The three branches of \<^const>\<open>resizeAllocation\<close>.\<close>

lemma resize_noop:
  assumes "minhd \<le> hlength fb \<and> newlen = blength fb \<and> mintl \<le> tlength fb"
  shows "resizeAllocation minhd newlen mintl fb = (Inr (allocation fb), fb)"
  unfolding resizeAllocation_def Let_def by (rule if_P [OF assms])

lemma resize_recentre:
  assumes noop: "\<not> (minhd \<le> hlength fb \<and> newlen = blength fb \<and> mintl \<le> tlength fb)"
    and small: "minhd + newlen + mintl \<le> allocation fb" and alloc: "allocation fb < 2 ^ 32"
  obtains h t where "h + newlen + t = allocation fb" "minhd \<le> h" "mintl \<le> t"
    "resizeAllocation minhd newlen mintl fb =
      (Inr (allocation fb), fb \<lparr> blength := newlen, hlength := h, tlength := t \<rparr>)"
proof -
  define left where "left = allocation fb - (minhd + newlen + mintl)"
  have half: "left div 2 + left div 2 + left mod 2 = left" by presburger
  have n: "u32 (minhd + newlen + mintl) = minhd + newlen + mintl"
    using small alloc by (intro u32_id) linarith
  have h: "u32 (minhd + left div 2 + left mod 2) = minhd + left div 2 + left mod 2"
    and t: "u32 (mintl + left div 2) = mintl + left div 2"
    using small alloc half unfolding left_def by (intro u32_id; linarith)+
  have "resizeAllocation minhd newlen mintl fb = (Inr (allocation fb),
      fb \<lparr> blength := newlen, hlength := minhd + left div 2 + left mod 2,
           tlength := mintl + left div 2 \<rparr>)"
    unfolding resizeAllocation_def Let_def if_not_P [OF noop] n if_P [OF small]
      left_def [symmetric] h t ..
  moreover have "minhd + left div 2 + left mod 2 + newlen + (mintl + left div 2) = allocation fb"
    using half small left_def by linarith
  moreover have "minhd \<le> minhd + left div 2 + left mod 2" "mintl \<le> mintl + left div 2"
    by linarith+
  ultimately show thesis
    by (intro that)
qed

lemma resize_realloc:
  assumes ok: "fb_ok fb" and noop: "\<not> (minhd \<le> hlength fb \<and> newlen = blength fb \<and> mintl \<le> tlength fb)"
    and big: "\<not> minhd + newlen + mintl \<le> allocation fb" "minhd + newlen + mintl < 2 ^ 32"
    and fits: "blength fb \<le> newlen + mintl"
  obtains b where "length b = minhd + newlen + mintl"
    "resizeAllocation minhd newlen mintl fb =
      (Inr newlen, fb \<lparr> allocation := minhd + newlen + mintl, hlength := minhd, blength := newlen,
         tlength := mintl, buffer := Some b \<rparr>)"
proof -
  let ?n = "minhd + newlen + mintl"
  define b where "b = (if blength fb > 0 then blit minhd (fb_data fb) (do_alloc ?n) else do_alloc ?n)"
  have n: "u32 ?n = ?n" using big by simp
  have "length b = ?n"
    using ok fits by (simp add: b_def do_alloc_def)
  moreover have "resizeAllocation minhd newlen mintl fb =
      (Inr newlen, fb \<lparr> allocation := ?n, hlength := minhd, blength := newlen,
         tlength := mintl, buffer := Some b \<rparr>)"
    using ok fits unfolding resizeAllocation_def Let_def if_not_P [OF noop] n if_not_P [OF big(1)]
    by (cases "buffer fb") (auto simp: b_def fb_ok_def fb_data_def)
  ultimately show thesis by (rule that)
qed

text \<open>Any resize from a well-formed buffer gives a well-formed one with the
  requested sizes, provided that a reallocation does not copy more bytes than the
  new allocation holds behind the header.\<close>

lemma resize_ok:
  assumes ok: "fb_ok fb" and sz: "minhd + newlen + mintl < 2 ^ 32"
    and fits: "minhd + newlen + mintl \<le> allocation fb \<or> blength fb \<le> newlen + mintl"
  obtains r fb1 where "resizeAllocation minhd newlen mintl fb = (Inr r, fb1)" "fb_ok fb1"
    "blength fb1 = newlen" "minhd \<le> hlength fb1" "mintl \<le> tlength fb1"
    "allocation fb1 \<le> max (allocation fb) (minhd + newlen + mintl)"
proof (cases "minhd \<le> hlength fb \<and> newlen = blength fb \<and> mintl \<le> tlength fb")
  case True
  from that [OF resize_noop [OF True]] ok True show thesis by auto
next
  case noop: False
  have alloc: "allocation fb < 2 ^ 32" using ok by (simp add: fb_ok_def)
  show thesis
  proof (cases "minhd + newlen + mintl \<le> allocation fb")
    case True
    obtain h t where ht: "h + newlen + t = allocation fb" "minhd \<le> h" "mintl \<le> t"
      and r: "resizeAllocation minhd newlen mintl fb =
        (Inr (allocation fb), fb \<lparr> blength := newlen, hlength := h, tlength := t \<rparr>)"
      using noop True alloc by (rule resize_recentre)
    have "fb_ok (fb \<lparr> blength := newlen, hlength := h, tlength := t \<rparr>)"
      using ok ht by (cases "buffer fb") (simp_all add: fb_ok_def)
    from that [OF r this] ht show thesis by simp
  next
    case False
    with fits have "blength fb \<le> newlen + mintl" by simp
    with ok noop False sz obtain b where len: "length b = minhd + newlen + mintl"
      and r: "resizeAllocation minhd newlen mintl fb =
        (Inr newlen, fb \<lparr> allocation := minhd + newlen + mintl, hlength := minhd,
           blength := newlen, tlength := mintl, buffer := Some b \<rparr>)"
      by (rule resize_realloc)
    from sz len have "fb_ok (fb \<lparr> allocation := minhd + newlen + mintl, hlength := minhd,
        blength := newlen, tlength := mintl, buffer := Some b \<rparr>)"
      by (simp add: fb_ok_def)
    from that [OF r this] show thesis by simp
  qed
qed

lemma setData_rep:
  assumes ok: "fb_ok fb" and sz: "hlength fb + length dat + tlength fb < 2 ^ 32"
  obtains fb' where "setData dat fb = (Inr (length dat), fb')" "fb_ok fb'" "fb_data fb' = dat"
    "allocation fb' \<le> max (allocation fb) (hlength fb + length dat + tlength fb)"
proof -
  let ?n = "length dat"
  obtain r fb1 where r: "(if ?n \<noteq> blength fb then resizeAllocation (hlength fb) ?n (tlength fb)
       else retE 0) fb = (Inr r, fb1)"
    and ok1: "fb_ok fb1" and l1: "blength fb1 = ?n"
    and a1: "allocation fb1 \<le> max (allocation fb) (hlength fb + ?n + tlength fb)"
  proof (cases "?n = blength fb")
    case True
    show thesis
      by (rule that [of 0 fb]) (simp_all add: True ok retE_def)
  next
    case False
    have "hlength fb + ?n + tlength fb \<le> allocation fb \<or> blength fb \<le> ?n + tlength fb"
      using ok by (auto simp: fb_ok_def)
    with ok sz obtain r fb1 where "resizeAllocation (hlength fb) ?n (tlength fb) fb = (Inr r, fb1)"
      "fb_ok fb1" "blength fb1 = ?n"
      "allocation fb1 \<le> max (allocation fb) (hlength fb + ?n + tlength fb)"
      by (rule resize_ok)
    then show thesis
      by (intro that [of r fb1]) (simp_all add: False)
  qed
  obtain H T where rep1: "fb_rep fb1 H (fb_data fb1) T" using ok1 by (rule fb_okE)
  have "length dat = length (fb_data fb1)" using ok1 l1 by simp
  from fb_overwrite_rep [OF rep1 this] obtain fb2 where
    w: "fb_overwrite dat fb1 = (Inr (), fb2)" and rep2: "fb_rep fb2 H dat T"
    and a2: "allocation fb2 = allocation fb1" by auto
  have "setData dat fb = (Inr ?n, fb2)"
    using r w fb_rep_ok [OF rep2] rep2 unfolding setData_def fb_overwrite_def
    by (auto simp: Let_def seqE_def bindE_def getE_def modE_def fb_rep_def)
  then show thesis
    by (rule that) (rule fb_rep_ok [OF rep2], rule fb_rep_data [OF rep2], simp only: a1 a2)
qed

lemma resetWithAlloc_rep:
  assumes ok: "fb_ok fb" and sz: "hpadsz + sz + tpadsz < 2 ^ 32"
    and fits: "hpadsz + sz + tpadsz \<le> allocation fb \<or> blength fb \<le> sz + tpadsz"
  obtains fb' where "resetWithAlloc sz fill hpadsz tpadsz False fb = (Inr sz, fb')" "fb_ok fb'"
    "fb_data fb' = replicate sz fill" "hpadsz \<le> hlength fb'" "tpadsz \<le> tlength fb'"
proof -
  obtain r fb1 where r: "(if blength fb \<noteq> sz \<or> hlength fb < hpadsz \<or> tlength fb < tpadsz
       then resizeAllocation hpadsz sz tpadsz else retE 0) fb = (Inr r, fb1)"
    and ok1: "fb_ok fb1" and l1: "blength fb1 = sz"
    and pads: "hpadsz \<le> hlength fb1" "tpadsz \<le> tlength fb1"
  proof (cases "blength fb \<noteq> sz \<or> hlength fb < hpadsz \<or> tlength fb < tpadsz")
    case True
    from ok sz fits obtain r fb1 where "resizeAllocation hpadsz sz tpadsz fb = (Inr r, fb1)"
      "fb_ok fb1" "blength fb1 = sz" "hpadsz \<le> hlength fb1" "tpadsz \<le> tlength fb1"
      by (rule resize_ok)
    then show thesis
      by (intro that [of r fb1]) (use True in \<open>auto simp only: if_True if_False\<close>)
  next
    case False
    then show thesis
      by (intro that [of 0 fb]) (simp_all add: ok retE_def)
  qed
  obtain H T where rep1: "fb_rep fb1 H (fb_data fb1) T" using ok1 by (rule fb_okE)
  have "length (replicate sz fill) = length (fb_data fb1)" using ok1 l1 by simp
  from fb_overwrite_rep [OF rep1 this] obtain fb2 where
    w: "fb_overwrite (replicate sz fill) fb1 = (Inr (), fb2)"
    and rep2: "fb_rep fb2 H (replicate sz fill) T" by auto
  have "resetWithAlloc sz fill hpadsz tpadsz False fb = (Inr sz, fb2)"
    using r w unfolding resetWithAlloc_def fb_overwrite_def
    by (auto simp: seqE_def bindE_def getE_def retE_def)
  then show thesis
    by (rule that) (use fb_rep_ok [OF rep2] fb_rep_data [OF rep2] pads rep1 rep2
        in \<open>simp_all add: fb_rep_def\<close>)
qed

section \<open>The framing contract\<close>

text \<open>What the layers above rely on: headers are a stack at the front of the data,
  trailers a stack at its back.  \<^verbatim>\<open>cap\<close> bounds the 32-bit allocation size.\<close>

primrec push_all :: "(byte list \<Rightarrow> ('b, nat) comp) \<Rightarrow> byte list list \<Rightarrow> ('b, unit) comp" where
  "push_all add [] = retE ()"
| "push_all add (d # ds) = seqE (add d) (push_all add ds)"

primrec pop_all :: "(nat \<Rightarrow> ('b, byte list) comp) \<Rightarrow> nat list \<Rightarrow> ('b, byte list list) comp" where
  "pop_all rem [] = retE []"
| "pop_all rem (n # ns) = bindE (rem n) (\<lambda>d. bindE (pop_all rem ns) (\<lambda>ds. retE (d # ds)))"

locale framed_buffer =
  fixes wf :: "'b \<Rightarrow> bool"
    and data :: "'b \<Rightarrow> byte list"
    and cap :: "'b \<Rightarrow> nat"
    and pad :: nat
    and addH addT :: "byte list \<Rightarrow> ('b, nat) comp"
    and remH remT :: "nat \<Rightarrow> ('b, byte list) comp"
    and over :: "byte list \<Rightarrow> ('b, unit) comp"
  assumes addH: "wf b \<Longrightarrow> cap b + length d + pad < 2 ^ 32 \<Longrightarrow>
      \<exists>b'. addH d b = (Inr (length (d @ data b)), b') \<and> wf b' \<and> data b' = d @ data b \<and>
        cap b' \<le> cap b + length d + pad"
    and addT: "wf b \<Longrightarrow> cap b + length d + pad < 2 ^ 32 \<Longrightarrow>
      \<exists>b'. addT d b = (Inr (length (data b @ d)), b') \<and> wf b' \<and> data b' = data b @ d \<and>
        cap b' \<le> cap b + length d + pad"
    and remH: "wf b \<Longrightarrow> data b = d @ r \<Longrightarrow> data b \<noteq> [] \<Longrightarrow>
      \<exists>b'. remH (length d) b = (Inr d, b') \<and> wf b' \<and> data b' = r \<and> cap b' = cap b"
    and remT: "wf b \<Longrightarrow> data b = r @ d \<Longrightarrow> data b \<noteq> [] \<Longrightarrow>
      \<exists>b'. remT (length d) b = (Inr d, b') \<and> wf b' \<and> data b' = r \<and> cap b' = cap b"
    and remH_short: "wf b \<Longrightarrow> length (data b) < n \<Longrightarrow> remH n b = (Inl bfsUtilError, b)"
    and remT_short: "wf b \<Longrightarrow> length (data b) < n \<Longrightarrow> remT n b = (Inl bfsUtilError, b)"
    and over: "wf b \<Longrightarrow> length d = length (data b) \<Longrightarrow>
      \<exists>b'. over d b = (Inr (), b') \<and> wf b' \<and> data b' = d \<and> cap b' = cap b"
begin

lemma push_headers:
  assumes "wf b" "cap b + sum_list (map (\<lambda>d. length d + pad) ds) < 2 ^ 32"
  shows "\<exists>b'. push_all addH ds b = (Inr (), b') \<and> wf b' \<and> data b' = concat (rev ds) @ data b"
  using assms
proof (induction ds arbitrary: b)
  case Nil
  then show ?case by (auto simp: retE_def)
next
  case (Cons d ds)
  then obtain b1 where b1: "addH d b = (Inr (length (d @ data b)), b1)" "wf b1"
    "data b1 = d @ data b" "cap b1 \<le> cap b + length d + pad"
    using addH [of b d] by auto
  have "cap b1 + sum_list (map (\<lambda>d. length d + pad) ds) < 2 ^ 32"
    using Cons.prems(2) b1(4) by simp
  from Cons.IH [OF b1(2) this] b1 show ?case
    by (auto simp: comp_simps)
qed

lemma pop_headers:
  assumes "wf b" "data b = concat ds @ r" "r \<noteq> []"
  shows "\<exists>b'. pop_all remH (map length ds) b = (Inr ds, b') \<and> wf b' \<and> data b' = r"
  using assms
proof (induction ds arbitrary: b)
  case Nil
  then show ?case by (auto simp: retE_def)
next
  case (Cons d ds)
  have "data b = d @ (concat ds @ r)" "data b \<noteq> []"
    using Cons.prems by auto
  from remH [OF Cons.prems(1) this] obtain b1 where b1: "remH (length d) b = (Inr d, b1)"
    "wf b1" "data b1 = concat ds @ r" by auto
  from Cons.IH [OF b1(2,3) Cons.prems(3)] b1(1) show ?case
    by (auto simp: comp_simps)
qed

text \<open>Headers come back last-in first-out, and the payload is untouched.\<close>

lemma headers_lifo:
  assumes "wf b" "cap b + sum_list (map (\<lambda>d. length d + pad) ds) < 2 ^ 32" "data b \<noteq> []"
  shows "\<exists>b'. seqE (push_all addH ds) (pop_all remH (map length (rev ds))) b = (Inr (rev ds), b') \<and>
    wf b' \<and> data b' = data b"
proof -
  obtain b1 where b1: "push_all addH ds b = (Inr (), b1)" "wf b1"
    "data b1 = concat (rev ds) @ data b"
    using push_headers [OF assms(1,2)] by auto
  from pop_headers [OF b1(2,3) assms(3)] b1(1) show ?thesis
    by (auto simp: comp_simps)
qed

end

interpretation fb: framed_buffer fb_ok fb_data allocation BFSFLEXBUF_DEFAULT_PAD
  addHeader addTrailer removeHeader removeTrailer fb_overwrite
proof (unfold_locales, goal_cases)
  case (1 b d)
  obtain H T where "fb_rep b H (fb_data b) T" using 1(1) by (rule fb_okE)
  with 1(2) show ?case by (metis addHeader_rep fb_rep_ok fb_rep_data length_append)
next
  case (2 b d)
  obtain H T where "fb_rep b H (fb_data b) T" using 2(1) by (rule fb_okE)
  with 2(2) show ?case by (metis addTrailer_rep fb_rep_ok fb_rep_data length_append)
next
  case (3 b d r)
  obtain H T where rep: "fb_rep b H (d @ r) T" using 3(1,2) fb_okE by metis
  moreover have "length d \<le> length (d @ r)" by simp
  moreover have "buffer b \<noteq> None" using 3(3) by (auto simp: fb_data_def split: option.splits)
  ultimately obtain b' where "removeHeader (length d) b = (Inr d, b')"
    "fb_rep b' (H @ d) r T" "allocation b' = allocation b"
    using removeHeader_rep [of b H "d @ r" T "length d"] by auto
  then show ?case by (auto intro: fb_rep_ok fb_rep_data)
next
  case (4 b r d)
  obtain H T where rep: "fb_rep b H (r @ d) T" using 4(1,2) fb_okE by metis
  moreover have "length d \<le> length (r @ d)" by simp
  moreover have "buffer b \<noteq> None" using 4(3) by (auto simp: fb_data_def split: option.splits)
  ultimately obtain b' where "removeTrailer (length d) b = (Inr d, b')"
    "fb_rep b' H r (d @ T)" "allocation b' = allocation b"
    using removeTrailer_rep [of b H "r @ d" T "length d"] by auto
  then show ?case by (auto intro: fb_rep_ok fb_rep_data)
next
  case (5 b n)
  then show ?case
    by (simp add: removeHeader_def comp_simps seqE_def bindE_def getE_def guardE_run)
next
  case (6 b n)
  then show ?case
    by (simp add: removeTrailer_def comp_simps seqE_def bindE_def getE_def guardE_run)
next
  case (7 b d)
  obtain H T where "fb_rep b H (fb_data b) T" using 7(1) by (rule fb_okE)
  with 7(2) show ?case by (metis fb_overwrite_rep fb_rep_ok fb_rep_data)
qed

section \<open>Typed values\<close>

text \<open>The values of a type.\<close>

definition fb_range :: "fb_type \<Rightarrow> int \<Rightarrow> bool" where
  "fb_range ty v \<longleftrightarrow>
    (if fb_signed ty then - (2 ^ (8 * fb_sizeof ty - 1)) \<le> v \<and> v < 2 ^ (8 * fb_sizeof ty - 1)
     else 0 \<le> v \<and> v < 2 ^ (8 * fb_sizeof ty))"

lemma length_fb_encode [simp]: "length (fb_encode ty v) = fb_sizeof ty"
  by (simp add: fb_encode_def)

lemma fb_sizeof_bounds: "0 < fb_sizeof ty" "fb_sizeof ty \<le> 8"
  by (cases ty; simp)+

lemma fb_decode_encode: "fb_range ty v \<Longrightarrow> fb_decode ty (fb_encode ty v) = v"
proof -
  assume r: "fb_range ty v"
  let ?m = "2 ^ (8 * fb_sizeof ty) :: int" and ?h = "2 ^ (8 * fb_sizeof ty - 1) :: int"
  have m: "?m = 2 * ?h" by (cases ty) simp_all
  have "nat (v mod ?m) < 256 ^ fb_sizeof ty"
    by (simp add: nat_less_iff power_mult)
  then have v: "int (le_val (fb_encode ty v)) = v mod ?m"
    by (simp add: fb_encode_def)
  show ?thesis
  proof (cases "v < 0")
    case True
    with r have s: "fb_signed ty" "- ?h \<le> v" by (auto simp: fb_range_def split: if_splits)
    have "v mod ?m = (v + ?m) mod ?m" by simp
    also have "\<dots> = v + ?m" using True s(2) m by (intro mod_pos_pos_trivial) simp_all
    finally show ?thesis using True s m by (simp add: fb_decode_def v Let_def)
  next
    case False
    with r m have lt: "v < ?m" and sg: "fb_signed ty \<longrightarrow> v < ?h"
      by (auto simp: fb_range_def split: if_splits)
    then have "v mod ?m = v" using False by simp
    with sg show ?thesis by (auto simp: fb_decode_def v Let_def not_le)
  qed
qed

lemma stream_all_ok:
  assumes "fb_ok b" "allocation b + 40 * length ps < 2 ^ 32"
  shows "\<exists>b'. stream_all ps b = (Inr (), b') \<and> fb_ok b' \<and>
    fb_data b' = concat (map (\<lambda>(ty, v). fb_encode ty v) (rev ps)) @ fb_data b"
  using assms
proof (induction ps arbitrary: b)
  case Nil
  then show ?case by (auto simp: retE_def)
next
  case (Cons p ps)
  obtain ty v where p: "p = (ty, v)" by (cases p)
  have "allocation b + length (fb_encode ty v) + BFSFLEXBUF_DEFAULT_PAD < 2 ^ 32"
    using Cons.prems(2) fb_sizeof_bounds(2) [of ty] by (simp add: BFSFLEXBUF_DEFAULT_PAD_def)
  from fb.addH [OF Cons.prems(1) this] obtain b1 where
    b1: "addHeader (fb_encode ty v) b = (Inr (length (fb_encode ty v @ fb_data b)), b1)" "fb_ok b1"
      "fb_data b1 = fb_encode ty v @ fb_data b"
      "allocation b1 \<le> allocation b + length (fb_encode ty v) + BFSFLEXBUF_DEFAULT_PAD"
    by auto
  have "allocation b1 + 40 * length ps < 2 ^ 32"
    using b1(4) Cons.prems(2) fb_sizeof_bounds(2) [of ty] by (simp add: BFSFLEXBUF_DEFAULT_PAD_def)
  from Cons.IH [OF b1(2) this] b1(1,3) show ?case
    by (auto simp: p stream_out_def addHeader_val_def comp_simps)
qed

lemma unstream_all_ok:
  assumes "fb_ok b" "fb_data b = concat (map (\<lambda>(ty, v). fb_encode ty v) ps) @ r"
    and "\<forall>(ty, v) \<in> set ps. fb_range ty v"
  shows "\<exists>b'. unstream_all (map fst ps) b = (Inr (map snd ps), b') \<and> fb_ok b' \<and> fb_data b' = r"
  using assms
proof (induction ps arbitrary: b)
  case Nil
  then show ?case by (auto simp: retE_def)
next
  case (Cons p ps)
  obtain ty v where p: "p = (ty, v)" by (cases p)
  let ?r = "concat (map (\<lambda>(ty, v). fb_encode ty v) ps) @ r"
  have d: "fb_data b = fb_encode ty v @ ?r" using Cons.prems(2) by (simp add: p)
  have "fb_encode ty v \<noteq> []" using fb_sizeof_bounds(1) [of ty] length_fb_encode [of ty v] by fastforce
  with d have "fb_data b \<noteq> []" by simp
  from fb.remH [OF Cons.prems(1) d this] obtain b1 where
    b1: "removeHeader (fb_sizeof ty) b = (Inr (fb_encode ty v), b1)" "fb_ok b1" "fb_data b1 = ?r"
    by auto
  have "fb_decode ty (fb_encode ty v) = v" using Cons.prems(3) by (auto simp: p intro: fb_decode_encode)
  with Cons.IH [OF b1(2,3)] Cons.prems(3) b1(1) show ?case
    by (auto simp: p stream_in_def removeHeader_val_def comp_simps)
qed

section \<open>Properties\<close>

text \<open>C25: Scalars of any mixture of types written with the streaming operator are read
  back, in reverse order, with their values, signed ones included, and the payload below
  them is untouched.\<close>

lemma stream_roundtrip:
  assumes "fb_ok b" "allocation b + 40 * length ps < 2 ^ 32" "\<forall>(ty, v) \<in> set ps. fb_range ty v"
  shows "\<exists>b'. seqE (stream_all ps) (unstream_all (map fst (rev ps))) b = (Inr (map snd (rev ps)), b') \<and>
    fb_ok b' \<and> fb_data b' = fb_data b"
proof -
  obtain b1 where b1: "stream_all ps b = (Inr (), b1)" "fb_ok b1"
    "fb_data b1 = concat (map (\<lambda>(ty, v). fb_encode ty v) (rev ps)) @ fb_data b"
    using stream_all_ok [OF assms(1,2)] by auto
  have "\<forall>(ty, v) \<in> set (rev ps). fb_range ty v" using assms(3) by simp
  from unstream_all_ok [OF b1(2,3) this] b1(1) show ?thesis
    by (auto simp: comp_simps)
qed

lemma stream_roundtrip_witness:
  "\<exists>b'. seqE (stream_all [(U64T, 77), (I32T, - 5), (BoolT, 1)])
      (unstream_all (map fst (rev [(U64T, 77 :: int), (I32T, - 5), (BoolT, 1)]))) flexbuf_new =
      (Inr (map snd (rev [(U64T, 77), (I32T, - 5), (BoolT, 1)])), b') \<and>
    fb_ok b' \<and> fb_data b' = fb_data flexbuf_new"
  by (rule stream_roundtrip) (simp_all add: fb_range_def fb_signed_def, simp add: flexbuf_new_def)

text \<open>Any sequence of headers pushed on a buffer is popped in reverse order, byte for byte,
  and leaves the payload as it was, whatever space the buffer had before.\<close>

lemma flexbuf_headers_lifo:
  assumes "fb_ok b" "allocation b + sum_list (map (\<lambda>d. length d + BFSFLEXBUF_DEFAULT_PAD) ds) < 2 ^ 32"
    and "fb_data b \<noteq> []"
  shows "\<exists>b'. seqE (push_all addHeader ds) (pop_all removeHeader (map length (rev ds))) b = (Inr (rev ds), b') \<and>
    fb_ok b' \<and> fb_data b' = fb_data b"
  using assms by (rule fb.headers_lifo)

definition demo_flexbuf :: flexbuf where
  "demo_flexbuf = \<lparr> buffer = Some [7, 8], allocation = 2, hlength = 0, blength = 2, tlength = 0,
     burnOnFree = True \<rparr>"

lemma flexbuf_headers_lifo_witness:
  "\<exists>b'. seqE (push_all addHeader [[1, 2], [3]]) (pop_all removeHeader (map length (rev [[1, 2], [3 :: byte]])))
      demo_flexbuf = (Inr (rev [[1, 2], [3]]), b') \<and> fb_ok b' \<and> fb_data b' = fb_data demo_flexbuf"
  by (rule flexbuf_headers_lifo)
    (simp_all add: demo_flexbuf_def fb_ok_def BFSFLEXBUF_DEFAULT_PAD_def fb_data_def chunk_def)

text \<open>C38: Resetting a buffer to a size whose new allocation is larger than the old one but
  whose data region and trailer are smaller than the old data writes past the new
  allocation: the old data is copied before the new length is in force.\<close>

lemma resetWithAlloc_overflow:
  assumes "fb_ok fb" "allocation fb < hpadsz + sz + tpadsz" "hpadsz + sz + tpadsz < 2 ^ 32"
    and "sz + tpadsz < blength fb"
  shows "fst (resetWithAlloc sz fill hpadsz tpadsz False fb) = Inl BfsOutOfBounds"
proof -
  obtain b where b: "buffer fb = Some b"
    using assms(1,4) by (auto simp: fb_ok_def split: option.splits)
  have "resizeAllocation hpadsz sz tpadsz fb = (Inl BfsOutOfBounds, fb)"
    using assms b by (simp add: resizeAllocation_def)
  moreover have "blength fb \<noteq> sz" using assms(4) by simp
  ultimately show ?thesis
    by (simp add: resetWithAlloc_def comp_simps)
qed

lemma resetWithAlloc_overflow_witness:
  "fst (resetWithAlloc 60 0 BFSFLEXBUF_DEFAULT_PAD BFSFLEXBUF_DEFAULT_PAD False
     (snd (setData (replicate 100 1) flexbuf_new))) = Inl BfsOutOfBounds"
proof -
  have sz: "hlength flexbuf_new + length (replicate 100 (1::byte)) + tlength flexbuf_new < 2 ^ 32"
    by (simp add: flexbuf_new_def)
  obtain fb where fb: "setData (replicate 100 1) flexbuf_new = (Inr (length (replicate 100 (1::byte))), fb)" "fb_ok fb"
    "fb_data fb = replicate 100 1" "allocation fb \<le> max (allocation flexbuf_new) (hlength flexbuf_new +
       length (replicate 100 (1::byte)) + tlength flexbuf_new)"
    using fb_ok_new sz by (rule setData_rep)
  then have "blength fb = 100" "allocation fb \<le> 100"
    using length_fb_data [OF fb(2)] by (simp_all add: flexbuf_new_def)
  then have "fst (resetWithAlloc 60 0 BFSFLEXBUF_DEFAULT_PAD BFSFLEXBUF_DEFAULT_PAD False fb) = Inl BfsOutOfBounds"
    using fb(2) by (intro resetWithAlloc_overflow) (simp_all add: BFSFLEXBUF_DEFAULT_PAD_def)
  with fb(1) show ?thesis by simp
qed

end
