(* ===== verification/Bfs_Base64.thy ===== *)
theory Bfs_Base64
  imports Bfs_FlexBuffer
begin

text \<open>
  The base-64 codec of \<^verbatim>\<open>src/src/bfs_utils/bfs_base64.cpp\<close>, used for the keys in
  the configuration.  Encoding pads a copy of the buffer to a multiple of three
  bytes and walks it; decoding checks the text, sizes the target buffer and fills
  it four characters at a time.
\<close>

unbundle bit_operations_syntax

section \<open>The codec\<close>

definition BASE64_ENCODING :: string where
  "BASE64_ENCODING = ''ABCDEFGHIJKLMNOPQRSTUVWXYZabcdefghijklmnopqrstuvwxyz0123456789+/''"

definition BASE64_LEGAL_CHARS :: string where
  "BASE64_LEGAL_CHARS = ''ABCDEFGHIJKLMNOPQRSTUVWXYZabcdefghijklmnopqrstuvwxyz0123456789+/=''"

text \<open>Reading \<^verbatim>\<open>std::string\<close> at its length gives the terminating NUL.\<close>

definition bfs_base64Encoding :: "nat \<Rightarrow> bfs_error + char" where
  "bfs_base64Encoding idx =
    (if idx > length BASE64_ENCODING then Inl bfsUtilError
     else Inr ((BASE64_ENCODING @ [CHR 0x00]) ! idx))"

definition bfs_fromB64Digit :: "char \<Rightarrow> bfs_error + nat" where
  "bfs_fromB64Digit ch =
    (let c = (of_char ch :: nat) in
     if 65 \<le> c \<and> c \<le> 90 then Inr (c - 65)
     else if 97 \<le> c \<and> c \<le> 122 then Inr ((c - 97) + 26)
     else if 48 \<le> c \<and> c \<le> 57 then Inr ((c - 48) + 52)
     else if ch = CHR ''+'' then Inr 62
     else if ch = CHR ''/'' then Inr 63
     else Inl bfsUtilError)"

text \<open>The encoding loop over the padded bytes; \<^verbatim>\<open>idx + 3 \<ge> length\<close> holds exactly in
  the last group.\<close>

fun bfs_toBase64_loop :: "nat \<Rightarrow> byte list \<Rightarrow> bfs_error + string" where
  "bfs_toBase64_loop padbytes (c0 # c1 # c2 # rest) =
     (let one = drop_bit 2 c0;
          two = push_bit 4 (c0 AND 3) OR drop_bit 4 c1;
          three = push_bit 2 (c1 AND 15) OR drop_bit 6 c2;
          four = c2 AND 63
      in bindS (bfs_base64Encoding (unat one)) (\<lambda>e1.
         bindS (bfs_base64Encoding (unat two)) (\<lambda>e2.
         bindS (if padbytes > 1 \<and> rest = [] then Inr (CHR ''='')
                else bfs_base64Encoding (unat three)) (\<lambda>e3.
         bindS (if padbytes > 0 \<and> rest = [] then Inr (CHR ''='')
                else bfs_base64Encoding (unat four)) (\<lambda>e4.
         bindS (bfs_toBase64_loop padbytes rest) (\<lambda>es. Inr (e1 # e2 # e3 # e4 # es)))))))"
| "bfs_toBase64_loop padbytes _ = Inr []"

text \<open>Zero bytes are appended until the length is a multiple of three; at most two
  are needed, so two rounds of the loop suffice.\<close>

primrec bfs_toBase64_pad :: "nat \<Rightarrow> nat \<Rightarrow> (flexbuf, nat) comp" where
  "bfs_toBase64_pad 0 padbytes = retE padbytes"
| "bfs_toBase64_pad (Suc n) padbytes =
     bindE (getE blength) (\<lambda>l.
       if l mod 3 \<noteq> 0 then seqE (addTrailer [0]) (bfs_toBase64_pad n (padbytes + 1))
       else retE padbytes)"

text \<open>The loop bound is the length as a signed 32-bit integer, so nothing is
  emitted for a buffer of 2 GiB or more.\<close>

definition bfs_toBase64 :: "flexbuf \<Rightarrow> bfs_error + string" where
  "bfs_toBase64 buf =
    (if blength buf = 0 then Inr ''''
     else fst (
       (seqE (flexbuf_assign buf)
       (bindE (bfs_toBase64_pad 2 0) (\<lambda>padbytes.
        bindE (getE fb_data) (\<lambda>dat.
        if length dat < 2 ^ 31 then liftS (bfs_toBase64_loop padbytes dat) else retE ''''))))
       flexbuf_new))"

text \<open>\<^verbatim>\<open>buf.getBuffer()[bidx] = (char) digit\<close>.\<close>

definition put_digit :: "nat \<Rightarrow> nat \<Rightarrow> (flexbuf, unit) comp" where
  "put_digit bidx digit =
     bindE (getE hlength) (\<lambda>h. fb_write (h + bidx) [word_of_nat digit])"

fun bfs_fromBase64_loop :: "string \<Rightarrow> nat \<Rightarrow> nat \<Rightarrow> (flexbuf, nat) comp" where
  "bfs_fromBase64_loop (e0 # e1 # e2 # e3 # rest) len bidx =
     bindE (liftS (bfs_fromB64Digit e0)) (\<lambda>d0.
     bindE (liftS (bfs_fromB64Digit e1)) (\<lambda>d1.
     seqE (put_digit bidx (push_bit 2 d0 OR drop_bit 4 d1))
     (bindE (if bidx + 1 < len then
               bindE (liftS (bfs_fromB64Digit e1)) (\<lambda>d1.
               bindE (liftS (bfs_fromB64Digit e2)) (\<lambda>d2.
               seqE (put_digit (bidx + 1) (push_bit 4 d1 OR drop_bit 2 d2))
               (retE (bidx + 2))))
             else retE (bidx + 1)) (\<lambda>b2.
      bindE (if b2 < len then
               bindE (liftS (bfs_fromB64Digit e2)) (\<lambda>d2.
               bindE (liftS (bfs_fromB64Digit e3)) (\<lambda>d3.
               seqE (put_digit b2 (push_bit 6 d2 OR d3))
               (retE (b2 + 1))))
             else retE b2) (\<lambda>b3.
      bfs_fromBase64_loop rest len b3)))))"
| "bfs_fromBase64_loop _ len bidx = getE blength"

definition bfs_fromBase64 :: "string \<Rightarrow> (flexbuf, nat) comp" where
  "bfs_fromBase64 encoded =
    (if length encoded = 0 then seqE (modE burn) (retE 0)
     else if length encoded mod 4 \<noteq> 0 then throwE bfsUtilError
     else if \<not> list_all (\<lambda>c. c \<in> set BASE64_LEGAL_CHARS) encoded then throwE bfsUtilError
     else
       (let len = (u32 (length encoded) div 4) * 3
              - of_bool (encoded ! (length encoded - 1) = CHR ''='')
              - of_bool (encoded ! (length encoded - 2) = CHR ''='')
        in seqE (resetWithAlloc len 0 BFSFLEXBUF_DEFAULT_PAD BFSFLEXBUF_DEFAULT_PAD False)
           (bfs_fromBase64_loop (take (u32 (length encoded)) encoded) len 0)))"

section \<open>Digits and groups\<close>

lemma byte_high_bit [simp]: "8 \<le> n \<Longrightarrow> \<not> bit (b :: byte) n"
  using bit_imp_le_length [of b n] by auto

lemma less8: "n < 8 \<longleftrightarrow> n \<in> {0, 1, 2, 3, 4, 5, 6, 7 :: nat}"
  by auto

lemma ge6: "6 \<le> n \<longleftrightarrow> n = 6 \<or> n = 7 \<or> 8 \<le> (n :: nat)"
  by auto

text \<open>The four 6-bit digits of three bytes.\<close>

definition dig1 :: "byte \<Rightarrow> nat" where
  "dig1 c0 = unat (drop_bit 2 c0)"

definition dig2 :: "byte \<Rightarrow> byte \<Rightarrow> nat" where
  "dig2 c0 c1 = unat (push_bit 4 (c0 AND 3) OR drop_bit 4 c1)"

definition dig3 :: "byte \<Rightarrow> byte \<Rightarrow> nat" where
  "dig3 c1 c2 = unat (push_bit 2 (c1 AND 15) OR drop_bit 6 c2)"

definition dig4 :: "byte \<Rightarrow> nat" where
  "dig4 c2 = unat (c2 AND 63)"

lemma undig0: "(word_of_nat (push_bit 2 (dig1 c0) OR drop_bit 4 (dig2 c0 c1)) :: byte) = c0"
  unfolding dig1_def dig2_def
  by (rule bit_word_eqI, auto simp: bit_simps less8) (simp_all add: numeral_2_eq_2 numeral_3_eq_3)

lemma undig1: "(word_of_nat (push_bit 4 (dig2 c0 c1) OR drop_bit 2 (dig3 c1 c2)) :: byte) = c1"
  unfolding dig2_def dig3_def by (rule bit_word_eqI) (auto simp: bit_simps less8)

lemma undig2: "(word_of_nat (push_bit 6 (dig3 c1 c2) OR dig4 c2) :: byte) = c2"
  unfolding dig3_def dig4_def by (rule bit_word_eqI) (auto simp: bit_simps less8)

lemma unat_less_64:
  assumes "\<And>n. 6 \<le> n \<Longrightarrow> \<not> bit (w :: byte) n"
  shows "unat w < 64"
proof -
  have "w = take_bit 6 w"
    by (rule bit_word_eqI) (use assms in \<open>auto simp: bit_take_bit_iff not_le [symmetric]\<close>)
  then have "unat w = take_bit 6 (unat w)"
    by (metis unsigned_take_bit_eq)
  then show ?thesis
    using take_bit_nat_less_exp [of 6 "unat w"] by simp
qed

lemma dig_less [simp]: "dig1 c0 < 64" "dig2 c0 c1 < 64" "dig3 c1 c2 < 64" "dig4 c2 < 64"
  unfolding dig1_def dig2_def dig3_def dig4_def
  by (rule unat_less_64; auto simp: bit_simps ge6)+

definition b64 :: "nat \<Rightarrow> char" where
  "b64 d = BASE64_ENCODING ! d"

lemma b64_all: "\<forall>d \<in> set [0..<64]. bfs_base64Encoding d = Inr (b64 d) \<and>
    bfs_fromB64Digit (b64 d) = Inr d \<and> b64 d \<in> set BASE64_LEGAL_CHARS \<and> b64 d \<noteq> CHR ''=''"
  by code_simp

lemma b64_simps [simp]:
  assumes "d < 64"
  shows "bfs_base64Encoding d = Inr (b64 d)" "bfs_fromB64Digit (b64 d) = Inr d"
    "b64 d \<in> set BASE64_LEGAL_CHARS" "b64 d \<noteq> CHR ''=''"
  using bspec [OF b64_all, of d] assms by simp_all

lemma eq_legal [simp]: "CHR ''='' \<in> set BASE64_LEGAL_CHARS"
  by (simp add: BASE64_LEGAL_CHARS_def)

text \<open>One group of the encoder's output.\<close>

definition b64_group :: "nat \<Rightarrow> byte \<Rightarrow> byte \<Rightarrow> byte \<Rightarrow> string" where
  "b64_group pad c0 c1 c2 =
    [b64 (dig1 c0), b64 (dig2 c0 c1),
     if pad > 1 then CHR ''='' else b64 (dig3 c1 c2),
     if pad > 0 then CHR ''='' else b64 (dig4 c2)]"

fun groups :: "nat \<Rightarrow> byte list \<Rightarrow> string" where
  "groups pad (c0 # c1 # c2 # rest) = b64_group (if rest = [] then pad else 0) c0 c1 c2 @ groups pad rest"
| "groups pad _ = []"

lemma toBase64_loop_step:
  "bfs_toBase64_loop pad (c0 # c1 # c2 # rest) =
    bindS (bfs_toBase64_loop pad rest) (\<lambda>es. Inr (b64_group (if rest = [] then pad else 0) c0 c1 c2 @ es))"
  unfolding bfs_toBase64_loop.simps Let_def dig1_def [symmetric] dig2_def [symmetric]
    dig3_def [symmetric] dig4_def [symmetric]
  by (simp add: b64_group_def)

lemma toBase64_loop_groups: "bfs_toBase64_loop pad bs = Inr (groups pad bs)"
  by (induction pad bs rule: groups.induct)
    (simp_all add: toBase64_loop_step del: bfs_toBase64_loop.simps(1))

lemma Suc3_mod [simp]: "Suc (Suc (Suc n)) mod 3 = n mod 3"
  by presburger

lemma plus3_div [simp]: "(3 + n) div 3 = Suc (n div 3 :: nat)"
  by simp

lemma length_groups: "length bs mod 3 = 0 \<Longrightarrow> length (groups pad bs) = length bs div 3 * 4"
  by (induction pad bs rule: groups.induct) (simp_all add: b64_group_def)

lemma groups_legal: "c \<in> set (groups pad bs) \<Longrightarrow> c \<in> set BASE64_LEGAL_CHARS"
  by (induction pad bs rule: groups.induct) (auto simp: b64_group_def split: if_splits)

text \<open>The last two characters tell the padding.\<close>

lemma groups_last:
  assumes "length bs mod 3 = 0" "bs \<noteq> []"
  shows "\<exists>pre d1 d2 d3 d4. groups pad bs = pre @ [b64 d1, b64 d2,
      if pad > 1 then CHR ''='' else b64 d3, if pad > 0 then CHR ''='' else b64 d4] \<and>
    d1 < 64 \<and> d2 < 64 \<and> d3 < 64 \<and> d4 < 64"
  using assms
proof (induction pad bs rule: groups.induct)
  case (1 pad c0 c1 c2 rest)
  show ?case
  proof (cases "rest = []")
    case True
    then show ?thesis
      by (intro exI [of _ "[]"] exI [of _ "dig1 c0"] exI [of _ "dig2 c0 c1"] exI [of _ "dig3 c1 c2"]
          exI [of _ "dig4 c2"]) (simp add: b64_group_def)
  next
    case False
    with 1 obtain pre d1 d2 d3 d4 where "groups pad rest = pre @ [b64 d1, b64 d2,
      if pad > 1 then CHR ''='' else b64 d3, if pad > 0 then CHR ''='' else b64 d4]"
      "d1 < 64" "d2 < 64" "d3 < 64" "d4 < 64"
      by auto
    with False show ?thesis
      by (intro exI [of _ "b64_group 0 c0 c1 c2 @ pre"] exI [of _ d1] exI [of _ d2] exI [of _ d3]
          exI [of _ d4]) simp
  qed
qed auto

section \<open>Decoding what was encoded\<close>

lemma put_digit_rep:
  assumes "fb_rep fb H D T" "i < length D"
  obtains fb' where "put_digit i v fb = (Inr (), fb')" "fb_rep fb' H (D[i := word_of_nat v]) T"
proof -
  define fb' where "fb' = fb \<lparr> buffer := Some (H @ D[i := word_of_nat v] @ T) \<rparr>"
  have "blit (length H + i) [word_of_nat v] (H @ D @ T) = H @ D[i := word_of_nat v] @ T"
    using assms(2) by (simp add: blit_def upd_conv_take_nth_drop)
  then have "put_digit i v fb = (Inr (), fb')"
    using assms by (auto simp: put_digit_def bindE_def getE_def fb_write_def fb_rep_def fb'_def)
  moreover have "fb_rep fb' H (D[i := word_of_nat v]) T"
    using assms by (auto simp: fb_rep_def fb'_def)
  ultimately show thesis by (rule that)
qed

lemma update_two:
  assumes "i + 1 < length D"
  shows "D[i := a, i + 1 := b] = take i D @ a # b # drop (i + 2) D"
proof -
  have "D = take i D @ D ! i # D ! Suc i # drop (i + 2) D"
    using assms by (simp add: Cons_nth_drop_Suc)
  moreover have "length (take i D) = i" using assms by simp
  ultimately show ?thesis
    by (metis list_update_append list_update_code(2,3) add.right_neutral diff_self_eq_0 le_add1
        less_irrefl plus_1_eq_Suc add.commute diff_add_inverse le_less not_less)
qed

lemma update_three:
  assumes "i + 2 < length D"
  shows "D[i := a, i + 1 := b, i + 2 := c] = take i D @ a # b # c # drop (i + 3) D"
proof -
  have "D[i := a, i + 1 := b] = take i D @ a # b # D ! (i + 2) # drop (i + 3) D"
    using assms update_two [of i D a b]
    by (simp add: Cons_nth_drop_Suc numeral_3_eq_3)
  then show ?thesis
    using assms by (simp add: list_update_append)
qed

text \<open>The writes of one group: three bytes, or as many as the padding leaves.\<close>

lemma decode_group:
  assumes rep: "fb_rep fb H D T" and len: "len = length D" "len = i + (3 - pad) + rst"
    and pad: "pad \<le> 2" "pad > 0 \<Longrightarrow> rst = 0"
  obtains fb' where
    "\<And>rest. bfs_fromBase64_loop (b64_group pad c0 c1 c2 @ rest) len i fb =
       bfs_fromBase64_loop rest len (i + (3 - pad)) fb'"
    "fb_rep fb' H (take i D @ take (3 - pad) [c0, c1, c2] @ drop (i + (3 - pad)) D) T"
proof -
  have i: "i < length D" using len pad(1) by simp
  obtain fb1 where 1: "put_digit i (push_bit 2 (dig1 c0) OR drop_bit 4 (dig2 c0 c1)) fb = (Inr (), fb1)"
    and rep1: "fb_rep fb1 H (D[i := c0]) T"
    using put_digit_rep [OF rep i] undig0 by metis
  consider "pad = 2" "rst = 0" | "pad = 1" "rst = 0" | "pad = 0" using pad by (cases "pad = 0") force+
  then show thesis
  proof cases
    case 1
    then show ?thesis
      using that [of fb1] \<open>put_digit i _ fb = _\<close> rep1 i len
      by (simp add: b64_group_def comp_simps upd_conv_take_nth_drop)
  next
    case 2
    then have i1: "i + 1 < length (D[i := c0])" using len by simp
    obtain fb2 where w2: "put_digit (i + 1) (push_bit 4 (dig2 c0 c1) OR drop_bit 2 (dig3 c1 c2)) fb1
        = (Inr (), fb2)" and rep2: "fb_rep fb2 H (D[i := c0, i + 1 := c1]) T"
      using put_digit_rep [OF rep1 i1] undig1 by metis
    have "D[i := c0, i + 1 := c1] = take i D @ [c0, c1] @ drop (i + 2) D"
      using update_two [of i D c0 c1] i1 by simp
    with that [of fb2] \<open>put_digit i _ fb = _\<close> w2 rep2 i len 2 show ?thesis
      by (simp add: b64_group_def comp_simps)
  next
    case 3
    then have i1: "i + 1 < length (D[i := c0])" and i2: "i + 2 < length (D[i := c0, i + 1 := c1])"
      using len by simp_all
    obtain fb2 where w2: "put_digit (i + 1) (push_bit 4 (dig2 c0 c1) OR drop_bit 2 (dig3 c1 c2)) fb1
        = (Inr (), fb2)" and rep2: "fb_rep fb2 H (D[i := c0, i + 1 := c1]) T"
      using put_digit_rep [OF rep1 i1] undig1 by metis
    obtain fb3 where w3: "put_digit (i + 2) (push_bit 6 (dig3 c1 c2) OR dig4 c2) fb2
        = (Inr (), fb3)" and rep3: "fb_rep fb3 H (D[i := c0, i + 1 := c1, i + 2 := c2]) T"
      using put_digit_rep [OF rep2 i2] undig2 by metis
    have "D[i := c0, i + 1 := c1, i + 2 := c2] = take i D @ [c0, c1, c2] @ drop (i + 3) D"
      using update_three [of i D c0 c1 c2] i2 by simp
    with that [of fb3] \<open>put_digit i _ fb = _\<close> w2 w3 rep3 i len 3 show ?thesis
      by (simp add: b64_group_def comp_simps numeral_3_eq_3)
  qed
qed

lemma decode_groups:
  assumes "length B mod 3 = 0" "fb_rep fb H D T" "length D = len" "len + pad = i + length B"
    "pad \<le> 2" "B = [] \<Longrightarrow> pad = 0"
  shows "\<exists>fb'. bfs_fromBase64_loop (groups pad B) len i fb = (Inr len, fb') \<and>
    fb_rep fb' H (take i D @ take (length B - pad) B) T"
  using assms
proof (induction pad B arbitrary: fb D i rule: groups.induct)
  case (1 pad c0 c1 c2 rest)
  let ?pad = "if rest = [] then pad else 0"
  have three: "3 \<le> length rest" if "rest \<noteq> []"
    using that 1(2) by (cases rest; cases "tl rest"; cases "tl (tl rest)") auto
  have len: "len = i + (3 - ?pad) + (length rest - (pad - ?pad))"
    using 1(4,5,6) three by auto
  obtain fb1 where step: "\<And>r. bfs_fromBase64_loop (b64_group ?pad c0 c1 c2 @ r) len i fb =
       bfs_fromBase64_loop r len (i + (3 - ?pad)) fb1"
    and rep1: "fb_rep fb1 H (take i D @ take (3 - ?pad) [c0, c1, c2] @ drop (i + (3 - ?pad)) D) T"
    by (rule decode_group [OF 1(3) 1(4) [symmetric] len, of c0 c1 c2]) (use 1(6) in auto)
  show ?case
  proof (cases "rest = []")
    case True
    with len rep1 step [of "[]"] 1(4,5,6) show ?thesis
      by (auto simp: getE_def fb_rep_def numeral_3_eq_3)
  next
    case False
    let ?D = "take i D @ [c0, c1, c2] @ drop (i + 3) D"
    have "length ?D = len" "len + pad = (i + 3) + length rest"
      using 1(4,5,6) three [OF False] by auto
    with 1(1) [of fb1 ?D "i + 3"] 1(2,6) rep1 False obtain fb' where
      "bfs_fromBase64_loop (groups pad rest) len (i + 3) fb1 = (Inr len, fb')"
      "fb_rep fb' H (take (i + 3) ?D @ take (length rest - pad) rest) T"
      by auto
    moreover have "take (i + 3) ?D = take i D @ [c0, c1, c2]"
      using 1(4,5,6) three [OF False] by simp
    moreover have "length (c0 # c1 # c2 # rest) - pad = Suc (Suc (Suc (length rest - pad)))"
      using three [OF False] 1(6) by simp
    then have "take (length (c0 # c1 # c2 # rest) - pad) (c0 # c1 # c2 # rest) =
        [c0, c1, c2] @ take (length rest - pad) rest"
      by (simp only: take_Suc_Cons append.simps)
    ultimately show ?thesis
      using step [of "groups pad rest"] False by (intro exI [of _ fb']) (simp del: take_Suc_Cons)
  qed
qed (auto simp: getE_def fb_rep_def)

section \<open>Encoding a buffer\<close>

lemma toBase64_pad_ok:
  assumes "fb_ok fb" "fb_data fb = d" "allocation fb + 3 * (1 + BFSFLEXBUF_DEFAULT_PAD) < 2 ^ 32"
  obtains fb' pad where "bfs_toBase64_pad 2 0 fb = (Inr pad, fb')" "fb_data fb' = d @ replicate pad 0"
    "pad \<le> 2" "(length d + pad) mod 3 = 0"
proof -
  have l: "blength fb = length d" using assms(1,2) length_fb_data by metis
  obtain fb1 where 1: "addTrailer [0] fb = (Inr (length (d @ [0])), fb1)" "fb_ok fb1"
      "fb_data fb1 = d @ [0]" "allocation fb1 \<le> allocation fb + 1 + BFSFLEXBUF_DEFAULT_PAD"
    using fb.addT [OF assms(1), of "[0]"] assms(2,3) by auto
  have l1: "blength fb1 = length d + 1" using 1(2,3) length_fb_data [of fb1] by simp
  obtain fb2 where 2: "addTrailer [0] fb1 = (Inr (length (d @ [0, 0])), fb2)" "fb_ok fb2"
      "fb_data fb2 = d @ [0, 0]"
    using fb.addT [OF 1(2), of "[0]"] 1(3,4) assms(3) by auto
  consider "length d mod 3 = 0" | "length d mod 3 = 1" | "length d mod 3 = 2" by fastforce
  then show thesis
  proof cases
    case 1
    then show ?thesis
      by (intro that [of 0 fb]) (use l assms in \<open>simp_all add: comp_simps numeral_2_eq_2\<close>)
  next
    case 2
    then have "Suc (length d) mod 3 = 2" "Suc (Suc (length d)) mod 3 = 0" by presburger+
    with 2 show ?thesis
      by (intro that [of 2 fb2])
        (use l l1 \<open>addTrailer [0] fb = _\<close> \<open>addTrailer [0] fb1 = _\<close> \<open>fb_data fb2 = _\<close> in
          \<open>simp_all add: comp_simps numeral_2_eq_2\<close>)
  next
    case 3
    then have "Suc (length d) mod 3 = 0" by presburger
    with 3 show ?thesis
      by (intro that [of 1 fb1])
        (use l l1 \<open>addTrailer [0] fb = _\<close> \<open>fb_data fb1 = _\<close> in
          \<open>simp_all add: comp_simps numeral_2_eq_2\<close>)
  qed
qed

lemma toBase64_eq:
  assumes ok: "fb_ok buf" and ne: "blength buf > 0" and sz: "blength buf + 128 < 2 ^ 31"
  obtains pad where "bfs_toBase64 buf = Inr (groups pad (fb_data buf @ replicate pad 0))"
    "pad \<le> 2" "(blength buf + pad) mod 3 = 0"
proof -
  let ?d = "fb_data buf"
  have d: "length ?d = blength buf" using ok by simp
  have "hlength flexbuf_new + length ?d + tlength flexbuf_new < 2 ^ 32"
    using sz d by (simp add: flexbuf_new_def)
  then obtain fb1 where a: "setData ?d flexbuf_new = (Inr (length ?d), fb1)" "fb_ok fb1"
    "fb_data fb1 = ?d" "allocation fb1 \<le> length ?d"
    using setData_rep [OF fb_ok_new, of ?d] by (auto simp: flexbuf_new_def)
  have "allocation fb1 + 3 * (1 + BFSFLEXBUF_DEFAULT_PAD) < 2 ^ 32"
    using a(4) d sz by (simp add: BFSFLEXBUF_DEFAULT_PAD_def)
  with a(2,3) obtain fb2 pad where b: "bfs_toBase64_pad 2 0 fb1 = (Inr pad, fb2)"
    "fb_data fb2 = ?d @ replicate pad 0" "pad \<le> 2" "(length ?d + pad) mod 3 = 0"
    by (rule toBase64_pad_ok)
  have "bfs_toBase64 buf = Inr (groups pad (?d @ replicate pad 0))"
    using ne a(1) b d sz
    by (simp add: bfs_toBase64_def flexbuf_assign_def comp_simps toBase64_loop_groups)
  with that b(3,4) d show thesis by simp
qed

section \<open>Properties\<close>

lemma groups_decode_len:
  assumes "length B mod 3 = 0" "B \<noteq> []" "pad \<le> 2"
  shows "length (groups pad B) div 4 * 3
      - of_bool (groups pad B ! (length (groups pad B) - 1) = CHR ''='')
      - of_bool (groups pad B ! (length (groups pad B) - 2) = CHR ''='') = length B - pad"
proof -
  obtain pre d1 d2 d3 d4 where g: "groups pad B = pre @ [b64 d1, b64 d2,
      if pad > 1 then CHR ''='' else b64 d3, if pad > 0 then CHR ''='' else b64 d4]"
    "d3 < 64" "d4 < 64"
    using groups_last [OF assms(1,2), of pad] by auto
  have "length (groups pad B) div 4 * 3 = length B"
    using length_groups [OF assms(1), of pad] assms(1) by (simp add: mod_0_imp_dvd)
  moreover have "groups pad B ! (length (groups pad B) - 1) = CHR ''='' \<longleftrightarrow> pad > 0"
    "groups pad B ! (length (groups pad B) - 2) = CHR ''='' \<longleftrightarrow> pad > 1"
    unfolding g(1) using g(2,3) by (simp_all add: nth_append)
  ultimately show ?thesis
    using assms(3) by (cases "pad = 0"; cases "pad = 1") simp_all
qed

text \<open>C24: Encoding any non-empty buffer and decoding the text into another buffer
  gives back the same bytes, and reports their number.  The target may hold stale
  data, provided it is not more than the decoded length plus the trailer padding.\<close>

lemma base64_roundtrip:
  assumes "fb_ok buf" "0 < blength buf" "blength buf + 128 < 2 ^ 31"
    and "fb_ok out" "blength out \<le> blength buf + BFSFLEXBUF_DEFAULT_PAD"
  shows "\<exists>s out'. bfs_toBase64 buf = Inr s \<and>
    bfs_fromBase64 s out = (Inr (blength buf), out') \<and> fb_ok out' \<and> fb_data out' = fb_data buf"
proof -
  let ?d = "fb_data buf"
  obtain pad where enc: "bfs_toBase64 buf = Inr (groups pad (?d @ replicate pad 0))"
    and pad: "pad \<le> 2" "(blength buf + pad) mod 3 = 0"
    using assms(1-3) by (rule toBase64_eq)
  define B where "B = ?d @ replicate pad 0"
  define s where "s = groups pad B"
  have B: "length B = blength buf + pad" "length B mod 3 = 0" "B \<noteq> []"
    using assms(1,2) pad length_fb_data [OF assms(1)] by (auto simp: B_def simp del: length_fb_data)
  have len_s: "length s = length B div 3 * 4" using B by (simp add: s_def length_groups)
  then have u: "u32 (length s) = length s"
    using B assms(3) pad div_times_less_eq_dividend [of "length B" 3] div_le_dividend [of "length B" 3]
    by (intro u32_id) simp
  have s4: "length s mod 4 = 0" "length s \<noteq> 0"
    using len_s B assms(2) by (simp_all add: mod_0_imp_dvd dvd_div_eq_0_iff)
  have legal: "list_all (\<lambda>c. c \<in> set BASE64_LEGAL_CHARS) s"
    by (auto simp: list_all_iff s_def dest: groups_legal)
  have n: "length s div 4 * 3 - of_bool (s ! (length s - 1) = CHR ''='')
      - of_bool (s ! (length s - 2) = CHR ''='') = blength buf"
    using groups_decode_len [OF B(2,3) pad(1)] B(1) by (simp add: s_def)
  obtain fb1 where r: "resetWithAlloc (blength buf) 0 BFSFLEXBUF_DEFAULT_PAD BFSFLEXBUF_DEFAULT_PAD
      False out = (Inr (blength buf), fb1)" and ok1: "fb_ok fb1"
    and d1: "fb_data fb1 = replicate (blength buf) 0"
    by (rule resetWithAlloc_rep [OF assms(4), of BFSFLEXBUF_DEFAULT_PAD "blength buf" BFSFLEXBUF_DEFAULT_PAD 0])
      (use assms(3,5) in \<open>simp_all add: BFSFLEXBUF_DEFAULT_PAD_def\<close>)
  obtain H T where rep1: "fb_rep fb1 H (replicate (blength buf) 0) T"
    using ok1 d1 fb_okE by metis
  obtain fb2 where l: "bfs_fromBase64_loop s (blength buf) 0 fb1 = (Inr (blength buf), fb2)"
    and rep2: "fb_rep fb2 H (take (length B - pad) B) T"
    using decode_groups [OF B(2) rep1, of "blength buf" pad 0] B pad by (auto simp: s_def)
  have "bfs_fromBase64 s out = (Inr (blength buf), fb2)"
    using s4 legal n r l by (simp add: bfs_fromBase64_def u Let_def seqE_Inr)
  moreover have "take (length B - pad) B = ?d" using assms(1) B(1) by (simp add: B_def)
  ultimately show ?thesis
    using enc fb_rep_ok [OF rep2] fb_rep_data [OF rep2] by (auto simp: s_def B_def)
qed

lemma base64_roundtrip_witness:
  "\<exists>s out'. bfs_toBase64 (snd (setData [102, 111] flexbuf_new)) = Inr s \<and>
    bfs_fromBase64 s flexbuf_new = (Inr 2, out') \<and> fb_data out' = [102, 111]"
proof -
  let ?buf = "snd (setData [102, 111] flexbuf_new)"
  have d: "fb_data ?buf = [102, 111]" and l: "blength ?buf = 2" and ok: "fb_ok ?buf"
    by (simp_all add: setData_def flexbuf_new_def resizeAllocation_def fb_write_def comp_simps
        do_alloc_def u32_def blit_def fb_data_def chunk_def fb_ok_def)
  have "blength flexbuf_new \<le> blength ?buf + BFSFLEXBUF_DEFAULT_PAD"
    by (simp add: flexbuf_new_def)
  with base64_roundtrip [OF ok, of flexbuf_new] d l show ?thesis by auto
qed

end
