(* ===== verification/Bfs_Crypto.thy ===== *)
theory Bfs_Crypto
  imports Bfs_FlexBuffer
begin

text \<open>
  Keys and security associations: \<^verbatim>\<open>src/src/bfs_utils/bfsCryptoKey.cpp\<close> and
  \<^verbatim>\<open>bfsSecAssociation.cpp\<close>, in the libgcrypt build.  The AES-GCM and HMAC primitives
  of libgcrypt are the parameter \<^verbatim>\<open>G\<close>; random bytes are an argument.  A cipher
  handle remembers what it last processed, because the tag is read or checked in a
  separate call.
\<close>

section \<open>Keys\<close>

text \<open>\<^const>\<open>None\<close> is any error code of the library call.\<close>

record gcrypt =
  gcry_encrypt :: "byte list \<Rightarrow> byte list \<Rightarrow> byte list \<Rightarrow> byte list \<Rightarrow> byte list option"
  gcry_decrypt :: "byte list \<Rightarrow> byte list \<Rightarrow> byte list \<Rightarrow> byte list \<Rightarrow> byte list option"
  gcry_tag :: "byte list \<Rightarrow> byte list \<Rightarrow> byte list \<Rightarrow> byte list \<Rightarrow> byte list"
  gcry_hmac :: "byte list \<Rightarrow> byte list \<Rightarrow> byte list"

record ckey =
  cipherInitialized :: bool
  keydat :: "byte list"
  blocksize :: nat
  ivlen :: nat
  maclen :: nat
  hmac_len :: nat
  handle :: "(byte list \<times> byte list \<times> byte list) option"

definition BFS_CRYPTO_DEFAULT_IV_LEN :: nat where
  "BFS_CRYPTO_DEFAULT_IV_LEN = 12"

text \<open>The sizes libgcrypt reports for AES-128 in GCM mode.\<close>

definition setKeyData :: "byte list \<Rightarrow> ckey" where
  "setKeyData key = \<lparr> cipherInitialized = True, keydat = key, blocksize = 16,
     ivlen = BFS_CRYPTO_DEFAULT_IV_LEN, maclen = 16, hmac_len = 32, handle = None \<rparr>"

definition destroyCipher :: "ckey \<Rightarrow> ckey" where
  "destroyCipher k = k \<lparr> keydat := [], cipherInitialized := False, handle := None \<rparr>"

text \<open>Both directions set a 16-byte key, the IV and the associated data, then
  process the input.\<close>

definition key_encryptData :: "gcrypt \<Rightarrow> byte list \<Rightarrow> byte list \<Rightarrow> byte list \<Rightarrow> (ckey, byte list) comp" where
  "key_encryptData G iv aad inp =
     bindE (getE id) (\<lambda>k.
     seqE (guardE (cipherInitialized k) bfsCryptoError)
     (seqE (guardE (16 \<le> length (keydat k)) BfsOutOfBounds)
     (case gcry_encrypt G (take 16 (keydat k)) iv aad inp of
        None \<Rightarrow> throwE bfsCryptoError
      | Some ct \<Rightarrow> seqE (modE (handle_update (\<lambda>_. Some (iv, aad, ct)))) (retE ct))))"

definition key_decryptData :: "gcrypt \<Rightarrow> byte list \<Rightarrow> byte list \<Rightarrow> byte list \<Rightarrow> (ckey, byte list) comp" where
  "key_decryptData G iv aad inp =
     bindE (getE id) (\<lambda>k.
     seqE (guardE (cipherInitialized k) bfsCryptoError)
     (seqE (guardE (16 \<le> length (keydat k)) BfsOutOfBounds)
     (case gcry_decrypt G (take 16 (keydat k)) iv aad inp of
        None \<Rightarrow> throwE bfsCryptoError
      | Some pt \<Rightarrow> seqE (modE (handle_update (\<lambda>_. Some (iv, aad, inp)))) (retE pt))))"

text \<open>\<^verbatim>\<open>gcry_cipher_gettag\<close> or \<^verbatim>\<open>gcry_cipher_checktag\<close> on the handle's state.\<close>

definition doMAC :: "gcrypt \<Rightarrow> byte list \<Rightarrow> bool \<Rightarrow> (ckey, byte list) comp" where
  "doMAC G macval verify =
     bindE (getE id) (\<lambda>k.
     seqE (guardE (cipherInitialized k) bfsCryptoError)
     (case handle k of
        None \<Rightarrow> throwE bfsCryptoError
      | Some (iv, aad, ct) \<Rightarrow>
          (let tag = gcry_tag G (take 16 (keydat k)) iv aad ct in
           if \<not> verify then retE tag
           else if tag = macval then retE macval else throwE bfsCryptoError)))"

definition key_hmacData :: "gcrypt \<Rightarrow> ckey \<Rightarrow> byte list \<Rightarrow> byte list \<Rightarrow> byte list" where
  "key_hmacData G k left right = take (hmac_len k) (gcry_hmac G (keydat k) (left @ right))"

section \<open>Security associations\<close>

text \<open>The association's key and IV buffer, and the buffers a call works on.\<close>

record sa_ctx =
  saKey :: "ckey option"
  sa_iv :: flexbuf
  sa_buf :: flexbuf
  sa_out :: flexbuf

definition on_iv :: "(flexbuf, 'a) comp \<Rightarrow> (sa_ctx, 'a) comp" where
  "on_iv m = (\<lambda>s. case m (sa_iv s) of (r, b) \<Rightarrow> (r, s \<lparr> sa_iv := b \<rparr>))"

definition on_buf :: "(flexbuf, 'a) comp \<Rightarrow> (sa_ctx, 'a) comp" where
  "on_buf m = (\<lambda>s. case m (sa_buf s) of (r, b) \<Rightarrow> (r, s \<lparr> sa_buf := b \<rparr>))"

definition on_out :: "(flexbuf, 'a) comp \<Rightarrow> (sa_ctx, 'a) comp" where
  "on_out m = (\<lambda>s. case m (sa_out s) of (r, b) \<Rightarrow> (r, s \<lparr> sa_out := b \<rparr>))"

definition on_key :: "(ckey, 'a) comp \<Rightarrow> (sa_ctx, 'a) comp" where
  "on_key m = (\<lambda>s. case saKey s of
     None \<Rightarrow> (Inl BfsBadPointer, s)
   | Some k \<Rightarrow> (case m k of (r, k') \<Rightarrow> (r, s \<lparr> saKey := Some k' \<rparr>)))"

definition setKey :: "ckey \<Rightarrow> sa_ctx \<Rightarrow> sa_ctx" where
  "setKey key s = s \<lparr> saKey := Some key \<rparr>"

definition addPKCS7Padding :: "nat \<Rightarrow> (flexbuf, nat) comp" where
  "addPKCS7Padding blksz =
     bindE (getE blength) (\<lambda>l.
       let padsz = (if l mod blksz = 0 then blksz else blksz - l mod blksz)
       in seqE (addTrailer (replicate padsz (word_of_nat padsz))) (retE padsz))"

text \<open>The last byte is read as a (signed) \<^verbatim>\<open>char\<close> and converted to \<^verbatim>\<open>size_t\<close>; on an
  empty buffer the index \<^verbatim>\<open>length - 1\<close> wraps.\<close>

definition removePKCS7Padding :: "nat \<Rightarrow> (flexbuf, nat) comp" where
  "removePKCS7Padding blksz =
     bindE (getE (\<lambda>fb. (hlength fb, blength fb))) (\<lambda>(h, l).
     bindE (fb_read (if l = 0 then h + (2 ^ 32 - 1) else h + l - 1) 1) (\<lambda>c.
       let b = unat (hd c); padsz = (if b < 128 then b else 2 ^ 64 - 256 + b)
       in seqE (guardE (\<not> padsz > blksz) bfsCryptoError)
          (seqE (removeTrailer padsz) (retE padsz))))"

text \<open>The tag of the handle's last operation becomes a trailer; the bytes of the
  uninitialised \<^verbatim>\<open>dummy\<close> trailer are overwritten by it.\<close>

definition macData :: "gcrypt \<Rightarrow> ((flexbuf, nat) comp \<Rightarrow> (sa_ctx, nat) comp) \<Rightarrow>
    ((flexbuf, unit) comp \<Rightarrow> (sa_ctx, unit) comp) \<Rightarrow> (sa_ctx, unit) comp" where
  "macData G on onu =
     bindE (getE saKey) (\<lambda>key. case key of
       None \<Rightarrow> throwE BfsBadPointer
     | Some k \<Rightarrow>
         bindE (on (getE blength)) (\<lambda>l.
         seqE (guardE (\<not> l \<le> blocksize k) bfsCryptoError)
         (let len = l - ivlen k in
          seqE (on (addTrailer (replicate (maclen k) 0)))
          (bindE (on (getE hlength)) (\<lambda>h.
           bindE (on_key (doMAC G [] False)) (\<lambda>tag.
           onu (fb_write (h + ivlen k + len) tag)))))))"

definition sa_key :: "(sa_ctx, ckey) comp" where
  "sa_key = bindE (getE saKey) (\<lambda>key. case key of None \<Rightarrow> throwE bfsCryptoError | Some k \<Rightarrow> retE k)"

definition random_iv :: "(nat \<Rightarrow> byte) \<Rightarrow> nat \<Rightarrow> (flexbuf, byte list) comp" where
  "random_iv rnd n =
     seqE (resetWithAlloc n 0 BFSFLEXBUF_DEFAULT_PAD BFSFLEXBUF_DEFAULT_PAD False)
     (seqE (fb_overwrite (map rnd [0..<n])) (getE fb_data))"

text \<open>In-place encryption: pad, encrypt, prepend the IV, append the tag.\<close>

definition encryptData :: "gcrypt \<Rightarrow> (nat \<Rightarrow> byte) \<Rightarrow> byte list \<Rightarrow> bool \<Rightarrow> (sa_ctx, unit) comp" where
  "encryptData G rnd aad mac =
     bindE sa_key (\<lambda>k.
     seqE (on_buf (addPKCS7Padding (blocksize k)))
     (bindE (on_iv (random_iv rnd (ivlen k))) (\<lambda>iv.
      bindE (on_buf (getE fb_data)) (\<lambda>pt.
      bindE (on_key (key_encryptData G iv aad pt)) (\<lambda>ct.
      seqE (on_buf (fb_overwrite ct))
      (seqE (on_buf (addHeader iv))
      (if mac then macData G on_buf on_buf else retE ())))))))"

text \<open>Encryption of a block whose IV and tag go to separate buffers; a \<^const>\<open>None\<close>
  stands for a \<^verbatim>\<open>NULL\<close> argument.\<close>

definition encryptData2 :: "gcrypt \<Rightarrow> (nat \<Rightarrow> byte) \<Rightarrow> byte list \<Rightarrow> bool \<Rightarrow> bool \<Rightarrow>
    (sa_ctx, byte list \<times> byte list) comp" where
  "encryptData2 G rnd aad ivp macp =
     bindE sa_key (\<lambda>k.
     seqE (guardE (ivp \<or> macp) bfsCryptoError)
     (seqE (guardE ivp BfsBadPointer)
     (let iv = map rnd [0..<ivlen k] in
      bindE (on_buf (getE fb_data)) (\<lambda>pt.
      bindE (on_key (key_encryptData G iv aad pt)) (\<lambda>ct.
      seqE (on_buf (fb_overwrite ct))
      (seqE (guardE macp BfsBadPointer)
      (bindE (on_key (doMAC G [] False)) (\<lambda>tag. retE (iv, tag)))))))))"

text \<open>Encryption into another buffer; the padding of the source is removed again.\<close>

definition encryptData_out :: "gcrypt \<Rightarrow> (nat \<Rightarrow> byte) \<Rightarrow> byte list \<Rightarrow> bool \<Rightarrow> (sa_ctx, unit) comp" where
  "encryptData_out G rnd aad mac =
     bindE sa_key (\<lambda>k.
     seqE (on_buf (addPKCS7Padding (blocksize k)))
     (bindE (on_buf (getE fb_data)) (\<lambda>pt.
      seqE (on_out (resetWithAlloc (length pt) 0 BFSFLEXBUF_DEFAULT_PAD BFSFLEXBUF_DEFAULT_PAD False))
      (bindE (on_iv (random_iv rnd (ivlen k))) (\<lambda>iv.
       bindE (on_key (key_encryptData G iv aad pt)) (\<lambda>ct.
       seqE (on_out (fb_overwrite ct))
       (seqE (on_out (addHeader iv))
       (seqE (on_buf (removePKCS7Padding (blocksize k)))
       (if mac then macData G on_out on_out else retE ())))))))))"

text \<open>In-place decryption: strip the tag and the IV, decrypt, check the tag, unpad.\<close>

definition decryptData :: "gcrypt \<Rightarrow> byte list \<Rightarrow> bool \<Rightarrow> (sa_ctx, byte list) comp" where
  "decryptData G aad mac =
     bindE sa_key (\<lambda>k.
     bindE (if mac then on_buf (removeTrailer (maclen k)) else retE []) (\<lambda>tag.
     seqE (on_iv (resetWithAlloc (ivlen k) 0 BFSFLEXBUF_DEFAULT_PAD BFSFLEXBUF_DEFAULT_PAD False))
     (bindE (on_buf (removeHeader (ivlen k))) (\<lambda>iv.
      seqE (on_iv (fb_overwrite iv))
      (bindE (on_buf (getE fb_data)) (\<lambda>ct.
       bindE (on_key (key_decryptData G iv aad ct)) (\<lambda>pt.
       seqE (on_buf (fb_overwrite pt))
       (seqE (if mac then seqE (on_key (doMAC G tag True)) (retE ()) else retE ())
       (seqE (on_buf (removePKCS7Padding (blocksize k)))
       (retE tag))))))))))"

definition decryptData2 :: "gcrypt \<Rightarrow> byte list \<Rightarrow> byte list option \<Rightarrow> byte list option \<Rightarrow>
    (sa_ctx, unit) comp" where
  "decryptData2 G aad ivp macp =
     bindE sa_key (\<lambda>k.
     seqE (guardE (ivp \<noteq> None \<or> macp \<noteq> None) bfsCryptoError)
     (case ivp of None \<Rightarrow> throwE BfsBadPointer | Some iv \<Rightarrow>
      bindE (on_buf (getE fb_data)) (\<lambda>ct.
      bindE (on_key (key_decryptData G iv aad ct)) (\<lambda>pt.
      seqE (on_buf (fb_overwrite pt))
      (case macp of None \<Rightarrow> throwE BfsBadPointer | Some tag \<Rightarrow>
       seqE (on_key (doMAC G tag True)) (retE ()))))))"

definition decryptData_out :: "gcrypt \<Rightarrow> byte list \<Rightarrow> bool \<Rightarrow> (sa_ctx, byte list) comp" where
  "decryptData_out G aad mac =
     bindE sa_key (\<lambda>k.
     bindE (if mac then on_buf (removeTrailer (maclen k)) else retE []) (\<lambda>tag.
     seqE (on_iv (resetWithAlloc (ivlen k) 0 BFSFLEXBUF_DEFAULT_PAD BFSFLEXBUF_DEFAULT_PAD False))
     (bindE (on_buf (removeHeader (ivlen k))) (\<lambda>iv.
      seqE (on_iv (fb_overwrite iv))
      (bindE (on_buf (getE fb_data)) (\<lambda>ct.
       seqE (on_out (resetWithAlloc (length ct) 0 BFSFLEXBUF_DEFAULT_PAD BFSFLEXBUF_DEFAULT_PAD False))
       (bindE (on_key (key_decryptData G iv aad ct)) (\<lambda>pt.
        seqE (on_out (fb_overwrite pt))
        (seqE (if mac then seqE (on_key (doMAC G tag True)) (retE ()) else retE ())
        (seqE (on_out (removePKCS7Padding (blocksize k)))
        (retE tag)))))))))))"

definition hmacData :: "gcrypt \<Rightarrow> ckey option \<Rightarrow> byte list \<Rightarrow> byte list \<Rightarrow> bfs_error + byte list" where
  "hmacData G key left right =
    (case key of None \<Rightarrow> Inl bfsCryptoError | Some k \<Rightarrow> Inr (key_hmacData G k left right))"

section \<open>Padding\<close>

lemma fb_write_at:
  assumes "fb_rep fb H (D1 @ Z @ D2) T" "length src = length Z"
  obtains fb' where "fb_write (length H + length D1) src fb = (Inr (), fb')"
    "fb_rep fb' H (D1 @ src @ D2) T" "allocation fb' = allocation fb"
proof -
  define fb' where "fb' = (if src = [] then fb else fb \<lparr> buffer := Some (H @ (D1 @ src @ D2) @ T) \<rparr>)"
  have "blit (length H + length D1) src (H @ (D1 @ Z @ D2) @ T) = H @ (D1 @ src @ D2) @ T"
    using assms(2) by (simp add: blit_def)
  then have "fb_write (length H + length D1) src fb = (Inr (), fb')"
    using assms fb_write_in [OF assms(1), of "length H + length D1" src]
    by (simp add: fb'_def fb_rep_def)
  moreover have "fb_rep fb' H (D1 @ src @ D2) T" "allocation fb' = allocation fb"
    using assms by (auto simp: fb_rep_def fb'_def)
  ultimately show thesis by (rule that)
qed

lemma addPKCS7Padding_ok:
  assumes ok: "fb_ok fb" and room: "allocation fb + 48 < 2 ^ 32"
  obtains fb' p where "addPKCS7Padding 16 fb = (Inr p, fb')" "fb_ok fb'"
    "fb_data fb' = fb_data fb @ replicate p (word_of_nat p)" "0 < p" "p \<le> 16"
    "(blength fb + p) mod 16 = 0" "allocation fb' \<le> allocation fb + 48"
proof -
  define p where "p = (if blength fb mod 16 = 0 then 16 else 16 - blength fb mod 16)"
  have p: "0 < p" "p \<le> 16" "(blength fb + p) mod 16 = 0"
    unfolding p_def by (auto simp: mod_less_divisor) presburger
  have "allocation fb + length (replicate p (word_of_nat p :: byte)) + BFSFLEXBUF_DEFAULT_PAD < 2 ^ 32"
    using room p(2) by (simp add: BFSFLEXBUF_DEFAULT_PAD_def)
  from fb.addT [OF ok this] obtain fb' where a:
    "addTrailer (replicate p (word_of_nat p)) fb =
       (Inr (length (fb_data fb @ replicate p (word_of_nat p :: byte))), fb')" "fb_ok fb'"
    "fb_data fb' = fb_data fb @ replicate p (word_of_nat p)"
    "allocation fb' \<le> allocation fb + p + BFSFLEXBUF_DEFAULT_PAD" by auto
  have "addPKCS7Padding 16 fb = (Inr p, fb')"
    using a(1) by (simp add: addPKCS7Padding_def comp_simps Let_def p_def [symmetric])
  from that [OF this a(2,3) p] a(4) p(2) show thesis
    by (simp add: BFSFLEXBUF_DEFAULT_PAD_def)
qed

lemma addPKCS7Padding_aligned:
  "addPKCS7Padding 16 fb = (Inr p, fb') \<Longrightarrow> 16 \<le> blength fb + p"
  by (auto simp: addPKCS7Padding_def bindE_eq_Inr seqE_eq_Inr getE_def retE_def Let_def split: if_splits)

lemma removePKCS7Padding_ok:
  assumes ok: "fb_ok fb" and d: "fb_data fb = d @ replicate p (word_of_nat p)" and p: "0 < p" "p \<le> 16"
  obtains fb' where "removePKCS7Padding 16 fb = (Inr p, fb')" "fb_ok fb'" "fb_data fb' = d"
    "allocation fb' = allocation fb"
proof -
  obtain H T where rep: "fb_rep fb H (d @ replicate p (word_of_nat p)) T"
    using ok d fb_okE by metis
  obtain m where m: "p = Suc m" using p by (cases p) auto
  have "replicate p (word_of_nat p :: byte) = replicate m (word_of_nat p) @ [word_of_nat p]"
    by (simp add: m replicate_append_same)
  then have read: "fb_read (hlength fb + blength fb - 1) 1 fb = (Inr [word_of_nat p], fb)"
    using rep m by (auto simp: fb_read_def fb_rep_def chunk_def)
  have l: "blength fb \<noteq> 0" using rep m by (simp add: fb_rep_def)
  have ne: "fb_data fb \<noteq> []" using d m by simp
  obtain fb' where "removeTrailer p fb = (Inr (replicate p (word_of_nat p)), fb')" "fb_ok fb'"
    "fb_data fb' = d" "allocation fb' = allocation fb"
    using fb.remT [OF ok d ne] by auto
  moreover have "unat (word_of_nat p :: byte) = p" using p by simp
  ultimately show thesis
    using that read l p by (simp add: removePKCS7Padding_def comp_simps Let_def)
qed

section \<open>What the library promises\<close>

text \<open>The documented behaviour of libgcrypt's GCM mode the code relies on: encryption
  succeeds, keeps the length and is undone by decryption under the same key, IV and
  associated data; tags are 16 bytes long.\<close>

definition gcm_ok :: "gcrypt \<Rightarrow> bool" where
  "gcm_ok G \<longleftrightarrow>
     (\<forall>k iv aad p. \<exists>c. gcry_encrypt G k iv aad p = Some c \<and> length c = length p \<and>
        gcry_decrypt G k iv aad c = Some p) \<and>
     (\<forall>k iv aad c. length (gcry_tag G k iv aad c) = 16)"

definition key_ok :: "ckey \<Rightarrow> bool" where
  "key_ok k \<longleftrightarrow> cipherInitialized k \<and> 16 \<le> length (keydat k) \<and>
     blocksize k = 16 \<and> ivlen k = 12 \<and> maclen k = 16"

lemma gcm_okE:
  assumes "gcm_ok G"
  obtains c where "gcry_encrypt G k iv aad p = Some c" "length c = length p"
    "gcry_decrypt G k iv aad c = Some p"
  using assms unfolding gcm_ok_def by blast

lemma key_ok_setKeyData: "16 \<le> length key \<Longrightarrow> key_ok (setKeyData key)"
  by (simp add: key_ok_def setKeyData_def BFS_CRYPTO_DEFAULT_IV_LEN_def)

lemma on_run [comp_simps]:
  "m (sa_buf s) = (r, b) \<Longrightarrow> on_buf m s = (r, s \<lparr> sa_buf := b \<rparr>)"
  "m (sa_iv s) = (r, b) \<Longrightarrow> on_iv m s = (r, s \<lparr> sa_iv := b \<rparr>)"
  "m (sa_out s) = (r, b) \<Longrightarrow> on_out m s = (r, s \<lparr> sa_out := b \<rparr>)"
  by (simp_all add: on_buf_def on_iv_def on_out_def)

lemma on_key_run [comp_simps]:
  "saKey s = Some k \<Longrightarrow> mk k = (r', k') \<Longrightarrow> on_key mk s = (r', s \<lparr> saKey := Some k' \<rparr>)"
  by (simp add: on_key_def)

lemma on_get [simp]:
  "on_buf (getE f) s = (Inr (f (sa_buf s)), s)" "on_iv (getE f) s = (Inr (f (sa_iv s)), s)"
  "on_out (getE f) s = (Inr (f (sa_out s)), s)"
  by (simp_all add: on_buf_def on_iv_def on_out_def getE_def)

lemma sa_key_run [comp_simps]: "saKey s = Some k \<Longrightarrow> sa_key s = (Inr k, s)"
  by (simp add: sa_key_def comp_simps)

lemma key_encrypt_run:
  assumes "key_ok k" "gcry_encrypt G (take 16 (keydat k)) iv aad inp = Some ct"
  shows "key_encryptData G iv aad inp k = (Inr ct, k \<lparr> handle := Some (iv, aad, ct) \<rparr>)"
  using assms by (simp add: key_encryptData_def key_ok_def comp_simps)

lemma key_decrypt_run:
  assumes "key_ok k" "gcry_decrypt G (take 16 (keydat k)) iv aad inp = Some pt"
  shows "key_decryptData G iv aad inp k = (Inr pt, k \<lparr> handle := Some (iv, aad, inp) \<rparr>)"
  using assms by (simp add: key_decryptData_def key_ok_def comp_simps)

lemma random_iv_ok:
  assumes "fb_ok fb" "blength fb \<le> 44"
  obtains fb' where "random_iv rnd 12 fb = (Inr (map rnd [0..<12]), fb')" "fb_ok fb'"
    "blength fb' = 12"
proof -
  obtain fb1 where r: "resetWithAlloc 12 0 BFSFLEXBUF_DEFAULT_PAD BFSFLEXBUF_DEFAULT_PAD False fb =
      (Inr 12, fb1)" "fb_ok fb1" "fb_data fb1 = replicate 12 0"
    by (rule resetWithAlloc_rep [OF assms(1), of BFSFLEXBUF_DEFAULT_PAD 12 BFSFLEXBUF_DEFAULT_PAD 0])
      (use assms(2) in \<open>simp_all add: BFSFLEXBUF_DEFAULT_PAD_def\<close>)
  obtain fb2 where o: "fb_overwrite (map rnd [0..<12]) fb1 = (Inr (), fb2)" "fb_ok fb2"
    "fb_data fb2 = map rnd [0..<12]"
    using fb.over [OF r(2), of "map rnd [0..<12]"] r(3) by auto
  have "blength fb2 = 12" using length_fb_data [OF o(2)] o(3) by simp
  with that [of fb2] r(1) o show thesis
    by (simp add: random_iv_def comp_simps)
qed

lemma macData_ok:
  assumes G: "gcm_ok G" and key: "saKey s = Some k" "key_ok k" "handle k = Some (iv, aad, ct)"
    and buf: "fb_ok (sa_buf s)" "16 < blength (sa_buf s)" "allocation (sa_buf s) + 48 < 2 ^ 32"
  obtains b where "macData G on_buf on_buf s = (Inr (), s \<lparr> sa_buf := b \<rparr>)" "fb_ok b"
    "fb_data b = fb_data (sa_buf s) @ gcry_tag G (take 16 (keydat k)) iv aad ct"
proof -
  let ?tag = "gcry_tag G (take 16 (keydat k)) iv aad ct" and ?D = "fb_data (sa_buf s)"
  have tag: "length ?tag = 16" using G by (simp add: gcm_ok_def)
  have room: "allocation (sa_buf s) + length (replicate 16 (0 :: byte)) + BFSFLEXBUF_DEFAULT_PAD < 2 ^ 32"
    using buf(3) by (simp add: BFSFLEXBUF_DEFAULT_PAD_def)
  obtain b1 where b1: "addTrailer (replicate 16 0) (sa_buf s) = (Inr (length (?D @ replicate 16 (0 :: byte))), b1)"
    "fb_ok b1" "fb_data b1 = ?D @ replicate 16 0"
    using fb.addT [OF buf(1) room] by auto
  obtain H T where rep1: "fb_rep b1 H (?D @ replicate 16 0 @ []) T"
    using fb_okE [OF b1(2)] b1(3) by (metis append_Nil2)
  have "length ?tag = length (replicate 16 (0 :: byte))" using tag by simp
  with rep1 obtain b where b: "fb_write (length H + length ?D) ?tag b1 = (Inr (), b)"
    "fb_rep b H (?D @ ?tag @ []) T"
    by (rule fb_write_at)
  have "hlength b1 + 12 + (blength (sa_buf s) - 12) = length H + length ?D"
    using rep1 buf(1,2) by (simp add: fb_rep_def)
  moreover have "doMAC G [] False k = (Inr ?tag, k)"
    using key by (simp add: doMAC_def comp_simps key_ok_def)
  ultimately have "macData G on_buf on_buf s = (Inr (), s \<lparr> sa_buf := b \<rparr>)"
    using key b1(1) b(1) buf(2) by (simp add: macData_def comp_simps key_ok_def Let_def)
  from that [OF this fb_rep_ok [OF b(2)]] fb_rep_data [OF b(2)] show thesis by simp
qed

text \<open>An encrypted message is the IV, the ciphertext of the padded data, and the tag.\<close>

lemma encryptData_ok:
  assumes G: "gcm_ok G" and key: "saKey s = Some k" "key_ok k"
    and iv: "fb_ok (sa_iv s)" "blength (sa_iv s) \<le> 44"
    and buf: "fb_ok (sa_buf s)" "allocation (sa_buf s) + 200 < 2 ^ 32"
  obtains s' p ct where "encryptData G rnd aad True s = (Inr (), s')" "fb_ok (sa_buf s')"
    "fb_data (sa_buf s') = map rnd [0..<12] @ ct @
       gcry_tag G (take 16 (keydat k)) (map rnd [0..<12]) aad ct"
    "gcry_decrypt G (take 16 (keydat k)) (map rnd [0..<12]) aad ct =
       Some (fb_data (sa_buf s) @ replicate p (word_of_nat p))" "0 < p" "p \<le> 16"
    "length ct = blength (sa_buf s) + p"
proof -
  let ?iv = "map rnd [0..<12]" and ?key = "take 16 (keydat k)"
  have "allocation (sa_buf s) + 48 < 2 ^ 32" using buf(2) by simp
  with buf(1) obtain b1 p where b1: "addPKCS7Padding 16 (sa_buf s) = (Inr p, b1)" "fb_ok b1"
    "fb_data b1 = fb_data (sa_buf s) @ replicate p (word_of_nat p)" "0 < p" "p \<le> 16"
    "allocation b1 \<le> allocation (sa_buf s) + 48"
    by (rule addPKCS7Padding_ok)
  obtain iv1 where iv1: "random_iv rnd 12 (sa_iv s) = (Inr ?iv, iv1)"
    using iv by (rule random_iv_ok)
  obtain ct where ct: "gcry_encrypt G ?key ?iv aad (fb_data b1) = Some ct"
    "length ct = length (fb_data b1)" "gcry_decrypt G ?key ?iv aad ct = Some (fb_data b1)"
    using G by (rule gcm_okE)
  let ?k = "k \<lparr> handle := Some (?iv, aad, ct) \<rparr>"
  have enc: "key_encryptData G ?iv aad (fb_data b1) k = (Inr ct, ?k)"
    using key(2) ct(1) by (rule key_encrypt_run)
  obtain b2 where b2: "fb_overwrite ct b1 = (Inr (), b2)" "fb_ok b2" "fb_data b2 = ct"
    "allocation b2 = allocation b1"
    using fb.over [OF b1(2) ct(2)] by auto
  have "allocation b2 + length ?iv + BFSFLEXBUF_DEFAULT_PAD < 2 ^ 32"
    using b1(6) b2(4) buf(2) by (simp add: BFSFLEXBUF_DEFAULT_PAD_def)
  from fb.addH [OF b2(2) this] obtain b3 where b3: "addHeader ?iv b2 = (Inr (length (?iv @ ct)), b3)"
    "fb_ok b3" "fb_data b3 = ?iv @ ct" "allocation b3 \<le> allocation b2 + 44"
    using b2(3) by (auto simp: BFSFLEXBUF_DEFAULT_PAD_def)
  define s3 where "s3 = s \<lparr> sa_iv := iv1, saKey := Some ?k, sa_buf := b3 \<rparr>"
  have len: "length ct = blength (sa_buf s) + p" using ct(2) b1(3) buf(1) by simp
  have l3: "blength b3 = 12 + length ct" using length_fb_data [OF b3(2)] b3(3) by simp
  have "16 < blength (sa_buf s3)"
    using l3 len b1(4) addPKCS7Padding_aligned [OF b1(1)] by (simp add: s3_def)
  moreover have "allocation (sa_buf s3) + 48 < 2 ^ 32"
    using b3(4) b2(4) b1(6) buf(2) by (simp add: s3_def)
  moreover have "saKey s3 = Some ?k" "key_ok ?k" "handle ?k = Some (?iv, aad, ct)" "fb_ok (sa_buf s3)"
    using key(2) b3(2) by (simp_all add: s3_def key_ok_def)
  ultimately obtain b4 where b4: "macData G on_buf on_buf s3 = (Inr (), s3 \<lparr> sa_buf := b4 \<rparr>)" "fb_ok b4"
    "fb_data b4 = fb_data (sa_buf s3) @ gcry_tag G (take 16 (keydat ?k)) ?iv aad ct"
    using macData_ok [OF G] by metis
  have "encryptData G rnd aad True s = (Inr (), s3 \<lparr> sa_buf := b4 \<rparr>)"
    using key b1(1) iv1 enc b2(1) b3(1) b4(1)
    by (simp add: encryptData_def comp_simps key_ok_def s3_def)
  from that [OF this _ _ _ b1(4,5) len] b4(2,3) b3(3) ct(3) b1(3) show thesis
    by (simp add: s3_def)
qed

text \<open>Decryption of a well-formed message.\<close>

lemma decryptData_ok:
  assumes key: "saKey s = Some k" "key_ok k"
    and iv: "fb_ok (sa_iv s)" "blength (sa_iv s) \<le> 44" "length iv0 = 12"
    and buf: "fb_ok (sa_buf s)" "fb_data (sa_buf s) = iv0 @ ct @ tag" "length tag = 16" "ct \<noteq> []"
    and dec: "gcry_decrypt G (take 16 (keydat k)) iv0 aad ct = Some (d @ replicate p (word_of_nat p))"
      "length ct = length d + p" "0 < p" "p \<le> 16"
    and tag: "tag = gcry_tag G (take 16 (keydat k)) iv0 aad ct"
  obtains s' where "decryptData G aad True s = (Inr tag, s')" "fb_ok (sa_buf s')"
    "fb_data (sa_buf s') = d"
proof -
  have "fb_data (sa_buf s) = (iv0 @ ct) @ tag" "fb_data (sa_buf s) \<noteq> []" using buf(2,4) by auto
  from fb.remT [OF buf(1) this] buf(3) obtain b1 where b1: "removeTrailer 16 (sa_buf s) = (Inr tag, b1)"
    "fb_ok b1" "fb_data b1 = iv0 @ ct" by auto
  obtain iv1 where iv1: "resetWithAlloc 12 0 BFSFLEXBUF_DEFAULT_PAD BFSFLEXBUF_DEFAULT_PAD False (sa_iv s) =
      (Inr 12, iv1)" "fb_ok iv1" "fb_data iv1 = replicate 12 0"
    by (rule resetWithAlloc_rep [OF iv(1), of BFSFLEXBUF_DEFAULT_PAD 12 BFSFLEXBUF_DEFAULT_PAD 0])
      (use iv(2) in \<open>simp_all add: BFSFLEXBUF_DEFAULT_PAD_def\<close>)
  have "fb_data b1 \<noteq> []" using b1(3) buf(4) by simp
  from fb.remH [OF b1(2,3) this] iv(3) obtain b2 where b2: "removeHeader 12 b1 = (Inr iv0, b2)"
    "fb_ok b2" "fb_data b2 = ct" by auto
  obtain iv2 where iv2: "fb_overwrite iv0 iv1 = (Inr (), iv2)"
    using fb.over [OF iv1(2), of iv0] iv1(3) iv(3) by auto
  let ?pt = "d @ replicate p (word_of_nat p)" and ?k = "k \<lparr> handle := Some (iv0, aad, ct) \<rparr>"
  have dk: "key_decryptData G iv0 aad ct k = (Inr ?pt, ?k)"
    using key(2) dec(1) by (rule key_decrypt_run)
  have "length ?pt = length (fb_data b2)" using dec(2) b2(3) by simp
  from fb.over [OF b2(2) this] obtain b3 where b3: "fb_overwrite ?pt b2 = (Inr (), b3)" "fb_ok b3"
    "fb_data b3 = ?pt" by auto
  have ver: "doMAC G tag True ?k = (Inr tag, ?k)"
    using key(2) by (simp add: doMAC_def comp_simps key_ok_def tag)
  obtain b4 where b4: "removePKCS7Padding 16 b3 = (Inr p, b4)" "fb_ok b4" "fb_data b4 = d"
    using b3(2,3) dec(3,4) by (rule removePKCS7Padding_ok)
  have "decryptData G aad True s =
      (Inr tag, s \<lparr> sa_buf := b4, sa_iv := iv2, saKey := Some ?k \<rparr>)"
    using key b1(1) iv1(1) b2(1) iv2 b2(3) dk b3(1) ver b4(1)
    by (simp add: decryptData_def comp_simps key_ok_def)
  from that [OF this] b4(2,3) show thesis by simp
qed

lemma on_eq:
  "on_buf m s = (r, s') \<longleftrightarrow> (\<exists>b. m (sa_buf s) = (r, b) \<and> s' = s \<lparr> sa_buf := b \<rparr>)"
  "on_iv m s = (r, s') \<longleftrightarrow> (\<exists>b. m (sa_iv s) = (r, b) \<and> s' = s \<lparr> sa_iv := b \<rparr>)"
  by (auto simp: on_buf_def on_iv_def split: prod.splits)

lemma on_key_eq_Inr:
  "on_key mk s = (Inr x, s') \<longleftrightarrow>
    (\<exists>k k'. saKey s = Some k \<and> mk k = (Inr x, k') \<and> s' = s \<lparr> saKey := Some k' \<rparr>)"
  by (auto simp: on_key_def split: prod.splits option.splits)

lemma sa_key_eq_Inr: "sa_key s = (Inr k, s') \<longleftrightarrow> saKey s = Some k \<and> s' = s"
  by (auto simp: sa_key_def bindE_eq_Inr getE_def retE_def throwE_def split: option.splits)

lemma key_decryptData_Inr:
  "key_decryptData G iv aad inp k = (Inr pt, k') \<Longrightarrow> k' = k \<lparr> handle := Some (iv, aad, inp) \<rparr>"
  by (auto simp: key_decryptData_def bindE_eq_Inr seqE_eq_Inr getE_def retE_def throwE_def modE_def
      guardE_run split: option.splits if_splits)

lemma doMAC_verify_Inr:
  "doMAC G tag True k = (Inr r, k') \<Longrightarrow> handle k = Some (iv, aad, ct) \<Longrightarrow>
    tag = gcry_tag G (take 16 (keydat k)) iv aad ct"
  by (auto simp: doMAC_def bindE_eq_Inr seqE_eq_Inr getE_def retE_def throwE_def
      guardE_run Let_def split: if_splits)

lemma removeTrailer_Inr:
  assumes "fb_ok b" "removeTrailer n b = (Inr t, b')"
  shows "fb_ok b' \<and> fb_data b = fb_data b' @ t \<and> length t = n"
proof -
  have n: "n \<le> length (fb_data b)" using assms fb.remT_short [of b n] by (cases "length (fb_data b) < n") auto
  have "buffer b \<noteq> None"
    using assms(2) by (auto simp: removeTrailer_def bindE_eq_Inr seqE_eq_Inr getE_def guardE_run split: if_splits)
  obtain H T where "fb_rep b H (fb_data b) T" using assms(1) by (rule fb_okE)
  from removeTrailer_rep [OF this \<open>buffer b \<noteq> None\<close> n] assms(2) n show ?thesis
    by (metis Pair_inject append_take_drop_id diff_diff_cancel fb_rep_data fb_rep_ok length_drop sum.inject(2))
qed

lemma removeHeader_Inr:
  assumes "fb_ok b" "removeHeader n b = (Inr t, b')"
  shows "fb_ok b' \<and> fb_data b = t @ fb_data b' \<and> length t = n"
proof -
  have n: "n \<le> length (fb_data b)" using assms fb.remH_short [of b n] by (cases "length (fb_data b) < n") auto
  have "buffer b \<noteq> None"
    using assms(2) by (auto simp: removeHeader_def bindE_eq_Inr seqE_eq_Inr getE_def guardE_run split: if_splits)
  obtain H T where "fb_rep b H (fb_data b) T" using assms(1) by (rule fb_okE)
  from removeHeader_rep [OF this \<open>buffer b \<noteq> None\<close> n] assms(2) n show ?thesis
    by (metis Pair_inject append_take_drop_id fb_rep_data fb_rep_ok length_take min.absorb2 sum.inject(2))
qed

text \<open>C19: Whatever the bytes, a message is accepted only if its tag is the one computed
  from its IV, ciphertext and the associated data.\<close>

lemma decryptData_tag:
  assumes ok: "fb_ok (sa_buf s)" and key: "saKey s = Some k" "key_ok k"
    and acc: "decryptData G aad True s = (Inr t, s')"
  shows "\<exists>iv ct. fb_data (sa_buf s) = iv @ ct @ t \<and> length iv = 12 \<and> length t = 16 \<and>
    t = gcry_tag G (take 16 (keydat k)) iv aad ct"
proof -
  have kk: "ivlen k = 12" "maclen k = 16" using key(2) by (simp_all add: key_ok_def)
  from acc obtain b1 iv b2 pt k1 r k2 where 1: "removeTrailer (maclen k) (sa_buf s) = (Inr t, b1)"
    and 2: "removeHeader (ivlen k) b1 = (Inr iv, b2)"
    and 3: "key_decryptData G iv aad (fb_data b2) k = (Inr pt, k1)"
    and 4: "doMAC G t True k1 = (Inr r, k2)"
    by (fastforce simp: decryptData_def bindE_eq_Inr seqE_eq_Inr on_eq on_key_eq_Inr sa_key_eq_Inr
        getE_def retE_def key(1))
  have ok1: "fb_ok b1" and d1: "fb_data (sa_buf s) = fb_data b1 @ t" and t: "length t = 16"
    using removeTrailer_Inr [OF ok 1] kk by auto
  have d2: "fb_data b1 = iv @ fb_data b2" and iv: "length iv = 12"
    using removeHeader_Inr [OF ok1 2] kk by auto
  have "handle k1 = Some (iv, aad, fb_data b2)" "keydat k1 = keydat k"
    using key_decryptData_Inr [OF 3] by simp_all
  with doMAC_verify_Inr [OF 4] d1 d2 t iv show ?thesis
    by (intro exI [of _ iv] exI [of _ "fb_data b2"]) simp
qed

text \<open>Block encryption keeps the length, and is undone with the returned IV and tag.\<close>

lemma encryptData2_ok:
  assumes G: "gcm_ok G" and key: "saKey s = Some k" "key_ok k" and buf: "fb_ok (sa_buf s)"
  obtains s' ct where
    "encryptData2 G rnd aad True True s =
      (Inr (map rnd [0..<12], gcry_tag G (take 16 (keydat k)) (map rnd [0..<12]) aad ct), s')"
    "fb_ok (sa_buf s')" "fb_data (sa_buf s') = ct" "length ct = blength (sa_buf s)"
    "gcry_decrypt G (take 16 (keydat k)) (map rnd [0..<12]) aad ct = Some (fb_data (sa_buf s))"
proof -
  let ?iv = "map rnd [0..<12]" and ?key = "take 16 (keydat k)"
  obtain ct where ct: "gcry_encrypt G ?key ?iv aad (fb_data (sa_buf s)) = Some ct"
    "length ct = length (fb_data (sa_buf s))" "gcry_decrypt G ?key ?iv aad ct = Some (fb_data (sa_buf s))"
    using G by (rule gcm_okE)
  let ?k = "k \<lparr> handle := Some (?iv, aad, ct) \<rparr>"
  have enc: "key_encryptData G ?iv aad (fb_data (sa_buf s)) k = (Inr ct, ?k)"
    using key(2) ct(1) by (rule key_encrypt_run)
  obtain b where b: "fb_overwrite ct (sa_buf s) = (Inr (), b)" "fb_ok b" "fb_data b = ct"
    using fb.over [OF buf ct(2)] by auto
  have "doMAC G [] False ?k = (Inr (gcry_tag G ?key ?iv aad ct), ?k)"
    using key(2) by (simp add: doMAC_def comp_simps key_ok_def)
  then have "encryptData2 G rnd aad True True s =
      (Inr (?iv, gcry_tag G ?key ?iv aad ct), s \<lparr> saKey := Some ?k, sa_buf := b \<rparr>)"
    using key enc b(1) by (simp add: encryptData2_def comp_simps key_ok_def Let_def)
  from that [OF this] b(2,3) ct(2,3) buf show thesis by simp
qed

lemma decryptData2_ok:
  assumes key: "saKey s = Some k" "key_ok k" and buf: "fb_ok (sa_buf s)"
    and dec: "gcry_decrypt G (take 16 (keydat k)) iv aad (fb_data (sa_buf s)) = Some d"
      "length d = blength (sa_buf s)"
  shows "\<exists>s'. fst (decryptData2 G aad (Some iv) (Some tag) s) =
      (if tag = gcry_tag G (take 16 (keydat k)) iv aad (fb_data (sa_buf s)) then Inr () else Inl bfsCryptoError) \<and>
      s' = snd (decryptData2 G aad (Some iv) (Some tag) s) \<and> fb_ok (sa_buf s') \<and> fb_data (sa_buf s') = d"
proof -
  let ?k = "k \<lparr> handle := Some (iv, aad, fb_data (sa_buf s)) \<rparr>"
  have dk: "key_decryptData G iv aad (fb_data (sa_buf s)) k = (Inr d, ?k)"
    using key(2) dec(1) by (rule key_decrypt_run)
  obtain b where b: "fb_overwrite d (sa_buf s) = (Inr (), b)" "fb_ok b" "fb_data b = d"
    using fb.over [OF buf, of d] dec(2) buf by auto
  have mac: "doMAC G tag True ?k =
      (if tag = gcry_tag G (take 16 (keydat k)) iv aad (fb_data (sa_buf s)) then Inr tag else Inl bfsCryptoError, ?k)"
    using key(2) by (auto simp: doMAC_def comp_simps key_ok_def)
  show ?thesis
    using key dk b mac
    by (cases "tag = gcry_tag G (take 16 (keydat k)) iv aad (fb_data (sa_buf s))")
      (simp_all add: decryptData2_def comp_simps)
qed

section \<open>Properties\<close>

text \<open>C18: What one association encrypts, another association with the same key and
  associated data decrypts: the receiver obtains exactly the sender's bytes, for
  every IV drawn, every message length and every layout of the buffers.\<close>

lemma sa_encrypt_decrypt:
  assumes "gcm_ok G" "saKey s = Some k" "key_ok k" "saKey r = Some k'" "key_ok k'"
    and "take 16 (keydat k') = take 16 (keydat k)"
    and "fb_ok (sa_iv s)" "blength (sa_iv s) \<le> 44" "fb_ok (sa_iv r)" "blength (sa_iv r) \<le> 44"
    and "fb_ok (sa_buf s)" "allocation (sa_buf s) + 200 < 2 ^ 32"
  shows "\<exists>s' r' tag. encryptData G rnd aad True s = (Inr (), s') \<and>
    decryptData G aad True (r \<lparr> sa_buf := sa_buf s' \<rparr>) = (Inr tag, r') \<and>
    fb_data (sa_buf r') = fb_data (sa_buf s)"
proof -
  obtain s' p ct where e: "encryptData G rnd aad True s = (Inr (), s')" "fb_ok (sa_buf s')"
    "fb_data (sa_buf s') = map rnd [0..<12] @ ct @
       gcry_tag G (take 16 (keydat k)) (map rnd [0..<12]) aad ct"
    "gcry_decrypt G (take 16 (keydat k)) (map rnd [0..<12]) aad ct =
       Some (fb_data (sa_buf s) @ replicate p (word_of_nat p))" "0 < p" "p \<le> 16"
    "length ct = blength (sa_buf s) + p"
    using assms(1-3,7,8,11,12) by (rule encryptData_ok)
  let ?r = "r \<lparr> sa_buf := sa_buf s' \<rparr>"
  have tag: "length (gcry_tag G (take 16 (keydat k)) (map rnd [0..<12]) aad ct) = 16"
    using assms(1) by (simp add: gcm_ok_def)
  have len: "length ct = length (fb_data (sa_buf s)) + p" and "ct \<noteq> []"
    using e(5,7) assms(11) by auto
  obtain r' where "decryptData G aad True ?r =
      (Inr (gcry_tag G (take 16 (keydat k)) (map rnd [0..<12]) aad ct), r')"
    "fb_data (sa_buf r') = fb_data (sa_buf s)"
    by (rule decryptData_ok [of ?r k' "map rnd [0..<12]" ct _ G aad "fb_data (sa_buf s)" p])
      (use assms(4-6,9,10) e tag len \<open>ct \<noteq> []\<close> in \<open>simp_all\<close>)
  with e(1) show ?thesis by blast
qed

definition demo_gcrypt :: gcrypt where
  "demo_gcrypt = \<lparr> gcry_encrypt = (\<lambda>k iv aad d. Some d), gcry_decrypt = (\<lambda>k iv aad d. Some d),
     gcry_tag = (\<lambda>k iv aad d. replicate 16 0), gcry_hmac = (\<lambda>k d. replicate 32 0) \<rparr>"

definition demo_sa :: sa_ctx where
  "demo_sa = \<lparr> saKey = Some (setKeyData (replicate 16 1)), sa_iv = flexbuf_new, sa_buf = flexbuf_new,
     sa_out = flexbuf_new \<rparr>"

lemma demo_sa_ok:
  "gcm_ok demo_gcrypt" "saKey demo_sa = Some (setKeyData (replicate 16 1))"
  "key_ok (setKeyData (replicate 16 1))"
  by (simp_all add: gcm_ok_def demo_gcrypt_def demo_sa_def key_ok_setKeyData)

lemma sa_encrypt_decrypt_witness:
  "\<exists>s' r' tag. encryptData demo_gcrypt (\<lambda>_. 9) [1] True demo_sa = (Inr (), s') \<and>
    decryptData demo_gcrypt [1] True (demo_sa \<lparr> sa_buf := sa_buf s' \<rparr>) = (Inr tag, r') \<and>
    fb_data (sa_buf r') = fb_data (sa_buf demo_sa)"
  by (rule sa_encrypt_decrypt [OF demo_sa_ok demo_sa_ok(2,3)])
    (simp_all add: demo_sa_def, simp_all add: flexbuf_new_def)

text \<open>A message with an empty payload: one block of padding.\<close>

definition demo_msg :: flexbuf where
  "demo_msg = \<lparr> buffer = Some (replicate 12 0 @ replicate 16 16 @ replicate 16 0), allocation = 44,
     hlength = 0, blength = 44, tlength = 0, burnOnFree = True \<rparr>"

lemma decryptData_tag_witness:
  "\<exists>t iv ct. fb_data (sa_buf (demo_sa \<lparr> sa_buf := demo_msg \<rparr>)) = iv @ ct @ t \<and> length iv = 12 \<and> length t = 16 \<and>
    t = gcry_tag demo_gcrypt (take 16 (keydat (setKeyData (replicate 16 1)))) iv [1] ct"
proof -
  let ?s = "demo_sa \<lparr> sa_buf := demo_msg \<rparr>"
  have ok: "fb_ok (sa_buf ?s)" by (simp add: fb_ok_def demo_msg_def)
  have key: "saKey ?s = Some (setKeyData (replicate 16 1))" by (simp add: demo_sa_def)
  have data: "fb_data (sa_buf ?s) = replicate 12 0 @ replicate 16 16 @ replicate 16 0"
    by (simp add: fb_data_def demo_msg_def chunk_def)
  have iv: "fb_ok (sa_iv ?s)" "blength (sa_iv ?s) \<le> 44"
    by (simp_all add: demo_sa_def, simp add: flexbuf_new_def)
  obtain r where "decryptData demo_gcrypt [1] True ?s = (Inr (replicate 16 0), r)"
    by (rule decryptData_ok [OF key demo_sa_ok(3) iv _ ok data, of demo_gcrypt "[1]" "[]" 16])
      (simp_all add: demo_gcrypt_def)
  from decryptData_tag [OF ok key demo_sa_ok(3) this] show ?thesis by blast
qed

end
