(* ===== verification/Bfs_Cache.thy ===== *)
theory Bfs_Cache
  imports Bfs_Prelude
begin

text \<open>
  The object cache of \<^verbatim>\<open>src/src/bfs_utils/bfs_cache.cpp\<close>: a doubly linked ring of
  entries, evicted from the front, beside a map from keys to entries.  The ring is
  modelled at the level of its pointers: entries live in an address map, and the
  fields \<^verbatim>\<open>table\<close>, \<^verbatim>\<open>table_end\<close>, \<^verbatim>\<open>next\<close> and \<^verbatim>\<open>prev\<close> hold addresses.  The code's two maps, one
  per key type, are one map on the tagged keys.  Executions are sequential, so the mutexes
  of the cache and of its objects are not part of the state.
\<close>

section \<open>The cache\<close>

datatype cache_key = intCacheKey nat | stringCacheKey string

record 'v cacheTableValue =
  ckey_of :: "cache_key option"
  cage :: int
  cvalue :: 'v
  nextp :: "nat option"
  prevp :: "nat option"

record 'v bfs_cache =
  maxsize :: int
  csize :: int
  vclock :: int
  accesses :: int
  hits :: int
  table :: "nat option"
  table_end :: "nat option"
  table_map :: "cache_key \<Rightarrow> nat option"
  cells :: "nat \<Rightarrow> 'v cacheTableValue option"
  fresh :: nat

definition bfs_cache_new :: "int \<Rightarrow> 'v bfs_cache" where
  "bfs_cache_new maxsz = \<lparr> maxsize = maxsz, csize = 0, vclock = 0, accesses = 0, hits = 0,
     table = None, table_end = None, table_map = (\<lambda>_. None), cells = (\<lambda>_. None), fresh = 0 \<rparr>"

definition set_max_sz :: "int \<Rightarrow> 'v bfs_cache \<Rightarrow> 'v bfs_cache" where
  "set_max_sz s c = c \<lparr> maxsize := s \<rparr>"

text \<open>Reading and writing an entry through a pointer.  A key that was deleted is
  \<^const>\<open>None\<close>; its use is the use of a freed object.\<close>

definition deref :: "nat option \<Rightarrow> ('v bfs_cache, 'v cacheTableValue) comp" where
  "deref p = bindE (getE cells) (\<lambda>h. case p of
     None \<Rightarrow> throwE BfsBadPointer
   | Some a \<Rightarrow> (case h a of None \<Rightarrow> throwE BfsBadPointer | Some n \<Rightarrow> retE n))"

definition assign_cell :: "nat option \<Rightarrow> ('v cacheTableValue \<Rightarrow> 'v cacheTableValue) \<Rightarrow>
    ('v bfs_cache, unit) comp" where
  "assign_cell p f = bindE (deref p) (\<lambda>n.
     modE (\<lambda>c. c \<lparr> cells := (cells c)(the p \<mapsto> f n) \<rparr>))"

definition key_at :: "nat option \<Rightarrow> ('v bfs_cache, cache_key) comp" where
  "key_at p = bindE (deref p) (\<lambda>n. case ckey_of n of
     None \<Rightarrow> throwE BfsBadPointer | Some k \<Rightarrow> retE k)"

definition setAge :: "nat option \<Rightarrow> int \<Rightarrow> ('v bfs_cache, unit) comp" where
  "setAge p ag = seqE (key_at p) (assign_cell p (\<lambda>n. n \<lparr> cage := ag \<rparr>))"

text \<open>The \<^verbatim>\<open>dynamic_cast\<close> to the key class selected by \<^verbatim>\<open>key_type\<close>, whose result is
  used without a test.\<close>

definition key_cast :: "cache_key \<Rightarrow> int \<Rightarrow> ('v bfs_cache, unit) comp" where
  "key_cast k key_type =
     guardE (case k of intCacheKey _ \<Rightarrow> key_type = 1 | stringCacheKey _ \<Rightarrow> key_type \<noteq> 1) BfsBadPointer"

definition cache_find :: "cache_key \<Rightarrow> int \<Rightarrow> ('v bfs_cache, nat option) comp" where
  "cache_find key key_type =
     seqE (modE (\<lambda>c. c \<lparr> accesses := accesses c + 1 \<rparr>))
     (bindE (getE (\<lambda>c. table c = None \<or> table_end c = None)) (\<lambda>empty.
      if empty then retE None
      else seqE (key_cast key key_type)
        (bindE (getE (\<lambda>c. table_map c key)) (\<lambda>p.
         if p \<noteq> None then seqE (modE (\<lambda>c. c \<lparr> hits := hits c + 1 \<rparr>)) (retE p)
         else retE None))))"

definition relink :: "nat option \<Rightarrow> ('v bfs_cache, unit) comp" where
  "relink p =
     seqE (bindE (deref p) (\<lambda>n. if prevp n \<noteq> None then assign_cell (prevp n) (\<lambda>m. m \<lparr> nextp := nextp n \<rparr>)
           else retE ()))
     (bindE (deref p) (\<lambda>n. if nextp n \<noteq> None then assign_cell (nextp n) (\<lambda>m. m \<lparr> prevp := prevp n \<rparr>)
      else retE ()))"

definition cache_remove :: "nat option \<Rightarrow> int \<Rightarrow> ('v bfs_cache, nat option) comp" where
  "cache_remove p key_type =
     bindE (getE (\<lambda>c. (table c, table_end c))) (\<lambda>(t, e).
     seqE (guardE (p \<noteq> None \<and> t \<noteq> None \<and> e \<noteq> None) bfsUtilError)
     (bindE (key_at p) (\<lambda>k.
      seqE (key_cast k key_type)
      (bindE (getE (\<lambda>c. table_map c k)) (\<lambda>entry.
       seqE (guardE (entry \<noteq> None) BfsAbort)
       (seqE (modE (\<lambda>c. c \<lparr> table_map := (table_map c)(k := None) \<rparr>))
       (seqE (assign_cell p (\<lambda>n. n \<lparr> ckey_of := None \<rparr>))
       (bindE (getE csize) (\<lambda>sz.
        seqE (if sz = 1 then modE (\<lambda>c. c \<lparr> table := None, table_end := None \<rparr>)
              else
                seqE (if p = t then bindE (deref t) (\<lambda>n. modE (\<lambda>c. c \<lparr> table := nextp n \<rparr>))
                      else if p = e then bindE (deref e) (\<lambda>n. modE (\<lambda>c. c \<lparr> table_end := prevp n \<rparr>))
                      else retE ())
                (relink p))
        (seqE (modE (\<lambda>c. c \<lparr> csize := csize c - 1 \<rparr>))
        (retE p)))))))))))"

text \<open>The two ways \<^verbatim>\<open>insertCache\<close> links an entry at the back of the ring.\<close>

definition link_back :: "nat \<Rightarrow> ('v bfs_cache, unit) comp" where
  "link_back a =
     bindE (getE (\<lambda>c. (table c, table_end c))) (\<lambda>(t, e).
     seqE (assign_cell (Some a) (\<lambda>n. n \<lparr> prevp := e, nextp := t \<rparr>))
     (seqE (assign_cell e (\<lambda>n. n \<lparr> nextp := Some a \<rparr>))
     (modE (\<lambda>c. c \<lparr> table_end := Some a \<rparr>))))"

definition add_new :: "cache_key \<Rightarrow> int \<Rightarrow> 'v \<Rightarrow> ('v bfs_cache, unit) comp" where
  "add_new key key_type val =
     bindE (getE (\<lambda>c. (fresh c, vclock c, table c, table_end c))) (\<lambda>(a, clk, t, e).
     seqE (modE (\<lambda>c. c \<lparr> cells := (cells c)(a \<mapsto>
             \<lparr> ckey_of = Some key, cage = clk, cvalue = val, nextp = None, prevp = None \<rparr>), fresh := a + 1 \<rparr>))
     (seqE (if t = None \<and> e = None then
              seqE (modE (\<lambda>c. c \<lparr> table := Some a, table_end := Some a \<rparr>))
              (assign_cell (Some a) (\<lambda>n. n \<lparr> prevp := Some a, nextp := Some a \<rparr>))
            else if t \<noteq> None \<and> e \<noteq> None then link_back a
            else throwE BfsAbort)
     (seqE (key_cast key key_type)
     (modE (\<lambda>c. c \<lparr> table_map := (table_map c)(key \<mapsto> a), csize := csize c + 1 \<rparr>)))))"

definition insert_new :: "cache_key \<Rightarrow> int \<Rightarrow> 'v \<Rightarrow> ('v bfs_cache, 'v) comp" where
  "insert_new key key_type val =
     bindE (getE (\<lambda>c. csize c \<ge> maxsize c)) (\<lambda>full.
     bindE (if full then
              bindE (getE (\<lambda>c. (table c, table_end c))) (\<lambda>(t, e).
              seqE (guardE (t \<noteq> None \<and> e \<noteq> None) bfsUtilError)
              (seqE (key_at t)
              (bindE (deref t) (\<lambda>n.
               seqE (cache_remove t key_type) (retE (cvalue n))))))
            else retE val) (\<lambda>ret.
     seqE (add_new key key_type val) (retE ret)))"

text \<open>Overwriting the value of an entry, returning the old one, and moving it to the back.\<close>

definition replace_value :: "nat option \<Rightarrow> cache_key \<Rightarrow> int \<Rightarrow> 'v \<Rightarrow> ('v bfs_cache, 'v) comp" where
  "replace_value p key key_type val =
     bindE (getE vclock) (\<lambda>clk.
     seqE (setAge p clk)
     (bindE (deref p) (\<lambda>n.
      if val \<noteq> cvalue n then
        seqE (assign_cell p (\<lambda>n. n \<lparr> cvalue := val \<rparr>))
        (seqE (key_cast key key_type)
        (seqE (modE (\<lambda>c. c \<lparr> table_map := (table_map c)(key := p) \<rparr>))
        (retE (cvalue n))))
      else retE val)))"

definition move_to_back :: "nat option \<Rightarrow> ('v bfs_cache, unit) comp" where
  "move_to_back p =
     bindE (getE (\<lambda>c. (table c, table_end c, csize c))) (\<lambda>(t, e, sz).
     seqE (guardE (t \<noteq> None \<and> e \<noteq> None) bfsUtilError)
     (if sz > 1 \<and> p \<noteq> e then
        seqE (if p = t then bindE (deref t) (\<lambda>n. modE (\<lambda>c. c \<lparr> table := nextp n \<rparr>)) else retE ())
        (seqE (relink p)
        (link_back (the p)))
      else retE ()))"

definition update_entry :: "nat option \<Rightarrow> cache_key \<Rightarrow> int \<Rightarrow> 'v \<Rightarrow> ('v bfs_cache, 'v) comp" where
  "update_entry p key key_type val =
     bindE (replace_value p key key_type val) (\<lambda>ret.
     seqE (move_to_back p) (retE ret))"

definition insertCache :: "cache_key \<Rightarrow> int \<Rightarrow> 'v \<Rightarrow> ('v bfs_cache, 'v) comp" where
  "insertCache key key_type val =
     bindE (cache_find key key_type) (\<lambda>p.
     bindE (if p = None then insert_new key key_type val else update_entry p key key_type val) (\<lambda>ret.
     seqE (modE (\<lambda>c. c \<lparr> vclock := vclock c + 1 \<rparr>))
     (retE ret)))"

definition checkCache :: "cache_key \<Rightarrow> int \<Rightarrow> bool \<Rightarrow> ('v bfs_cache, 'v option) comp" where
  "checkCache key key_type pop =
     bindE (cache_find key key_type) (\<lambda>p.
     if p = None then retE None
     else
       bindE (getE vclock) (\<lambda>clk.
       seqE (setAge p clk)
       (seqE (modE (\<lambda>c. c \<lparr> vclock := clk + 1 \<rparr>))
       (seqE (if pop then seqE (cache_remove p key_type) (retE ()) else retE ())
       (bindE (deref p) (\<lambda>n. retE (Some (cvalue n))))))))"

section \<open>The ring\<close>

definition nxt :: "'v bfs_cache \<Rightarrow> nat \<Rightarrow> nat option" where
  "nxt c a = (case cells c a of None \<Rightarrow> None | Some n \<Rightarrow> nextp n)"

definition prv :: "'v bfs_cache \<Rightarrow> nat \<Rightarrow> nat option" where
  "prv c a = (case cells c a of None \<Rightarrow> None | Some n \<Rightarrow> prevp n)"

fun chain :: "'v bfs_cache \<Rightarrow> nat list \<Rightarrow> bool" where
  "chain c (a # b # r) = (nxt c a = Some b \<and> prv c b = Some a \<and> chain c (b # r))"
| "chain c _ = True"

text \<open>The cache holds the addresses \<^verbatim>\<open>L\<close>, oldest first.  The links between neighbours are
  those of a doubly linked list; the code does not close the ring when the front moves, so
  the forward link of the last entry is arbitrary, and the back link of the first entry is
  that entry itself or one that is no longer in the cache.\<close>

definition ring :: "'v bfs_cache \<Rightarrow> nat list \<Rightarrow> bool" where
  "ring c L \<longleftrightarrow>
     (if L = [] then table c = None \<and> table_end c = None
      else table c = Some (hd L) \<and> table_end c = Some (last L) \<and> chain c L \<and>
        (\<exists>p. prv c (hd L) = Some p \<and> p \<in> dom (cells c) \<and> (p = hd L \<or> p \<notin> set L)))"

lemma chain_append:
  "chain c (xs @ ys) \<longleftrightarrow> chain c xs \<and> chain c ys \<and>
    (xs \<noteq> [] \<and> ys \<noteq> [] \<longrightarrow> nxt c (last xs) = Some (hd ys) \<and> prv c (hd ys) = Some (last xs))"
proof (induction xs)
  case (Cons a xs)
  then show ?case
    by (cases xs; cases ys) auto
qed simp

lemma chain_cong:
  "(\<And>a. a \<in> set (butlast L) \<Longrightarrow> nxt c' a = nxt c a) \<Longrightarrow> (\<And>a. a \<in> set (tl L) \<Longrightarrow> prv c' a = prv c a) \<Longrightarrow>
    chain c' L = chain c L"
proof (induction c L rule: chain.induct)
  case (1 c a b r)
  then show ?case by (cases r) auto
qed auto

lemma deref_run [comp_simps]: "cells c a = Some n \<Longrightarrow> deref (Some a) c = (Inr n, c)"
  by (simp add: deref_def comp_simps)

lemma assign_cell_run [comp_simps]:
  "cells c a = Some n \<Longrightarrow> assign_cell (Some a) f c = (Inr (), c \<lparr> cells := (cells c)(a \<mapsto> f n) \<rparr>)"
  by (simp add: assign_cell_def comp_simps)

lemma key_at_run [comp_simps]: "cells c a = Some n \<Longrightarrow> ckey_of n = Some k \<Longrightarrow> key_at (Some a) c = (Inr k, c)"
  by (simp add: key_at_def comp_simps)

definition typed :: "cache_key \<Rightarrow> int \<Rightarrow> bool" where
  "typed k key_type \<longleftrightarrow> (case k of intCacheKey _ \<Rightarrow> key_type = 1 | stringCacheKey _ \<Rightarrow> key_type \<noteq> 1)"

lemma key_cast_run [comp_simps]: "typed k ty \<Longrightarrow> key_cast k ty c = (Inr (), c)"
  by (simp add: key_cast_def typed_def comp_simps)


definition celldata :: "'v cacheTableValue \<Rightarrow> cache_key option \<times> 'v" where
  "celldata n = (ckey_of n, cvalue n)"

definition cdata :: "'v bfs_cache \<Rightarrow> nat \<Rightarrow> (cache_key option \<times> 'v) option" where
  "cdata c a = map_option celldata (cells c a)"

text \<open>\<^verbatim>\<open>cache_rep c L\<close>: the entries of the cache are those at \<^verbatim>\<open>L\<close>, oldest first, and the map finds
  exactly them; \<^verbatim>\<open>contents\<close> lists their keys and values.\<close>

definition cache_rep :: "'v bfs_cache \<Rightarrow> nat list \<Rightarrow> bool" where
  "cache_rep c L \<longleftrightarrow> distinct L \<and> ring c L \<and> csize c = int (length L) \<and>
     (\<forall>a \<in> set L. \<exists>k v. cdata c a = Some (Some k, v) \<and> table_map c k = Some a) \<and>
     (\<forall>k a. table_map c k = Some a \<longrightarrow> a \<in> set L \<and> (\<exists>v. cdata c a = Some (Some k, v))) \<and>
     (\<forall>a. cdata c a \<noteq> None \<longrightarrow> a < fresh c)"

definition contents :: "'v bfs_cache \<Rightarrow> nat list \<Rightarrow> (cache_key \<times> 'v) list" where
  "contents c L = map (\<lambda>a. case the (cdata c a) of (k, v) \<Rightarrow> (the k, v)) L"

text \<open>What the operations on the links leave alone.\<close>

definition same_data :: "'v bfs_cache \<Rightarrow> 'v bfs_cache \<Rightarrow> bool" where
  "same_data c c' \<longleftrightarrow> cdata c' = cdata c \<and> csize c' = csize c \<and> table_map c' = table_map c \<and>
     fresh c' = fresh c \<and> maxsize c' = maxsize c"

lemma dom_cdata: "a \<in> dom (cells c) \<longleftrightarrow> cdata c a \<noteq> None"
  by (auto simp: cdata_def)

lemma same_data_refl [simp]: "same_data c c"
  by (simp add: same_data_def)

lemma same_data_trans: "same_data a b \<Longrightarrow> same_data b c \<Longrightarrow> same_data a c"
  by (simp add: same_data_def)

lemma relink_ok:
  assumes "nxt c a = Some q" "prv c a = Some p" "q \<noteq> a" "p \<in> dom (cells c)" "q \<in> dom (cells c)"
  shows "\<exists>c'. relink (Some a) c = (Inr (), c') \<and> same_data c c' \<and> table c' = table c \<and>
    table_end c' = table_end c \<and> nxt c' = (nxt c)(p := Some q) \<and> prv c' = (prv c)(q := Some p)"
proof -
  obtain n np nq where n: "cells c a = Some n" "prevp n = Some p" "nextp n = Some q"
    "cells c p = Some np" "cells c q = Some nq"
    using assms by (auto simp: nxt_def prv_def split: option.splits)
  define h where "h = (cells c)(p \<mapsto> np \<lparr> nextp := Some q \<rparr>)"
  obtain nq' where nq': "h q = Some nq'" "celldata nq' = celldata nq" "nextp nq' = (if p = q then Some q else nextp nq)"
    using n by (cases "p = q") (auto simp: h_def celldata_def)
  obtain n' where n': "h a = Some n'" "nextp n' = Some q" "prevp n' = Some p"
    using n by (cases "p = a") (auto simp: h_def)
  let ?c = "c \<lparr> cells := h(q \<mapsto> nq' \<lparr> prevp := Some p \<rparr>) \<rparr>"
  have "relink (Some a) c = (Inr (), ?c)"
    using n n' nq'(1) by (simp add: relink_def comp_simps h_def [symmetric])
  moreover have "same_data c ?c"
    using n nq'(2) by (auto simp: same_data_def cdata_def h_def celldata_def fun_eq_iff)
  moreover have "nxt ?c = (nxt c)(p := Some q)"
    using n nq'(3) by (auto simp: nxt_def h_def fun_eq_iff)
  moreover have "prv ?c = (prv c)(q := Some p)"
    using n by (auto simp: prv_def h_def fun_eq_iff)
  ultimately show ?thesis by (intro exI [of _ ?c]) simp
qed

lemma link_back_ok:
  assumes "table c = Some t" "table_end c = Some e" "a \<in> dom (cells c)" "e \<in> dom (cells c)" "a \<noteq> e"
  shows "\<exists>c'. link_back a c = (Inr (), c') \<and> same_data c c' \<and> table c' = Some t \<and> table_end c' = Some a \<and>
    nxt c' = (nxt c)(a := Some t, e := Some a) \<and> prv c' = (prv c)(a := Some e)"
proof -
  obtain n m where n: "cells c a = Some n" "cells c e = Some m" using assms(3,4) by auto
  let ?c = "c \<lparr> cells := (cells c)(a \<mapsto> n \<lparr> prevp := Some e, nextp := Some t \<rparr>, e \<mapsto> m \<lparr> nextp := Some a \<rparr>),
    table_end := Some a \<rparr>"
  have "link_back a c = (Inr (), ?c)"
    using assms n by (simp add: link_back_def comp_simps)
  moreover have "same_data c ?c"
    using n by (auto simp: same_data_def cdata_def celldata_def fun_eq_iff)
  moreover have "nxt ?c = (nxt c)(a := Some t, e := Some a)" "prv ?c = (prv c)(a := Some e)"
    using n assms(5) by (auto simp: nxt_def prv_def fun_eq_iff)
  ultimately show ?thesis using assms(1) by (intro exI [of _ ?c]) simp
qed

text \<open>Taking an entry out of the ring, and adding one at the back.\<close>

lemma ring_dom:
  assumes "ring c L" "L \<noteq> []"
  shows "hd L \<in> dom (cells c)"
  using assms by (auto simp: ring_def prv_def split: option.splits)

lemma chain_mem_dom:
  assumes "chain c L" "L \<noteq> []" "hd L \<in> dom (cells c)"
  shows "set L \<subseteq> dom (cells c)"
  using assms
proof (induction c L rule: chain.induct)
  case (1 c a b r)
  then have "b \<in> dom (cells c)" by (auto simp: prv_def split: option.splits)
  with 1 show ?case by simp
qed auto


lemma chain_keep:
  assumes "chain c L" "distinct L" "\<And>a. a \<in> set L \<Longrightarrow> a \<noteq> last L \<Longrightarrow> nxt c' a = nxt c a"
    "\<And>a. a \<in> set L \<Longrightarrow> a \<noteq> hd L \<Longrightarrow> prv c' a = prv c a"
  shows "chain c' L"
proof -
  have "a \<in> set L \<and> a \<noteq> last L" if "a \<in> set (butlast L)" for a
    using that assms(2) by (cases L rule: rev_cases) auto
  moreover have "a \<in> set L \<and> a \<noteq> hd L" if "a \<in> set (tl L)" for a
    using that assms(2) by (cases L) auto
  ultimately have "chain c' L = chain c L"
    using assms(3,4) by (intro chain_cong) blast+
  with assms(1) show ?thesis by simp
qed

lemma unlink_middle:
  assumes ring: "ring c (xs @ a # ys)" and ne: "xs \<noteq> []" "ys \<noteq> []" and dist: "distinct (xs @ a # ys)"
  shows "\<exists>c'. relink (Some a) c = (Inr (), c') \<and> same_data c c' \<and> ring c' (xs @ ys) \<and>
    prv c' (hd xs) = prv c (hd xs)"
proof -
  let ?p = "last xs" and ?q = "hd ys"
  have ch: "chain c xs" "nxt c ?p = Some a" "prv c a = Some ?p" "nxt c a = Some ?q"
    "prv c ?q = Some a" "chain c ys"
    using ring ne by (cases ys; auto simp: ring_def chain_append)+
  obtain b where b: "prv c (hd xs) = Some b" "b \<in> dom (cells c)" "b = hd xs \<or> b \<notin> set (xs @ a # ys)"
    "table c = Some (hd xs)" "table_end c = Some (last ys)"
    using ring ne by (auto simp: ring_def)
  have dom: "set (xs @ a # ys) \<subseteq> dom (cells c)"
    using ring ring_dom [OF ring] by (intro chain_mem_dom) (auto simp: ring_def)
  have in_xs: "?p \<in> set xs" "hd xs \<in> set xs" and in_ys: "?q \<in> set ys" "last ys \<in> set ys"
    using ne by simp_all
  with dist have d: "?p \<noteq> a" "?q \<noteq> a" "?p \<notin> set ys" "?q \<notin> set xs" "last ys \<noteq> ?p" "hd xs \<noteq> ?q"
    by (auto simp del: last_in_set hd_in_set)
  obtain c' where c': "relink (Some a) c = (Inr (), c')" "same_data c c'" "table c' = table c"
    "table_end c' = table_end c" "nxt c' = (nxt c)(?p := Some ?q)" "prv c' = (prv c)(?q := Some ?p)"
    using relink_ok [OF ch(4,3) d(2)] dom in_xs in_ys by auto
  have "chain c' xs"
    using d dist by (intro chain_keep [OF ch(1)]) (auto simp: c'(5,6))
  moreover have "chain c' ys"
    using d dist by (intro chain_keep [OF ch(6)]) (auto simp: c'(5,6))
  ultimately have "chain c' (xs @ ys)"
    by (simp add: chain_append c'(5,6))
  moreover have "b \<in> dom (cells c')"
    using b(2) c'(2) by (simp add: dom_cdata same_data_def)
  ultimately have "ring c' (xs @ ys)"
    using b ne d by (auto simp: ring_def c'(3-6))
  with c'(1,2,6) d(6) show ?thesis by auto
qed

lemma unlink_head:
  assumes ring: "ring c (a # ys)" and ne: "ys \<noteq> []" and dist: "distinct (a # ys)"
  shows "\<exists>c' p. relink (Some a) (c \<lparr> table := nxt c a \<rparr>) = (Inr (), c') \<and> same_data c c' \<and> ring c' ys \<and>
    prv c a = Some p \<and> prv c' (hd ys) = Some p"
proof -
  let ?q = "hd ys" and ?c = "c \<lparr> table := nxt c a \<rparr>"
  have ch: "nxt c a = Some ?q" "prv c ?q = Some a" "chain c ys"
    using ring ne by (cases ys; auto simp: ring_def)+
  obtain p where p: "prv c a = Some p" "p \<in> dom (cells c)" "p = a \<or> p \<notin> set (a # ys)"
    "table_end c = Some (last ys)"
    using ring ne by (auto simp: ring_def)
  have dom: "set (a # ys) \<subseteq> dom (cells c)"
    using ring ring_dom [OF ring] by (intro chain_mem_dom) (auto simp: ring_def)
  have q: "?q \<in> set ys" "?q \<noteq> a" "p \<notin> set ys" "last ys \<noteq> a" "last ys \<in> set ys" "last ys \<noteq> p"
    using ne dist p(3) hd_in_set [OF ne] last_in_set [OF ne] by (auto simp del: last_in_set hd_in_set)
  have e: "nxt ?c = nxt c" "prv ?c = prv c" by (simp_all add: nxt_def prv_def fun_eq_iff)
  obtain c' where c': "relink (Some a) ?c = (Inr (), c')" "same_data ?c c'" "table c' = table ?c"
    "table_end c' = table_end c" "nxt c' = (nxt c)(p := Some ?q)" "prv c' = (prv c)(?q := Some p)"
    using relink_ok [of ?c a ?q p] ch p q dom e by auto
  have "chain c' ys"
    using q dist by (intro chain_keep [OF ch(3)]) (auto simp: c'(5,6))
  moreover have sd: "same_data c c'" using c'(2) by (simp add: same_data_def cdata_def fun_eq_iff)
  moreover have "p \<in> dom (cells c')"
    using p(2) sd by (simp add: dom_cdata same_data_def)
  ultimately show ?thesis
    using c' ch p q ne
    by (intro exI [of _ c'] exI [of _ p]) (auto simp: ring_def)
qed

lemma ring_set_dom: "ring c L \<Longrightarrow> set L \<subseteq> dom (cells c)"
  by (metis chain_mem_dom ring_dom ring_def empty_set empty_subsetI)

lemma link_back_ring:
  assumes ring: "ring c L" and ne: "L \<noteq> []" and dist: "distinct (L @ [a])" and a: "a \<in> dom (cells c)"
    and bk: "prv c (hd L) \<noteq> Some a"
  shows "\<exists>c'. link_back a c = (Inr (), c') \<and> same_data c c' \<and> ring c' (L @ [a]) \<and>
    prv c' (hd L) = prv c (hd L)"
proof -
  have e: "last L \<in> dom (cells c)" using ring_set_dom [OF ring] ne last_in_set [OF ne] by blast
  have d: "a \<noteq> last L" "a \<noteq> hd L" using dist ne hd_in_set [OF ne] last_in_set [OF ne] by (auto simp del: hd_in_set last_in_set)
  obtain p where p: "prv c (hd L) = Some p" "p \<in> dom (cells c)" "p = hd L \<or> p \<notin> set L" "chain c L"
    "table c = Some (hd L)" "table_end c = Some (last L)"
    using ring ne by (auto simp: ring_def)
  obtain c' where c': "link_back a c = (Inr (), c')" "same_data c c'" "table c' = Some (hd L)" "table_end c' = Some a"
    "nxt c' = (nxt c)(a := Some (hd L), last L := Some a)" "prv c' = (prv c)(a := Some (last L))"
    using link_back_ok [OF p(5,6) a e d(1)] by auto
  have "chain c' L" using dist by (intro chain_keep [OF p(4)]) (auto simp: c'(5,6))
  then have "chain c' (L @ [a])" using ne d by (simp add: chain_append c'(5,6))
  moreover have "p \<in> dom (cells c')" using p(2) c'(2) by (simp add: dom_cdata same_data_def)
  ultimately have "ring c' (L @ [a])" using ne p bk d by (auto simp: ring_def c'(3,4,6))
  with c' d show ?thesis by auto
qed


lemma ring_cong:
  "table c' = table c \<Longrightarrow> table_end c' = table_end c \<Longrightarrow> nxt c' = nxt c \<Longrightarrow> prv c' = prv c \<Longrightarrow>
    dom (cells c') = dom (cells c) \<Longrightarrow> ring c' L = ring c L"
proof -
  assume *: "table c' = table c" "table_end c' = table_end c" "nxt c' = nxt c" "prv c' = prv c"
    "dom (cells c') = dom (cells c)"
  then have "chain c' L = chain c L" by (intro chain_cong) simp_all
  with * show ?thesis by (simp add: ring_def)
qed

lemma cache_rep_same:
  assumes "cache_rep c L" "same_data c c'" "ring c' L'" "distinct L'" "set L' = set L"
  shows "cache_rep c' L'"
proof -
  have "length L' = length L" using assms(1,4,5) by (metis cache_rep_def distinct_card)
  with assms show ?thesis by (simp add: cache_rep_def same_data_def)
qed

lemma contents_same: "same_data c c' \<Longrightarrow> contents c' L = contents c L"
  by (simp add: contents_def same_data_def)

lemma cache_repD:
  assumes "cache_rep c L"
  shows "distinct L" "ring c L" "csize c = int (length L)" "cdata c a \<noteq> None \<Longrightarrow> a < fresh c"
    "a \<in> set L \<Longrightarrow> \<exists>k v. cdata c a = Some (Some k, v) \<and> table_map c k = Some a"
    "table_map c k = Some a \<Longrightarrow> a \<in> set L \<and> (\<exists>v. cdata c a = Some (Some k, v))"
  using assms unfolding cache_rep_def by blast+

lemma cdata_cells: "cdata c a = Some (k, v) \<longleftrightarrow> (\<exists>n. cells c a = Some n \<and> ckey_of n = k \<and> cvalue n = v)"
  by (auto simp: cdata_def celldata_def)

lemma table_hd: "cache_rep c (a # ys) \<Longrightarrow> table c = Some a"
  by (simp add: cache_rep_def ring_def)

text \<open>Evicting the oldest entry.\<close>

lemma remove_head:
  assumes rep: "cache_rep c (a # ys)" and ty: "\<forall>k v. cdata c a = Some (Some k, v) \<longrightarrow> typed k ty"
  shows "\<exists>c'. cache_remove (Some a) ty c = (Inr (Some a), c') \<and> cache_rep c' ys \<and> contents c' ys = contents c ys \<and>
    maxsize c' = maxsize c \<and> fresh c' = fresh c \<and> (ys \<noteq> [] \<longrightarrow> prv c' (hd ys) = prv c a)"
proof -
  obtain k v where kv: "cdata c a = Some (Some k, v)" "table_map c k = Some a"
    using cache_repD(5) [OF rep, of a] by auto
  obtain n where n: "cells c a = Some n" "ckey_of n = Some k" "cvalue n = v"
    using kv(1) by (auto simp: cdata_cells)
  let ?c = "c \<lparr> table_map := (table_map c)(k := None), cells := (cells c)(a \<mapsto> n \<lparr> ckey_of := None \<rparr>) \<rparr>"
  have ln: "nxt ?c = nxt c" "prv ?c = prv c" "dom (cells ?c) = dom (cells c)"
    using n by (auto simp: nxt_def prv_def fun_eq_iff)
  have ring: "ring ?c (a # ys)"
    using cache_repD(2) [OF rep] by (subst ring_cong [OF _ _ ln]) simp_all
  have cd: "cdata ?c = (cdata c)(a \<mapsto> (None, v))"
    using n by (auto simp: cdata_def celldata_def fun_eq_iff)
  have a: "a \<notin> set ys" "distinct ys" using cache_repD(1) [OF rep] by simp_all
  have tab: "table c = Some a" "table_end c \<noteq> None"
    using cache_repD(2) [OF rep] by (simp_all add: ring_def)
  have data: "cache_rep c' ys \<and> contents c' ys = contents c ys"
    if "ring c' ys" "cdata c' = cdata ?c" "table_map c' = table_map ?c" "csize c' = csize c - 1" "fresh c' = fresh c" for c'
  proof
    show "cache_rep c' ys"
      using that cd a cache_repD(3-6) [OF rep] kv
      unfolding cache_rep_def by (auto split: if_splits) (metis option.inject prod.inject)+
    show "contents c' ys = contents c ys"
      using that cd a by (auto simp: contents_def)
  qed
  show ?thesis
  proof (cases "ys = []")
    case True
    let ?c' = "?c \<lparr> table := None, table_end := None, csize := csize c - 1 \<rparr>"
    have "cache_remove (Some a) ty c = (Inr (Some a), ?c')"
      using tab kv n ty cache_repD(3) [OF rep] True by (simp add: cache_remove_def comp_simps)
    moreover have "cache_rep ?c' ys \<and> contents ?c' ys = contents c ys"
      using True by (intro data) (simp_all add: ring_def cdata_def fun_eq_iff)
    ultimately show ?thesis using True by auto
  next
    case False
    obtain c1 p where c1: "relink (Some a) (?c \<lparr> table := nxt ?c a \<rparr>) = (Inr (), c1)" "same_data ?c c1" "ring c1 ys"
      "prv ?c a = Some p" "prv c1 (hd ys) = Some p"
      using unlink_head [OF ring False] a by auto
    have nx: "nxt ?c a = nextp n" using n by (simp add: nxt_def)
    let ?c' = "c1 \<lparr> csize := csize c - 1 \<rparr>"
    have sz: "csize c1 = csize c" using c1(2) by (simp add: same_data_def)
    have "csize c \<noteq> 1" using cache_repD(3) [OF rep] False by (cases ys) auto
    then have "cache_remove (Some a) ty c = (Inr (Some a), ?c')"
      using tab kv n ty c1(1) nx sz by (simp add: cache_remove_def comp_simps)
    moreover have "nxt ?c' = nxt c1" "prv ?c' = prv c1" "cdata ?c' = cdata c1"
      by (simp_all add: nxt_def prv_def cdata_def fun_eq_iff)
    moreover from this have "ring ?c' ys" using c1(3) by (subst ring_cong) simp_all
    ultimately show ?thesis
      using c1 data [of ?c'] ln(2) by (intro exI [of _ ?c']) (simp add: same_data_def)
  qed
qed


text \<open>Adding a new entry at the back.\<close>

lemma table_None: "cache_rep c L \<Longrightarrow> table c = None \<longleftrightarrow> L = []" "cache_rep c L \<Longrightarrow> table_end c = None \<longleftrightarrow> L = []"
  by (auto simp: cache_rep_def ring_def split: if_splits)

lemma add_new_ok:
  assumes rep: "cache_rep c L" and key: "table_map c key = None" "typed key ty"
  shows "\<exists>c'. add_new key ty val c = (Inr (), c') \<and> cache_rep c' (L @ [fresh c]) \<and>
    contents c' (L @ [fresh c]) = contents c L @ [(key, val)] \<and> maxsize c' = maxsize c"
proof -
  let ?a = "fresh c"
  let ?n = "\<lparr> ckey_of = Some key, cage = vclock c, cvalue = val, nextp = None, prevp = None \<rparr>"
  let ?c = "c \<lparr> cells := (cells c)(?a \<mapsto> ?n), fresh := ?a + 1 \<rparr>"
  have new: "cdata c ?a = None" using cache_repD(4) [OF rep, of ?a] by blast
  then have newc: "cells c ?a = None" by (simp add: cdata_def)
  have cd: "cdata ?c = (cdata c)(?a \<mapsto> (Some key, val))"
    by (auto simp: cdata_def celldata_def fun_eq_iff)
  have aL: "?a \<notin> set L" using new cache_repD(5) [OF rep] by force
  have data: "cache_rep c' (L @ [?a]) \<and> contents c' (L @ [?a]) = contents c L @ [(key, val)]"
    if "ring c' (L @ [?a])" "cdata c' = cdata ?c" "table_map c' = (table_map c)(key \<mapsto> ?a)"
      "csize c' = csize c + 1" "fresh c' = ?a + 1" for c'
  proof
    show "cache_rep c' (L @ [?a])"
      using that cd aL new key cache_repD(1,3-6) [OF rep]
      unfolding cache_rep_def by (auto simp: less_Suc_eq split: if_splits) (metis option.distinct(1))+
    show "contents c' (L @ [?a]) = contents c L @ [(key, val)]"
      using that cd aL by (auto simp: contents_def)
  qed
  show ?thesis
  proof (cases "L = []")
    case True
    let ?c' = "?c \<lparr> table := Some ?a, table_end := Some ?a, cells := (cells c)(?a \<mapsto> ?n \<lparr> prevp := Some ?a, nextp := Some ?a \<rparr>),
      table_map := (table_map c)(key \<mapsto> ?a), csize := csize c + 1 \<rparr>"
    have "add_new key ty val c = (Inr (), ?c')"
      using table_None [OF rep] True key(2) by (simp add: add_new_def comp_simps)
    moreover have "cdata ?c' = cdata ?c" by (auto simp: cdata_def celldata_def fun_eq_iff)
    moreover have "ring ?c' (L @ [?a])" using True by (simp add: ring_def prv_def)
    ultimately show ?thesis using data [of ?c'] by (intro exI [of _ ?c']) simp
  next
    case False
    have "nxt ?c b = nxt c b" "prv ?c b = prv c b" if "b \<in> set L" for b
      using that aL by (auto simp: nxt_def prv_def)
    then have "chain ?c L = chain c L" and hdL: "prv ?c (hd L) = prv c (hd L)"
      using False by (auto intro!: chain_cong dest: in_set_butlastD list.set_sel(2) [rotated])
    then have ring: "ring ?c L" using cache_repD(2) [OF rep] False by (auto simp: ring_def)
    have "prv ?c (hd L) \<noteq> Some ?a"
      using cache_repD(2) [OF rep] False newc hdL by (auto simp: ring_def)
    from link_back_ring [OF ring False _ _ this] aL cache_repD(1) [OF rep] obtain c1 where
      c1: "link_back ?a ?c = (Inr (), c1)" "same_data ?c c1" "ring c1 (L @ [?a])"
      by auto
    let ?c' = "c1 \<lparr> table_map := (table_map c1)(key \<mapsto> ?a), csize := csize c1 + 1 \<rparr>"
    have "table c \<noteq> None" "table_end c \<noteq> None" using table_None [OF rep] False by auto
    then have "add_new key ty val c = (Inr (), ?c')"
      using c1(1) key(2) by (auto simp: add_new_def comp_simps)
    moreover have "nxt ?c' = nxt c1" "prv ?c' = prv c1" "cdata ?c' = cdata c1"
      by (simp_all add: nxt_def prv_def cdata_def fun_eq_iff)
    moreover from this have "ring ?c' (L @ [?a])" using c1(3) by (subst ring_cong) simp_all
    ultimately show ?thesis
      using c1(2) data [of ?c'] by (intro exI [of _ ?c']) (simp add: same_data_def)
  qed
qed


text \<open>Overwriting an entry moves it to the back.  When it is the oldest one, its back link
  must lead out of the cache.\<close>

lemma move_back:
  assumes rep: "cache_rep c (xs @ a # ys)" and ys: "ys \<noteq> []" and hd: "xs = [] \<Longrightarrow> prv c a \<noteq> Some a"
  shows "\<exists>c'. seqE (if xs = [] then modE (\<lambda>c. c \<lparr> table := nxt c a \<rparr>) else retE ())
      (seqE (relink (Some a)) (link_back a)) c = (Inr (), c') \<and>
    cache_rep c' (xs @ ys @ [a]) \<and> same_data c c'"
proof -
  have d: "distinct (xs @ a # ys)" and ring: "ring c (xs @ a # ys)" using cache_repD(1,2) [OF rep] .
  obtain c1 where c1: "(seqE (if xs = [] then modE (\<lambda>c. c \<lparr> table := nxt c a \<rparr>) else retE ()) (relink (Some a))) c =
      (Inr (), c1)" "same_data c c1" "ring c1 (xs @ ys)" "prv c1 (List.hd (xs @ ys)) \<noteq> Some a"
  proof (cases "xs = []")
    case True
    obtain c1 p where "relink (Some a) (c \<lparr> table := nxt c a \<rparr>) = (Inr (), c1)" "same_data c c1" "ring c1 ys"
      "prv c a = Some p" "prv c1 (List.hd ys) = Some p"
      using unlink_head [of c a ys] ring ys d True by auto
    with True hd that [of c1] show thesis by (simp add: comp_simps)
  next
    case False
    obtain c1 where *: "relink (Some a) c = (Inr (), c1)" "same_data c c1" "ring c1 (xs @ ys)"
      "prv c1 (List.hd xs) = prv c (List.hd xs)"
      using unlink_middle [OF ring False ys d] by auto
    have "a \<noteq> List.hd xs" using d hd_in_set [OF False] by (auto simp del: hd_in_set)
    with ring False have "prv c (List.hd xs) \<noteq> Some a" by (auto simp: ring_def)
    with * False that [of c1] show thesis by (simp add: comp_simps)
  qed
  have a: "a \<in> dom (cells c1)"
    using c1(2) ring_set_dom [OF ring] by (auto simp: dom_cdata same_data_def)
  have "xs @ ys \<noteq> []" "distinct ((xs @ ys) @ [a])" using ys d by auto
  from link_back_ring [OF c1(3) this a c1(4)] obtain c2 where
    c2: "link_back a c1 = (Inr (), c2)" "same_data c1 c2" "ring c2 ((xs @ ys) @ [a])" by auto
  have sd: "same_data c c2" using c1(2) c2(2) by (rule same_data_trans)
  have "cache_rep c2 (xs @ ys @ [a])"
    by (rule cache_rep_same [OF rep sd]) (use c2(3) d in auto)
  moreover have "seqE (if xs = [] then modE (\<lambda>c. c \<lparr> table := nxt c a \<rparr>) else retE ())
      (seqE (relink (Some a)) (link_back a)) c = (Inr (), c2)"
    using c1(1) c2(1) by (auto simp: seqE_eq_Inr)
  ultimately show ?thesis using sd by blast
qed

text \<open>The cache as a list of entries, oldest first.\<close>

definition lru_insert :: "nat \<Rightarrow> cache_key \<Rightarrow> 'v \<Rightarrow> (cache_key \<times> 'v) list \<Rightarrow> (cache_key \<times> 'v) list" where
  "lru_insert m key val xs =
     (if key \<in> fst ` set xs then filter (\<lambda>e. fst e \<noteq> key) xs @ [(key, val)]
      else (if m \<le> length xs then tl xs else xs) @ [(key, val)])"

lemma find_run:
  assumes rep: "cache_rep c L" and key: "typed key ty"
  shows "cache_find key ty c = (Inr (table_map c key),
    c \<lparr> accesses := accesses c + 1, hits := hits c + (if table_map c key = None then 0 else 1) \<rparr>)"
proof (cases "L = []")
  case True
  then have "table c = None" using table_None [OF rep] by simp
  moreover have "table_map c key = None" using cache_repD(6) [OF rep] True by fastforce
  ultimately show ?thesis by (simp add: cache_find_def comp_simps)
next
  case False
  then have "table c \<noteq> None" "table_end c \<noteq> None" using table_None [OF rep] by auto
  with key show ?thesis by (auto simp: cache_find_def comp_simps)
qed

lemma rep_counters:
  "cache_rep (c \<lparr> accesses := x, hits := y \<rparr>) L = cache_rep c L"
  "cache_rep (c \<lparr> vclock := z \<rparr>) L = cache_rep c L"
  "contents (c \<lparr> accesses := x, hits := y \<rparr>) L = contents c L"
  "contents (c \<lparr> vclock := z \<rparr>) L = contents c L"
proof -
  have "ring (c \<lparr> accesses := x, hits := y \<rparr>) L = ring c L" "ring (c \<lparr> vclock := z \<rparr>) L = ring c L"
    by (rule ring_cong; simp add: nxt_def prv_def fun_eq_iff)+
  then show "cache_rep (c \<lparr> accesses := x, hits := y \<rparr>) L = cache_rep c L"
    "cache_rep (c \<lparr> vclock := z \<rparr>) L = cache_rep c L"
    by (simp_all add: cache_rep_def cdata_def)
qed (simp_all add: contents_def cdata_def)


lemma contents_keys:
  assumes rep: "cache_rep c L"
  shows "key \<in> fst ` set (contents c L) \<longleftrightarrow> table_map c key \<noteq> None"
proof
  assume "key \<in> fst ` set (contents c L)"
  then obtain a where "a \<in> set L" "key = fst (case the (cdata c a) of (k, v) \<Rightarrow> (the k, v))"
    by (auto simp: contents_def)
  with cache_repD(5) [OF rep, of a] show "table_map c key \<noteq> None" by auto
next
  assume "table_map c key \<noteq> None"
  then obtain a v where "a \<in> set L" "cdata c a = Some (Some key, v)"
    using cache_repD(6) [OF rep, of key] by auto
  then show "key \<in> fst ` set (contents c L)"
    by (force simp: contents_def)
qed

lemma contents_other:
  assumes rep: "cache_rep c L" and sub: "set zs \<subseteq> set L - {a}" and a: "table_map c key = Some a"
  shows "filter (\<lambda>e. fst e \<noteq> key) (contents c zs) = contents c zs"
proof -
  have "fst (case the (cdata c b) of (k, v) \<Rightarrow> (the k, v)) \<noteq> key" if "b \<in> set zs" for b
  proof -
    have "b \<in> set L" "b \<noteq> a" using that sub by auto
    with cache_repD(5) [OF rep, of b] a show ?thesis by auto
  qed
  then show ?thesis by (auto simp: contents_def intro!: filter_True)
qed

lemma replace_value_ok:
  assumes rep: "cache_rep c (xs @ a # ys)" and key: "table_map c key = Some a" "typed key ty"
  shows "\<exists>c' v. replace_value (Some a) key ty val c = (Inr v, c') \<and> cache_rep c' (xs @ a # ys) \<and>
    cdata c' = (cdata c)(a \<mapsto> (Some key, val)) \<and> nxt c' = nxt c \<and> prv c' = prv c \<and> table_map c' = table_map c \<and>
    maxsize c' = maxsize c \<and> cdata c a = Some (Some key, v)"
proof -
  obtain v where v: "cdata c a = Some (Some key, v)" using cache_repD(6) [OF rep key(1)] by auto
  obtain n where n: "cells c a = Some n" "ckey_of n = Some key" "cvalue n = v"
    using v by (auto simp: cdata_cells)
  let ?c = "c \<lparr> cells := (cells c)(a \<mapsto> n \<lparr> cage := vclock c, cvalue := val \<rparr>) \<rparr>"
  have cd: "cdata ?c = (cdata c)(a \<mapsto> (Some key, val))"
    using n by (auto simp: cdata_def celldata_def fun_eq_iff)
  have ln: "nxt ?c = nxt c" "prv ?c = prv c" "dom (cells ?c) = dom (cells c)"
    using n by (auto simp: nxt_def prv_def fun_eq_iff)
  have "ring ?c (xs @ a # ys)" using cache_repD(2) [OF rep] by (subst ring_cong [OF _ _ ln]) simp_all
  then have rep1: "cache_rep ?c (xs @ a # ys)"
    using rep v cd key cache_repD(4) [OF rep] unfolding cache_rep_def
    by (auto split: if_splits) (metis option.inject prod.inject)+
  have "replace_value (Some a) key ty val c = (Inr v, ?c)"
  proof (cases "val = v")
    case True
    then have "n \<lparr> cage := vclock c, cvalue := val \<rparr> = n \<lparr> cage := vclock c \<rparr>" using n(3) by (cases n) simp
    then have eq: "?c = c \<lparr> cells := (cells c)(a \<mapsto> n \<lparr> cage := vclock c \<rparr>) \<rparr>" by (simp only:)
    show ?thesis unfolding eq using True n key by (simp add: replace_value_def setAge_def comp_simps)
  next
    case False
    have "(table_map c)(key := Some a) = table_map c" using key(1) by auto
    with False n key show ?thesis by (simp add: replace_value_def setAge_def comp_simps)
  qed
  with rep1 cd ln v show ?thesis by (intro exI [of _ ?c] exI [of _ v]) simp
qed

lemma update_entry_ok:
  assumes rep: "cache_rep c (xs @ a # ys)" and key: "table_map c key = Some a" "typed key ty"
    and hd: "xs = [] \<Longrightarrow> ys \<noteq> [] \<Longrightarrow> prv c a \<noteq> Some a"
  shows "\<exists>c' v. update_entry (Some a) key ty val c = (Inr v, c') \<and> cache_rep c' (xs @ ys @ [a]) \<and>
    contents c' (xs @ ys @ [a]) = contents c (xs @ ys) @ [(key, val)] \<and> maxsize c' = maxsize c \<and>
    cdata c a = Some (Some key, v)"
proof -
  obtain c1 v where rv: "replace_value (Some a) key ty val c = (Inr v, c1)" "cache_rep c1 (xs @ a # ys)"
    "cdata c1 = (cdata c)(a \<mapsto> (Some key, val))" "prv c1 = prv c" "maxsize c1 = maxsize c"
    "cdata c a = Some (Some key, v)"
    using replace_value_ok [OF rep key, of val] by auto
  note rep1 = rv(2)
  have a: "a \<notin> set xs" "a \<notin> set ys" using cache_repD(1) [OF rep] by auto
  have cont: "contents c' (xs @ ys @ [a]) = contents c (xs @ ys) @ [(key, val)]" if "cdata c' = cdata c1" for c'
    using that rv(3) a by (auto simp: contents_def)
  have tab: "table c1 = Some (if xs = [] then a else List.hd xs)" "table_end c1 = Some (if ys = [] then a else last ys)"
    using cache_repD(2) [OF rep1] by (auto simp: ring_def)
  have first: "Some a = table c1 \<longleftrightarrow> xs = []"
    using tab a hd_in_set [of xs] by (auto simp del: hd_in_set)
  have final: "Some a = table_end c1 \<longleftrightarrow> ys = []"
    using tab a last_in_set [of ys] by (auto simp del: last_in_set)
  obtain n where n: "cells c1 a = Some n" using ring_set_dom [OF cache_repD(2) [OF rep1]] by auto
  have "\<exists>c'. move_to_back (Some a) c1 = (Inr (), c') \<and> cache_rep c' (xs @ ys @ [a]) \<and> same_data c1 c'"
  proof (cases "ys = []")
    case True
    then show ?thesis using tab rep1 by (intro exI [of _ c1]) (simp add: move_to_back_def comp_simps)
  next
    case False
    have "xs = [] \<Longrightarrow> prv c1 a \<noteq> Some a" using hd False rv(4) by simp
    from move_back [OF rep1 False this] obtain c' where
      c': "seqE (if xs = [] then modE (\<lambda>c. c \<lparr> table := nxt c a \<rparr>) else retE ())
        (seqE (relink (Some a)) (link_back a)) c1 = (Inr (), c')" "cache_rep c' (xs @ ys @ [a])" "same_data c1 c'"
      by auto
    have sz: "1 < csize c1" using cache_repD(3) [OF rep1] False by (cases ys) auto
    have "table c1 \<noteq> None" "table_end c1 \<noteq> None" using tab by auto
    then have "move_to_back (Some a) c1 = (Inr (), c')"
      using c'(1) sz first final False tab n
      by (cases "xs = []") (auto simp: move_to_back_def comp_simps nxt_def)
    with c'(2,3) show ?thesis by blast
  qed
  then obtain c' where "move_to_back (Some a) c1 = (Inr (), c')" "cache_rep c' (xs @ ys @ [a])" "same_data c1 c'"
    by blast
  with rv cont [of c'] show ?thesis
    by (intro exI [of _ c'] exI [of _ v]) (auto simp: update_entry_def comp_simps same_data_def)
qed

lemma insertCache_ok:
  assumes rep: "cache_rep c L" and key: "typed key ty" and m: "1 \<le> maxsize c"
    and tys: "\<forall>e \<in> set (contents c L). typed (fst e) ty"
    and hd: "\<forall>a ys. L = a # ys \<and> table_map c key = Some a \<and> ys \<noteq> [] \<longrightarrow> prv c a \<noteq> Some a"
  shows "\<exists>c' L' v. insertCache key ty val c = (Inr v, c') \<and> cache_rep c' L' \<and> maxsize c' = maxsize c \<and>
    contents c' L' = lru_insert (nat (maxsize c)) key val (contents c L)"
proof -
  let ?c = "c \<lparr> accesses := accesses c + 1, hits := hits c + (if table_map c key = None then 0 else 1) \<rparr>"
  have rep1: "cache_rep ?c L" and cont1: "contents ?c L = contents c L" using rep by (simp_all add: rep_counters)
  obtain c' L' v where c': "(if table_map c key = None then insert_new key ty val
      else update_entry (table_map c key) key ty val) ?c = (Inr v, c')" "cache_rep c' L'"
    "contents c' L' = lru_insert (nat (maxsize c)) key val (contents c L)" "maxsize c' = maxsize c"
  proof (cases "table_map c key")
    case None
    then have new: "key \<notin> fst ` set (contents c L)" using contents_keys [OF rep] by simp
    have len: "length (contents c L) = length L" by (simp add: contents_def)
    show thesis
    proof (cases "csize c \<ge> maxsize c")
      case True
      then obtain a ys where L: "L = a # ys" using cache_repD(3) [OF rep] m by (cases L) auto
      obtain k v where kv: "cdata c a = Some (Some k, v)" "table_map c k = Some a"
        using cache_repD(5) [OF rep, of a] L by auto
      have ta: "\<forall>k' v'. cdata ?c a = Some (Some k', v') \<longrightarrow> typed k' ty"
        using tys by (auto simp: L contents_def cdata_def)
      obtain c1 where
        c1: "cache_remove (Some a) ty ?c = (Inr (Some a), c1)" "cache_rep c1 ys" "contents c1 ys = contents c ys"
          "maxsize c1 = maxsize c"
        using remove_head [OF rep1 [unfolded L] ta] by (auto simp: rep_counters)
      have none: "table_map c1 key = None"
        using new c1(3) contents_keys [OF c1(2), of key] by (auto simp: L contents_def)
      obtain c2 where c2: "add_new key ty val c1 = (Inr (), c2)" "cache_rep c2 (ys @ [fresh c1])"
        "contents c2 (ys @ [fresh c1]) = contents c1 ys @ [(key, val)]" "maxsize c2 = maxsize c1"
        using add_new_ok [OF c1(2) none key] by auto
      have "table ?c = Some a" "table_end ?c \<noteq> None" using rep table_None [OF rep] by (auto simp: L table_hd)
      then have "insert_new key ty val ?c = (Inr v, c2)"
        using True c1(1) c2(1) kv by (auto simp: insert_new_def comp_simps cdata_cells)
      moreover have "lru_insert (nat (maxsize c)) key val (contents c L) = contents c ys @ [(key, val)]"
        using new len True cache_repD(3) [OF rep] by (simp add: lru_insert_def L contents_def)
      ultimately show thesis using that [of v c2 "ys @ [fresh c1]"] None c1(3,4) c2 by simp
    next
      case False
      have "table_map ?c key = None" using None by simp
      then obtain c2 where c2: "add_new key ty val ?c = (Inr (), c2)" "cache_rep c2 (L @ [fresh ?c])"
        "contents c2 (L @ [fresh ?c]) = contents c L @ [(key, val)]" "maxsize c2 = maxsize c"
        using add_new_ok [OF rep1 _ key] cont1 by auto
      have "insert_new key ty val ?c = (Inr val, c2)"
        using False c2(1) by (auto simp: insert_new_def comp_simps)
      moreover have "lru_insert (nat (maxsize c)) key val (contents c L) = contents c L @ [(key, val)]"
        using new len False cache_repD(3) [OF rep] by (simp add: lru_insert_def nat_le_iff)
      ultimately show thesis using that [of val c2] None c2 by simp
    qed
  next
    case (Some a)
    then obtain xs ys where L: "L = xs @ a # ys" using cache_repD(6) [OF rep Some] by (meson split_list)
    have "xs = [] \<Longrightarrow> ys \<noteq> [] \<Longrightarrow> prv ?c a \<noteq> Some a" using hd Some L by (simp add: prv_def)
    with rep1 Some key obtain c2 v where c2: "update_entry (Some a) key ty val ?c = (Inr v, c2)"
      "cache_rep c2 (xs @ ys @ [a])" "contents c2 (xs @ ys @ [a]) = contents ?c (xs @ ys) @ [(key, val)]"
      "maxsize c2 = maxsize ?c"
      using update_entry_ok [of ?c xs a ys key ty val] by (auto simp: L)
    have dis: "a \<notin> set xs" "a \<notin> set ys" using cache_repD(1) [OF rep] by (auto simp: L)
    obtain v0 where v0: "cdata c a = Some (Some key, v0)" using cache_repD(6) [OF rep Some] by auto
    have "filter (\<lambda>e. fst e \<noteq> key) (contents c L) = contents c (xs @ ys)"
      using contents_other [OF rep, of xs a key] contents_other [OF rep, of ys a key] Some dis v0
      by (auto simp: L contents_def)
    then have "lru_insert (nat (maxsize c)) key val (contents c L) = contents c (xs @ ys) @ [(key, val)]"
      using contents_keys [OF rep, of key] Some by (simp add: lru_insert_def)
    with that [of v c2 "xs @ ys @ [a]"] Some c2 show thesis by (simp add: rep_counters)
  qed
  have "insertCache key ty val c = (Inr v, c' \<lparr> vclock := vclock c' + 1 \<rparr>)"
    using find_run [OF rep key] c'(1) by (cases "table_map c key") (simp_all add: insertCache_def comp_simps)
  with c'(2-4) show ?thesis by (auto simp: rep_counters intro!: exI [of _ L'])
qed

lemma set_tlD: "x \<in> set (tl xs) \<Longrightarrow> x \<in> set xs"
  by (cases xs) auto

lemma map_of_contents:
  assumes rep: "cache_rep c L"
  shows "map_of (contents c L) key = (case table_map c key of None \<Rightarrow> None | Some a \<Rightarrow> map_option snd (cdata c a))"
proof (cases "table_map c key")
  case None
  then show ?thesis using contents_keys [OF rep, of key] by (simp add: map_of_eq_None_iff)
next
  case (Some a)
  obtain v where a: "a \<in> set L" "cdata c a = Some (Some key, v)" using cache_repD(6) [OF rep Some] by auto
  obtain xs ys where L: "L = xs @ a # ys" using a(1) by (meson split_list)
  have "a \<notin> set xs" using cache_repD(1) [OF rep] L by auto
  then have "filter (\<lambda>e. fst e \<noteq> key) (contents c xs) = contents c xs"
    using contents_other [OF rep _ Some, of xs] L by auto
  then have "map_of (contents c xs) key = None"
    by (auto simp: map_of_eq_None_iff filter_eq_Cons_iff dest!: filter_id_conv [THEN iffD1])
  with a(2) Some show ?thesis by (simp add: L contents_def map_add_def)
qed

lemma checkCache_finds:
  assumes rep: "cache_rep c L" and key: "typed key ty"
  shows "\<exists>c'. checkCache key ty False c = (Inr (map_of (contents c L) key), c') \<and> cache_rep c' L \<and>
    contents c' L = contents c L \<and> maxsize c' = maxsize c \<and> table_map c' = table_map c \<and> prv c' = prv c"
proof -
  let ?c = "c \<lparr> accesses := accesses c + 1, hits := hits c + (if table_map c key = None then 0 else 1) \<rparr>"
  have rep1: "cache_rep ?c L" and cont1: "contents ?c L = contents c L" using rep by (simp_all add: rep_counters)
  have p1: "prv ?c = prv c" by (simp add: prv_def fun_eq_iff)
  show ?thesis
  proof (cases "table_map c key")
    case None
    then have "checkCache key ty False c = (Inr None, ?c)"
      using find_run [OF rep key] by (simp add: checkCache_def comp_simps)
    with None rep1 cont1 p1 map_of_contents [OF rep, of key] show ?thesis by auto
  next
    case (Some a)
    obtain v where v: "cdata c a = Some (Some key, v)" using cache_repD(6) [OF rep Some] by auto
    obtain n where n: "cells c a = Some n" "ckey_of n = Some key" "cvalue n = v"
      using v by (auto simp: cdata_cells)
    let ?c1 = "?c \<lparr> cells := (cells c)(a \<mapsto> n \<lparr> cage := vclock c \<rparr>) \<rparr>"
    let ?c2 = "?c1 \<lparr> vclock := vclock c + 1 \<rparr>"
    have sd: "same_data ?c ?c2"
      using n by (auto simp: same_data_def cdata_def celldata_def fun_eq_iff)
    have ln: "nxt ?c2 = nxt ?c" "prv ?c2 = prv ?c" "dom (cells ?c2) = dom (cells ?c)"
      using n by (auto simp: nxt_def prv_def fun_eq_iff)
    have "ring ?c2 L" using cache_repD(2) [OF rep1] by (subst ring_cong [OF _ _ ln]) simp_all
    then have "cache_rep ?c2 L" using cache_rep_same [OF rep1 sd] cache_repD(1) [OF rep] by blast
    moreover have "checkCache key ty False c = (Inr (Some v), ?c2)"
      using find_run [OF rep key] Some n by (simp add: checkCache_def setAge_def comp_simps)
    moreover have "map_of (contents c L) key = Some v" using map_of_contents [OF rep, of key] Some v by simp
    moreover have "contents ?c2 L = contents c L" using contents_same [OF sd] cont1 by simp
    ultimately show ?thesis using ln(2) p1 by (intro exI [of _ ?c2]) simp
  qed
qed

section \<open>The contract of a cache\<close>

text \<open>What the layers above rely on.  \<^verbatim>\<open>rep s xs\<close> relates a state to its entries, oldest first;
  \<^verbatim>\<open>ready s k\<close> is the precondition under which inserting the key is safe.\<close>

locale object_cache =
  fixes rep :: "'s \<Rightarrow> (cache_key \<times> 'v) list \<Rightarrow> bool"
    and ready :: "'s \<Rightarrow> cache_key \<Rightarrow> bool"
    and okkey :: "cache_key \<Rightarrow> bool"
    and cap :: nat
    and ins :: "cache_key \<Rightarrow> 'v \<Rightarrow> ('s, 'v) comp"
    and look :: "cache_key \<Rightarrow> ('s, 'v option) comp"
  assumes ins: "rep s xs \<Longrightarrow> okkey k \<Longrightarrow> ready s k \<Longrightarrow>
      \<exists>s' v. ins k w s = (Inr v, s') \<and> rep s' (lru_insert cap k w xs)"
    and look: "rep s xs \<Longrightarrow> okkey k \<Longrightarrow> \<exists>s'. look k s = (Inr (map_of xs k), s') \<and> rep s' xs"
    and cap: "rep s xs \<Longrightarrow> length xs \<le> cap \<and> 0 < cap"
    and keys: "rep s xs \<Longrightarrow> distinct (map fst xs)"
begin

lemma map_of_lru_insert_same:
  assumes "distinct (map fst xs)"
  shows "map_of (lru_insert cap k w xs) k = Some w"
proof -
  have "map_of (filter (\<lambda>e. fst e \<noteq> k) xs) k = None" by (auto simp: map_of_eq_None_iff)
  moreover have "k \<notin> fst ` set xs \<Longrightarrow> map_of (if cap \<le> length xs then tl xs else xs) k = None"
    by (force simp: map_of_eq_None_iff dest: set_tlD)
  ultimately show ?thesis by (auto simp: lru_insert_def map_add_def split: option.splits)
qed

lemma lookup_after_insert:
  assumes "rep s xs" "okkey k" "ready s k"
  shows "\<exists>s' v. seqE (ins k w) (look k) s = (Inr (Some w), s') \<and> rep s' (lru_insert cap k w xs)"
proof -
  obtain s1 v where 1: "ins k w s = (Inr v, s1)" "rep s1 (lru_insert cap k w xs)"
    using ins [OF assms] by blast
  with look [OF 1(2) assms(2)] map_of_lru_insert_same [OF keys [OF assms(1)]] show ?thesis
    by (auto simp: comp_simps)
qed

text \<open>Another key keeps its value, unless it was the oldest entry of a full cache.\<close>

lemma lookup_other_after_insert:
  assumes "rep s xs" "okkey k" "ready s k" "okkey j" "j \<noteq> k"
    and "length xs < cap \<or> k \<in> fst ` set xs \<or> (xs \<noteq> [] \<longrightarrow> fst (hd xs) \<noteq> j)"
  shows "\<exists>s'. seqE (ins k w) (look j) s = (Inr (map_of xs j), s')"
proof -
  obtain s1 v where 1: "ins k w s = (Inr v, s1)" "rep s1 (lru_insert cap k w xs)"
    using ins [OF assms(1-3)] by blast
  have f: "map_of (filter (\<lambda>e. fst e \<noteq> k) xs) j = map_of xs j"
    using assms(5) by (induction xs) auto
  have "map_of (lru_insert cap k w xs) j = map_of xs j"
    using assms(5,6) f by (cases xs) (auto simp: lru_insert_def map_add_def split: option.splits)
  with look [OF 1(2) assms(4)] 1(1) show ?thesis by (auto simp: comp_simps)
qed

end

definition cache_state :: "int \<Rightarrow> nat \<Rightarrow> 'v bfs_cache \<Rightarrow> (cache_key \<times> 'v) list \<Rightarrow> bool" where
  "cache_state ty m c xs \<longleftrightarrow> (\<exists>L. cache_rep c L \<and> contents c L = xs) \<and> maxsize c = int m \<and> 0 < m \<and>
     length xs \<le> m \<and> (\<forall>e \<in> set xs. typed (fst e) ty)"

text \<open>An insertion is safe unless it overwrites the oldest of several entries while the
  back link of that entry points to the entry itself.\<close>

definition cache_ready :: "'v bfs_cache \<Rightarrow> cache_key \<Rightarrow> bool" where
  "cache_ready c key \<longleftrightarrow> (case table c of None \<Rightarrow> True
     | Some a \<Rightarrow> table_map c key = Some a \<and> table_end c \<noteq> Some a \<longrightarrow> prv c a \<noteq> Some a)"

lemma contents_distinct: 
  assumes rep: "cache_rep c L" shows "distinct (map fst (contents c L))"
proof -
  have "inj_on (\<lambda>a. fst (case the (cdata c a) of (k, v) \<Rightarrow> (the k, v))) (set L)"
  proof (rule inj_onI)
    fix a b
    assume "a \<in> set L" "b \<in> set L"
      and eq: "fst (case the (cdata c a) of (k, v) \<Rightarrow> (the k, v)) = fst (case the (cdata c b) of (k, v) \<Rightarrow> (the k, v))"
    then show "a = b" using cache_repD(5) [OF rep, of a] cache_repD(5) [OF rep, of b] by auto
  qed
  then show ?thesis using cache_repD(1) [OF rep] by (simp add: contents_def distinct_map o_def)
qed

interpretation oc: object_cache "cache_state ty m" cache_ready "\<lambda>k. typed k ty" m
  "\<lambda>k. insertCache k ty" "\<lambda>k. checkCache k ty False"
proof (unfold_locales, goal_cases)
  case (1 c xs k w)
  then obtain L where L: "cache_rep c L" "contents c L = xs" "maxsize c = int m" "0 < m" "length xs \<le> m"
    "\<forall>e \<in> set xs. typed (fst e) ty"
    by (auto simp: cache_state_def)
  have hd: "\<forall>a ys. L = a # ys \<and> table_map c k = Some a \<and> ys \<noteq> [] \<longrightarrow> prv c a \<noteq> Some a"
  proof (intro allI impI)
    fix a ys assume a: "L = a # ys \<and> table_map c k = Some a \<and> ys \<noteq> []"
    then have "table c = Some a" "table_end c = Some (last ys)" "last ys \<noteq> a"
      using L(1) cache_repD(1) [OF L(1)] last_in_set [of ys] by (auto simp: cache_rep_def ring_def simp del: last_in_set)
    then show "prv c a \<noteq> Some a" using 1(3) a by (auto simp: cache_ready_def)
  qed
  have "\<forall>e \<in> set (contents c L). typed (fst e) ty" "1 \<le> maxsize c" using L by auto
  from insertCache_ok [OF L(1) 1(2) this(2,1) hd, of w] obtain c' L' v where
    c': "insertCache k ty w c = (Inr v, c')" "cache_rep c' L'" "maxsize c' = maxsize c"
      "contents c' L' = lru_insert m k w xs"
    using L(2,3) by auto
  have "length (lru_insert m k w xs) \<le> m"
  proof (cases "k \<in> fst ` set xs")
    case True
    then have "length (filter (\<lambda>e. fst e \<noteq> k) xs) < length xs" by (auto intro: length_filter_less)
    with True L(5) show ?thesis by (simp add: lru_insert_def)
  next
    case False
    with L(4,5) show ?thesis by (auto simp: lru_insert_def)
  qed
  moreover have "\<forall>e \<in> set (lru_insert m k w xs). typed (fst e) ty"
    using L(6) 1(2) by (auto simp: lru_insert_def dest: set_tlD)
  ultimately show ?case using c' L(3,4) by (auto simp: cache_state_def)
next
  case (2 c xs k)
  then obtain L where L: "cache_rep c L" "contents c L = xs" by (auto simp: cache_state_def)
  from checkCache_finds [OF L(1) 2(2)] obtain c' where "checkCache k ty False c = (Inr (map_of xs k), c')"
    "cache_rep c' L" "contents c' L = xs" "maxsize c' = maxsize c" using L(2) by auto
  with 2 show ?case by (auto simp: cache_state_def)
next
  case (3 c xs)
  then show ?case by (simp add: cache_state_def)
next
  case (4 c xs)
  then show ?case by (auto simp: cache_state_def intro: contents_distinct)
qed

section \<open>Properties\<close>

lemma cache_rep_new: "cache_rep (bfs_cache_new m) []" "contents (bfs_cache_new m) [] = []"
  by (simp_all add: cache_rep_def ring_def bfs_cache_new_def cdata_def contents_def)

text \<open>Inserting a list of integer keys.\<close>

primrec insert_all :: "(nat \<times> 'v) list \<Rightarrow> ('v bfs_cache, 'v list) comp" where
  "insert_all [] = retE []"
| "insert_all (e # es) =
     bindE (insertCache (intCacheKey (fst e)) 1 (snd e)) (\<lambda>v.
     bindE (insert_all es) (\<lambda>vs. retE (v # vs)))"

lemmas cache_ops = insertCache_def cache_find_def insert_new_def update_entry_def replace_value_def
  move_to_back_def link_back_def relink_def cache_remove_def add_new_def setAge_def key_at_def deref_def
  assign_cell_def key_cast_def

text \<open>A cache of three entries holding the keys 7 and 2.\<close>

definition demo_ring :: "nat bfs_cache" where
  "demo_ring = snd (insert_all [(7, 10), (2, 20)] (bfs_cache_new 3))"

lemma demo_ring_rep: "cache_rep demo_ring [0, 1]" "prv demo_ring 0 = Some 0" "maxsize demo_ring = 3"
  "contents demo_ring [0, 1] = [(intCacheKey 7, 10), (intCacheKey 2, 20)]"
  "table_map demo_ring (intCacheKey 7) = Some 0" "table_map demo_ring (intCacheKey 2) = Some 1"
  by (auto simp: demo_ring_def cache_ops bfs_cache_new_def bindE_def seqE_def getE_def modE_def guardE_def retE_def
      throwE_def cache_rep_def ring_def cdata_def celldata_def nxt_def prv_def contents_def split: if_splits)

text \<open>C23: The pointer structure implements a bounded list of entries, oldest first: inserting a
  new key appends it and drops the oldest entry when the cache is full, inserting an
  existing key replaces its value and makes it the newest.  The one case left out is
  overwriting the oldest entry while its back link still points to itself.\<close>

lemma insertCache_refines:
  assumes rep: "cache_rep c L" and key: "typed key ty" and m: "1 \<le> maxsize c"
    and tys: "\<forall>e \<in> set (contents c L). typed (fst e) ty"
    and hd: "\<forall>a ys. L = a # ys \<and> table_map c key = Some a \<and> ys \<noteq> [] \<longrightarrow> prv c a \<noteq> Some a"
  shows "\<exists>c' L' v. insertCache key ty val c = (Inr v, c') \<and> cache_rep c' L' \<and> maxsize c' = maxsize c \<and>
    contents c' L' = lru_insert (nat (maxsize c)) key val (contents c L)"
  using assms by (rule insertCache_ok)

lemma insertCache_refines_witness:
  "\<exists>c' L' v. insertCache (intCacheKey 2) 1 42 demo_ring = (Inr v, c') \<and> cache_rep c' L' \<and>
    maxsize c' = maxsize demo_ring \<and>
    contents c' L' = lru_insert (nat (maxsize demo_ring)) (intCacheKey 2) 42 (contents demo_ring [0, 1])"
  by (rule insertCache_refines [OF demo_ring_rep(1)], unfold demo_ring_rep) (auto simp: typed_def demo_ring_rep)

text \<open>A value just inserted is found, and the cache then holds the updated list of entries.\<close>

lemma cache_lookup_after_insert:
  assumes "cache_state ty m c xs" "typed k ty" "cache_ready c k"
  shows "\<exists>c' v. seqE (insertCache k ty w) (checkCache k ty False) c = (Inr (Some w), c') \<and>
    cache_state ty m c' (lru_insert m k w xs)"
  using assms by (rule oc.lookup_after_insert)

lemma cache_lookup_after_insert_witness:
  "\<exists>c' v. seqE (insertCache (stringCacheKey ''a'') 0 True) (checkCache (stringCacheKey ''a'') 0 False)
      (bfs_cache_new 3) = (Inr (Some True), c') \<and>
    cache_state 0 3 c' (lru_insert 3 (stringCacheKey ''a'') True [])"
  by (rule cache_lookup_after_insert)
    (auto simp: cache_state_def typed_def cache_ready_def bfs_cache_new_def
      intro!: exI [of _ "[]"] cache_rep_new [unfolded bfs_cache_new_def])




text \<open>What the corruption leads to: in a cache of three entries, a few evictions after overwriting the
  oldest of two, the front of the ring is an entry whose key was deleted, and using it is a use
  after free.\<close>

lemma insertCache_use_after_free:
  "fst (insert_all [(7, 10), (2, 20), (7, 11), (3, 30), (4, 40), (5, 50), (6, 60 :: nat)] (bfs_cache_new 3)) =
    Inl BfsBadPointer"
  by (simp add: cache_ops bfs_cache_new_def bindE_def seqE_def getE_def modE_def guardE_def retE_def throwE_def)

end
