(* ===== verification/Bfs_Acl.thy ===== *)
theory Bfs_Acl
  imports Bfs_Prelude
begin

text \<open>
  Users and access decisions: \<^verbatim>\<open>src/src/bfs_fs/bfs_acl.cpp\<close> and \<^verbatim>\<open>bfs_usr.cpp\<close>.  A connection
  is identified by the address of its object.  The security association of a user is
  read from the configuration and is not part of the decisions modelled here.
\<close>

unbundle bit_operations_syntax

record user_ctx =
  usr_uid :: nat
  user_send_seq :: nat
  user_recv_seq :: nat

definition BfsUserContext :: "nat \<Rightarrow> user_ctx" where
  "BfsUserContext u = \<lparr> usr_uid = u, user_send_seq = 0, user_recv_seq = 0 \<rparr>"

definition inc_send_seq :: "user_ctx \<Rightarrow> user_ctx" where
  "inc_send_seq u = u \<lparr> user_send_seq := u32 (user_send_seq u + 1) \<rparr>"

definition inc_recv_seq :: "user_ctx \<Rightarrow> user_ctx" where
  "inc_recv_seq u = u \<lparr> user_recv_seq := u32 (user_recv_seq u + 1) \<rparr>"

record acl =
  user_contexts :: "nat \<Rightarrow> user_ctx option"
  next_uid :: nat
  ACLayerInitialized :: bool

definition BFS__S_IRWXU :: nat where
  "BFS__S_IRWXU = 448"

definition BFS__S_IRWXO :: nat where
  "BFS__S_IRWXO = 7"

text \<open>\<^verbatim>\<open>util_ok\<close>: the utility layer starts.  \<^verbatim>\<open>cfg_ok\<close>: the server section of the configuration is a
  structure.\<close>

definition BfsACLayer_init :: "bool \<Rightarrow> (acl, bool) comp" where
  "BfsACLayer_init util_ok =
     (if \<not> util_ok then retE False
      else seqE (modE (\<lambda>a. a \<lparr> next_uid := 1001, ACLayerInitialized := True \<rparr>)) (retE True))"

definition alloc_uid :: "(acl, nat) comp" where
  "alloc_uid = bindE (getE id) (\<lambda>a.
     if ACLayerInitialized a
     then seqE (modE (\<lambda>a. a \<lparr> next_uid := u32 (next_uid a + 1) \<rparr>)) (retE (next_uid a))
     else retE 0)"

text \<open>The new context, and its user id, are made before the map decides whether the connection
  is already known.\<close>

definition add_user_context :: "bool \<Rightarrow> nat \<Rightarrow> (acl, user_ctx option) comp" where
  "add_user_context cfg_ok conn =
     bindE (getE ACLayerInitialized) (\<lambda>init.
     if \<not> init \<or> \<not> cfg_ok then retE None
     else
       bindE alloc_uid (\<lambda>u.
       bindE (getE (\<lambda>a. user_contexts a conn)) (\<lambda>old. case old of
         Some c \<Rightarrow> retE (Some c)
       | None \<Rightarrow>
           seqE (modE (\<lambda>a. a \<lparr> user_contexts := (user_contexts a)(conn \<mapsto> BfsUserContext u) \<rparr>))
           (retE (Some (BfsUserContext u))))))"

definition get_user_context :: "nat \<Rightarrow> acl \<Rightarrow> user_ctx option" where
  "get_user_context conn a = (if ACLayerInitialized a then user_contexts a conn else None)"

definition is_owner :: "acl \<Rightarrow> user_ctx option \<Rightarrow> nat \<Rightarrow> bool" where
  "is_owner a usr owner =
     (ACLayerInitialized a \<and> (case usr of None \<Rightarrow> False | Some u \<Rightarrow> usr_uid u = owner))"

definition owner_access_ok :: "acl \<Rightarrow> user_ctx option \<Rightarrow> nat \<Rightarrow> bool" where
  "owner_access_ok a usr mode = (ACLayerInitialized a \<and> usr \<noteq> None \<and> mode AND BFS__S_IRWXU \<noteq> 0)"

definition world_access_ok :: "acl \<Rightarrow> user_ctx option \<Rightarrow> nat \<Rightarrow> bool" where
  "world_access_ok a usr mode = (ACLayerInitialized a \<and> usr \<noteq> None \<and> mode AND BFS__S_IRWXO \<noteq> 0)"

text \<open>The test every handler of the file system makes before it uses an inode.\<close>

definition access_denied :: "acl \<Rightarrow> user_ctx option \<Rightarrow> nat \<Rightarrow> nat \<Rightarrow> bool" where
  "access_denied a usr owner mode =
     (is_owner a usr owner \<and> \<not> owner_access_ok a usr mode \<or> \<not> world_access_ok a usr mode)"

section \<open>User ids\<close>

text \<open>Connected users have ids from 1001 below the counter, and no two share an id.\<close>

definition acl_inv :: "acl \<Rightarrow> bool" where
  "acl_inv a \<longleftrightarrow> ACLayerInitialized a \<and> 1001 \<le> next_uid a \<and>
     (\<forall>conn u. user_contexts a conn = Some u \<longrightarrow> 1001 \<le> usr_uid u \<and> usr_uid u < next_uid a) \<and>
     (\<forall>c1 c2 u1 u2. user_contexts a c1 = Some u1 \<longrightarrow> user_contexts a c2 = Some u2 \<longrightarrow>
        usr_uid u1 = usr_uid u2 \<longrightarrow> c1 = c2)"

lemma alloc_uid_run:
  "ACLayerInitialized a \<Longrightarrow> alloc_uid a = (Inr (next_uid a), a \<lparr> next_uid := u32 (next_uid a + 1) \<rparr>)"
  by (simp add: alloc_uid_def comp_simps)

section \<open>Properties\<close>

text \<open>C26: Connecting a user keeps the ids of connected users distinct, and the id handed out is one
  no other connection has, as long as the 32-bit counter has not wrapped.\<close>

lemma add_user_context_unique:
  assumes inv: "acl_inv a" and room: "next_uid a + 1 < 2 ^ 32"
  shows "\<exists>u a'. add_user_context True conn a = (Inr (Some u), a') \<and> acl_inv a' \<and>
    get_user_context conn a' = Some u \<and>
    (\<forall>c' u'. c' \<noteq> conn \<longrightarrow> get_user_context c' a' = Some u' \<longrightarrow> usr_uid u' \<noteq> usr_uid u)"
proof -
  have init: "ACLayerInitialized a" using inv by (simp add: acl_inv_def)
  let ?a = "a \<lparr> next_uid := next_uid a + 1 \<rparr>"
  have al: "alloc_uid a = (Inr (next_uid a), ?a)" using alloc_uid_run [OF init] room by simp
  show ?thesis
  proof (cases "user_contexts a conn")
    case None
    let ?u = "BfsUserContext (next_uid a)"
    let ?a' = "?a \<lparr> user_contexts := (user_contexts a)(conn \<mapsto> ?u) \<rparr>"
    have run: "add_user_context True conn a = (Inr (Some ?u), ?a')"
      using al None init by (simp add: add_user_context_def comp_simps)
    have less: "user_contexts a c = Some u \<Longrightarrow> 1001 \<le> usr_uid u \<and> usr_uid u < next_uid a" for c u
      using inv by (auto simp: acl_inv_def)
    have uid: "usr_uid ?u = next_uid a" by (simp add: BfsUserContext_def)
    have "acl_inv ?a'"
      using inv less uid unfolding acl_inv_def by (auto split: if_splits) (force dest: less)+
    moreover have "c' \<noteq> conn \<Longrightarrow> get_user_context c' ?a' = Some u' \<Longrightarrow> usr_uid u' \<noteq> usr_uid ?u" for c' u'
      using less [of c' u'] uid by (auto simp: get_user_context_def split: if_splits)
    ultimately show ?thesis
      using run init by (intro exI [of _ ?u] exI [of _ ?a']) (simp add: get_user_context_def)
  next
    case (Some u)
    have run: "add_user_context True conn a = (Inr (Some u), ?a)"
      using al Some init by (simp add: add_user_context_def comp_simps)
    have "acl_inv ?a" using inv by (auto simp: acl_inv_def less_Suc_eq)
    moreover have "c' \<noteq> conn \<Longrightarrow> get_user_context c' ?a = Some u' \<Longrightarrow> usr_uid u' \<noteq> usr_uid u" for c' u'
      using inv Some by (auto simp: acl_inv_def get_user_context_def split: if_splits)
    ultimately show ?thesis
      using run Some init by (intro exI [of _ u] exI [of _ ?a]) (simp add: get_user_context_def)
  qed
qed

definition demo_acl :: acl where
  "demo_acl = \<lparr> user_contexts = (\<lambda>_. None), next_uid = 1001, ACLayerInitialized = True \<rparr>"

lemma add_user_context_unique_witness:
  "\<exists>u a'. add_user_context True 5 demo_acl = (Inr (Some u), a') \<and> acl_inv a' \<and>
    get_user_context 5 a' = Some u"
proof -
  have "acl_inv demo_acl" "next_uid demo_acl + 1 < 2 ^ 32" by (simp_all add: demo_acl_def acl_inv_def)
  from add_user_context_unique [OF this, of 5] show ?thesis by blast
qed

end
