(* ===== verification/Bfs_OnDisk.thy ===== *)
theory Bfs_OnDisk
  imports Bfs_Prelude Bfs_Util
begin

text \<open>
  The structures of \<^verbatim>\<open>src/src/bfs_fs/bfs_core.h\<close> and \<^verbatim>\<open>bfs_core.cpp\<close> that are stored in
  blocks: the superblock, the inode bitmap, inodes, directory entries and indirect
  blocks, with their \<^verbatim>\<open>serialize\<close> and \<^verbatim>\<open>deserialize\<close> methods, the layout constants, and the
  block counter of the superblock.
\<close>

section \<open>Layout\<close>

definition BLK_SZ :: nat where "BLK_SZ = 4096"
definition BLK_SZ_BITS :: nat where "BLK_SZ_BITS = BLK_SZ * 8"
definition BFS_SB_MAGIC :: nat where "BFS_SB_MAGIC = 12379739850550389709"
definition NUM_INODES :: nat where "NUM_INODES = 100000"
definition SB_REL_START_BLK_NUM :: nat where "SB_REL_START_BLK_NUM = 0"
definition MT_REL_START_BLK_NUM :: nat where "MT_REL_START_BLK_NUM = SB_REL_START_BLK_NUM + 1"
definition MAX_FILE_NAME_LEN :: nat where "MAX_FILE_NAME_LEN = 255"
definition MAX_OPEN_FILES :: nat where "MAX_OPEN_FILES = 1000000"
definition START_FD :: nat where "START_FD = 3"

definition NULL_INO :: nat where "NULL_INO = 0"
definition ROOT_INO :: nat where "ROOT_INO = 2"
definition IBITMAP_INO :: nat where "IBITMAP_INO = 4"
definition ITABLE_INO :: nat where "ITABLE_INO = 6"
definition JOURNAL_INO :: nat where "JOURNAL_INO = 7"
definition FIRST_UNRESERVED_INO :: nat where "FIRST_UNRESERVED_INO = 8"
definition NUM_DIRECT_BLOCKS :: nat where "NUM_DIRECT_BLOCKS = 12"
definition NUM_INODE_IBLKS :: nat where "NUM_INODE_IBLKS = NUM_DIRECT_BLOCKS + 1"
definition NUM_IBITMAP_BLOCKS :: nat where "NUM_IBITMAP_BLOCKS = (NUM_INODES - 1) div BLK_SZ_BITS + 1"
definition INODE_SZ :: nat where "INODE_SZ = 256"
definition NUM_INODES_PER_BLOCK :: nat where "NUM_INODES_PER_BLOCK = BLK_SZ div INODE_SZ"
definition NUM_UNRES_INODES :: nat where "NUM_UNRES_INODES = NUM_INODES - FIRST_UNRESERVED_INO"
definition NUM_ITAB_BLOCKS :: nat where "NUM_ITAB_BLOCKS = (NUM_INODES - 1) div NUM_INODES_PER_BLOCK + 1"
definition DIRENT_SZ :: nat where "DIRENT_SZ = MAX_FILE_NAME_LEN + 8"
definition NUM_DIRENTS_PER_BLOCK :: nat where "NUM_DIRENTS_PER_BLOCK = BLK_SZ div DIRENT_SZ"
definition NUM_BLKS_PER_IB :: nat where "NUM_BLKS_PER_IB = BLK_SZ div 8"

text \<open>The sizes of the IV and of the tag are those of the key; \<^verbatim>\<open>n\<close> is the number of blocks of the
  cluster.\<close>

definition BFS_IV_LEN :: nat where "BFS_IV_LEN = 12"
definition BFS_MAC_LEN :: nat where "BFS_MAC_LEN = 16"
definition META_PER_BLK :: nat where "META_PER_BLK = BLK_SZ div (BFS_IV_LEN + BFS_MAC_LEN)"
definition BLK_META_BLK_LOC :: "nat \<Rightarrow> nat" where "BLK_META_BLK_LOC b = b div META_PER_BLK"
definition BLK_META_BLK_IDX_LOC :: "nat \<Rightarrow> nat" where "BLK_META_BLK_IDX_LOC b = b mod META_PER_BLK"
definition NUM_META_BLOCKS :: "nat \<Rightarrow> nat" where "NUM_META_BLOCKS n = n div META_PER_BLK + 1"
definition IBM_REL_START_BLK_NUM :: nat where "IBM_REL_START_BLK_NUM = MT_REL_START_BLK_NUM + 1"
definition ITAB_REL_START_BLK_NUM :: nat where
  "ITAB_REL_START_BLK_NUM = IBM_REL_START_BLK_NUM + NUM_IBITMAP_BLOCKS"
definition METADATA_REL_START_BLK_NUM :: nat where
  "METADATA_REL_START_BLK_NUM = ITAB_REL_START_BLK_NUM + NUM_ITAB_BLOCKS"
definition DATA_REL_START_BLK_NUM :: "nat \<Rightarrow> nat" where
  "DATA_REL_START_BLK_NUM n = METADATA_REL_START_BLK_NUM + NUM_META_BLOCKS n"
definition NUM_DATA_BLOCKS :: "nat \<Rightarrow> nat" where
  "NUM_DATA_BLOCKS n =
     sub64 (sub64 (sub64 (sub64 (sub64 n NUM_IBITMAP_BLOCKS) NUM_ITAB_BLOCKS) (NUM_META_BLOCKS n)) 1) 1"

definition IBM_ABSOLUTE_BLK_LOC :: "nat \<Rightarrow> nat" where
  "IBM_ABSOLUTE_BLK_LOC ino = IBM_REL_START_BLK_NUM + ino div BLK_SZ_BITS"
definition ITAB_ABSOLUTE_BLK_LOC :: "nat \<Rightarrow> nat" where
  "ITAB_ABSOLUTE_BLK_LOC ino = ITAB_REL_START_BLK_NUM + ino div NUM_INODES_PER_BLOCK"
definition ITAB_ABSOLUTE_BLK_OFF :: "nat \<Rightarrow> nat" where
  "ITAB_ABSOLUTE_BLK_OFF ino = (ino mod NUM_INODES_PER_BLOCK) * INODE_SZ"
definition DENTRY_ABSOLUTE_BLK_OFF :: "nat \<Rightarrow> nat" where
  "DENTRY_ABSOLUTE_BLK_OFF idx = idx * DIRENT_SZ"

lemmas layout_defs = BLK_SZ_def BLK_SZ_BITS_def NUM_INODES_def SB_REL_START_BLK_NUM_def
  MT_REL_START_BLK_NUM_def MAX_FILE_NAME_LEN_def NULL_INO_def ROOT_INO_def IBITMAP_INO_def ITABLE_INO_def
  JOURNAL_INO_def FIRST_UNRESERVED_INO_def NUM_DIRECT_BLOCKS_def NUM_INODE_IBLKS_def NUM_IBITMAP_BLOCKS_def
  INODE_SZ_def NUM_INODES_PER_BLOCK_def NUM_UNRES_INODES_def NUM_ITAB_BLOCKS_def DIRENT_SZ_def
  NUM_DIRENTS_PER_BLOCK_def NUM_BLKS_PER_IB_def BFS_IV_LEN_def BFS_MAC_LEN_def META_PER_BLK_def
  BLK_META_BLK_LOC_def BLK_META_BLK_IDX_LOC_def NUM_META_BLOCKS_def IBM_REL_START_BLK_NUM_def
  ITAB_REL_START_BLK_NUM_def METADATA_REL_START_BLK_NUM_def DATA_REL_START_BLK_NUM_def

section \<open>Fields\<close>

text \<open>Consecutive \<^verbatim>\<open>memcpy\<close>s of integer variables to and from a block, advancing the offset.\<close>

fun put_fields :: "(nat \<times> nat) list \<Rightarrow> nat \<Rightarrow> byte list \<Rightarrow> bfs_error + (nat \<times> byte list)" where
  "put_fields [] off b = Inr (off, b)"
| "put_fields ((n, v) # fs) off b =
     (if off + n \<le> length b then put_fields fs (off + n) (blit off (le_bytes n v) b)
      else Inl BfsOutOfBounds)"

fun get_fields :: "nat list \<Rightarrow> nat \<Rightarrow> byte list \<Rightarrow> bfs_error + (nat list \<times> nat)" where
  "get_fields [] off b = Inr ([], off)"
| "get_fields (n # ns) off b =
     (if off + n \<le> length b
      then bindS (get_fields ns (off + n) b) (\<lambda>(vs, off'). Inr (le_val (chunk off n b) # vs, off'))
      else Inl BfsOutOfBounds)"

section \<open>Superblock\<close>

record superblock =
  magic :: nat
  blk_sz :: nat
  ino_sz :: nat
  no_blocks :: nat
  no_dblocks :: nat
  no_inodes :: nat
  no_dblocks_free :: nat
  no_inodes_free :: nat
  first_data_blk_loc :: nat
  next_vbid :: nat
  root_ino :: nat
  ibm_ino :: nat
  itab_ino :: nat
  journal_ino :: nat
  first_unresv_ino :: nat
  sb_state :: nat
  sb_dirty :: bool

text \<open>The constructor leaves \<^verbatim>\<open>no_dblocks\<close> as it finds it.\<close>

definition SuperBlock :: "nat \<Rightarrow> superblock" where
  "SuperBlock garbage = \<lparr> magic = 0, blk_sz = 0, ino_sz = 0, no_blocks = 0, no_dblocks = garbage,
     no_inodes = 0, no_dblocks_free = 0, no_inodes_free = 0, first_data_blk_loc = 0, next_vbid = 0,
     root_ino = 0, ibm_ino = 0, itab_ino = 0, journal_ino = 0, first_unresv_ino = 0, sb_state = 0,
     sb_dirty = True \<rparr>"

definition set_magic :: "nat \<Rightarrow> superblock \<Rightarrow> superblock" where
  "set_magic m sb = sb \<lparr> magic := m, sb_dirty := True \<rparr>"

definition set_sb_params :: "nat \<Rightarrow> nat \<Rightarrow> nat \<Rightarrow> nat \<Rightarrow> nat \<Rightarrow> nat \<Rightarrow> nat \<Rightarrow> nat \<Rightarrow> superblock \<Rightarrow> superblock" where
  "set_sb_params a b c d e i j k sb = sb \<lparr> blk_sz := a, ino_sz := b, no_blocks := c, no_dblocks := d,
     no_inodes := e, no_dblocks_free := i, no_inodes_free := j, first_data_blk_loc := k, next_vbid := k,
     sb_dirty := True \<rparr>"

definition set_no_inodes_free :: "nat \<Rightarrow> superblock \<Rightarrow> superblock" where
  "set_no_inodes_free f sb = sb \<lparr> no_inodes_free := f, sb_dirty := True \<rparr>"

definition set_reserved_inos :: "nat \<Rightarrow> nat \<Rightarrow> nat \<Rightarrow> nat \<Rightarrow> nat \<Rightarrow> superblock \<Rightarrow> superblock" where
  "set_reserved_inos a c d e f sb = sb \<lparr> root_ino := a, ibm_ino := c, itab_ino := d, journal_ino := e,
     first_unresv_ino := f, sb_dirty := True \<rparr>"

definition set_state :: "nat \<Rightarrow> superblock \<Rightarrow> superblock" where
  "set_state s sb = sb \<lparr> sb_state := s, sb_dirty := True \<rparr>"

definition sb_serialize :: "superblock \<Rightarrow> nat \<Rightarrow> byte list \<Rightarrow> bfs_error + (nat \<times> byte list)" where
  "sb_serialize sb off_start b =
     bindS (put_fields [(8, magic sb), (8, blk_sz sb), (8, ino_sz sb), (8, no_blocks sb), (8, no_dblocks sb),
       (8, no_inodes sb), (8, no_dblocks_free sb), (8, no_inodes_free sb), (8, first_data_blk_loc sb),
       (8, next_vbid sb), (8, root_ino sb), (8, ibm_ino sb), (8, itab_ino sb), (8, journal_ino sb),
       (8, first_unresv_ino sb), (8, sb_state sb)] off_start b) (\<lambda>(off, b'). Inr (off - off_start, b'))"

definition sb_of :: "nat list \<Rightarrow> superblock" where
  "sb_of vs = \<lparr> magic = vs ! 0, blk_sz = vs ! 1, ino_sz = vs ! 2, no_blocks = vs ! 3, no_dblocks = vs ! 4,
       no_inodes = vs ! 5, no_dblocks_free = vs ! 6, no_inodes_free = vs ! 7, first_data_blk_loc = vs
       ! 8, next_vbid = vs ! 9, root_ino = vs ! 10, ibm_ino = vs ! 11, itab_ino = vs ! 12, journal_ino
       = vs ! 13, first_unresv_ino = vs ! 14, sb_state = vs ! 15,
       sb_dirty = False \<rparr>"

definition sb_deserialize :: "nat \<Rightarrow> byte list \<Rightarrow> bfs_error + (superblock \<times> nat)" where
  "sb_deserialize off_start b =
     bindS (get_fields (replicate 16 8) off_start b) (\<lambda>(vs, off). Inr (sb_of vs, off - off_start))"

text \<open>Blocks are numbered by a counter; 0 means that no block is left.\<close>

definition alloc_blk :: "superblock \<Rightarrow> nat \<times> superblock" where
  "alloc_blk sb =
     (if no_dblocks_free sb = 0 then (0, sb)
      else (next_vbid sb, sb \<lparr> no_dblocks_free := no_dblocks_free sb - 1, next_vbid := u64 (next_vbid sb + 1) \<rparr>))"

definition dealloc_blk :: "nat \<Rightarrow> nat \<Rightarrow> superblock \<Rightarrow> bool \<times> superblock" where
  "dealloc_blk n b sb =
     (if b \<le> DATA_REL_START_BLK_NUM n \<or> no_dblocks_free sb = no_dblocks sb then (False, sb)
      else (True, sb \<lparr> no_dblocks_free := u64 (no_dblocks_free sb + 1) \<rparr>))"

section \<open>Inode bitmap\<close>

type_synonym ibitmap = "byte list list"

definition append_ibm_blk :: "byte list \<Rightarrow> ibitmap \<Rightarrow> ibitmap" where
  "append_ibm_blk b ibm_blks = ibm_blks @ [b]"

definition ibm_set_bit :: "nat \<Rightarrow> ibitmap \<Rightarrow> bfs_error + ibitmap" where
  "ibm_set_bit b ibm_blks =
     (let i = b div BLK_SZ_BITS in
      if i < length ibm_blks
      then bindS (bfs_set_bit (b mod BLK_SZ_BITS) (ibm_blks ! i)) (\<lambda>blk. Inr (ibm_blks[i := blk]))
      else Inl BfsOutOfBounds)"

definition ibm_clear_bit :: "nat \<Rightarrow> ibitmap \<Rightarrow> bfs_error + ibitmap" where
  "ibm_clear_bit b ibm_blks =
     (let i = b div BLK_SZ_BITS in
      if i < length ibm_blks
      then bindS (bfs_clear_bit (b mod BLK_SZ_BITS) (ibm_blks ! i)) (\<lambda>blk. Inr (ibm_blks[i := blk]))
      else Inl BfsOutOfBounds)"

section \<open>Inodes\<close>

record inode =
  i_no :: nat
  i_uid :: nat
  i_mode :: nat
  ref_cnt :: nat
  atime :: nat
  mtime :: nat
  ctime :: nat
  i_size :: nat
  i_links_count :: nat
  i_blks :: "nat list"
  i_dirty :: bool

definition Inode :: "nat \<Rightarrow> nat \<Rightarrow> nat \<Rightarrow> nat \<Rightarrow> nat \<Rightarrow> nat \<Rightarrow> nat \<Rightarrow> nat \<Rightarrow> nat \<Rightarrow> inode" where
  "Inode ino uid md rc at mt ct sz links = \<lparr> i_no = ino, i_uid = uid, i_mode = md, ref_cnt = rc, atime = at,
     mtime = mt, ctime = ct, i_size = sz, i_links_count = links, i_blks = replicate NUM_INODE_IBLKS 0,
     i_dirty = True \<rparr>"

text \<open>\<^verbatim>\<open>clear\<close> keeps the owner and the dirty flag.\<close>

definition inode_clear :: "inode \<Rightarrow> inode" where
  "inode_clear i = i \<lparr> i_no := 0, i_mode := 0, ref_cnt := 0, atime := 0, mtime := 0, ctime := 0, i_size := 0,
     i_links_count := 0, i_blks := replicate NUM_INODE_IBLKS 0 \<rparr>"

definition set_i_no :: "nat \<Rightarrow> inode \<Rightarrow> inode" where
  "set_i_no v i = i \<lparr> i_no := v, i_dirty := True \<rparr>"

definition set_mode :: "nat \<Rightarrow> inode \<Rightarrow> inode" where
  "set_mode v i = i \<lparr> i_mode := v, i_dirty := True \<rparr>"

definition set_ref_cnt :: "nat \<Rightarrow> inode \<Rightarrow> inode" where
  "set_ref_cnt v i = i \<lparr> ref_cnt := v, i_dirty := True \<rparr>"

definition set_size :: "nat \<Rightarrow> inode \<Rightarrow> inode" where
  "set_size v i = i \<lparr> i_size := v, i_dirty := True \<rparr>"

definition set_i_links :: "nat \<Rightarrow> inode \<Rightarrow> inode" where
  "set_i_links v i = i \<lparr> i_links_count := v, i_dirty := True \<rparr>"

definition set_i_blk :: "nat \<Rightarrow> nat \<Rightarrow> inode \<Rightarrow> bfs_error + inode" where
  "set_i_blk idx vbid i =
     (if idx < length (i_blks i) then Inr (i \<lparr> i_blks := (i_blks i)[idx := vbid], i_dirty := True \<rparr>)
      else Inl StdOutOfRange)"

definition inode_serialize :: "inode \<Rightarrow> nat \<Rightarrow> byte list \<Rightarrow> bfs_error + (nat \<times> byte list)" where
  "inode_serialize i off_start b =
     bindS (put_fields [(8, i_no i), (4, i_uid i), (4, i_mode i), (8, ref_cnt i), (8, atime i), (8, mtime i),
       (8, ctime i), (8, i_size i), (8, i_links_count i)] off_start b) (\<lambda>(off, b1).
     if length (i_blks i) \<noteq> NUM_INODE_IBLKS then Inl BfsAbort
     else bindS (put_fields (map (Pair 8) (i_blks i)) off b1) (\<lambda>(off', b2). Inr (off' - off_start, b2)))"

definition inode_deserialize :: "nat \<Rightarrow> byte list \<Rightarrow> bfs_error + (inode \<times> nat)" where
  "inode_deserialize off_start b =
     bindS (get_fields [8, 4, 4, 8, 8, 8, 8, 8, 8] off_start b) (\<lambda>(vs, off).
     bindS (get_fields (replicate NUM_INODE_IBLKS 8) off b) (\<lambda>(blks, off').
     Inr (\<lparr> i_no = vs ! 0, i_uid = vs ! 1, i_mode = vs ! 2, ref_cnt = vs ! 3, atime = vs ! 4, mtime = vs ! 5,
            ctime = vs ! 6, i_size = vs ! 7, i_links_count = vs ! 8, i_blks = blks, i_dirty = False \<rparr>,
          off' - off_start)))"

section \<open>Directory entries\<close>

record direntry =
  de_name :: string
  de_ino :: nat
  blk_loc :: nat
  blk_idx_loc :: nat
  de_dirty :: bool

definition DirEntry :: "string \<Rightarrow> nat \<Rightarrow> nat \<Rightarrow> nat \<Rightarrow> direntry" where
  "DirEntry nm i b_loc idx = \<lparr> de_name = nm, de_ino = i, blk_loc = b_loc, blk_idx_loc = idx, de_dirty = True \<rparr>"

definition set_de_name :: "string \<Rightarrow> direntry \<Rightarrow> direntry" where
  "set_de_name d de = de \<lparr> de_name := d, de_dirty := True \<rparr>"

definition set_ino :: "nat \<Rightarrow> direntry \<Rightarrow> direntry" where
  "set_ino i de = de \<lparr> de_ino := i, de_dirty := True \<rparr>"

definition set_blk_loc :: "nat \<Rightarrow> direntry \<Rightarrow> direntry" where
  "set_blk_loc v de = de \<lparr> blk_loc := v, de_dirty := True \<rparr>"

definition set_blk_idx_loc :: "nat \<Rightarrow> direntry \<Rightarrow> direntry" where
  "set_blk_idx_loc v de = de \<lparr> blk_idx_loc := v, de_dirty := True \<rparr>"

definition byte_of_char :: "char \<Rightarrow> byte" where
  "byte_of_char c = word_of_nat (of_char c)"

definition char_of_byte :: "byte \<Rightarrow> char" where
  "char_of_byte b = char_of (unat b)"

definition de_serialize :: "direntry \<Rightarrow> nat \<Rightarrow> byte list \<Rightarrow> bfs_error + (nat \<times> byte list)" where
  "de_serialize de off_start b =
     bindS (put_fields [(8, de_ino de)] off_start b) (\<lambda>(off, b1).
     let nm = map byte_of_char (de_name de) in
     if \<not> (length nm + 1 \<le> MAX_FILE_NAME_LEN) \<or> \<not> (8 + length nm + 1 \<le> DIRENT_SZ) then Inl BfsAbort
     else if off + (DIRENT_SZ - 8) \<le> length b1
     then Inr (DIRENT_SZ, blit off (nm @ replicate (DIRENT_SZ - 8 - length nm) 0) b1)
     else Inl BfsOutOfBounds)"

text \<open>\<^verbatim>\<open>std::string (p)\<close> reads to the first zero byte; without one it reads past the array.\<close>

definition de_deserialize :: "nat \<Rightarrow> byte list \<Rightarrow> bfs_error + ((string \<times> nat) \<times> nat)" where
  "de_deserialize off_start b =
     bindS (get_fields [8] off_start b) (\<lambda>(vs, off).
     if off + MAX_FILE_NAME_LEN \<le> length b then
       (let p = chunk off MAX_FILE_NAME_LEN b in
        if 0 \<in> set p then Inr ((map char_of_byte (takeWhile (\<lambda>c. c \<noteq> 0) p), vs ! 0), off + MAX_FILE_NAME_LEN - off_start)
        else Inl BfsOutOfBounds)
     else Inl BfsOutOfBounds)"

section \<open>Indirect blocks\<close>

type_synonym indirect = "nat list"

definition IndirectBlock :: indirect where
  "IndirectBlock = replicate NUM_BLKS_PER_IB 0"

definition set_indirect_loc :: "nat \<Rightarrow> nat \<Rightarrow> indirect \<Rightarrow> bfs_error + indirect" where
  "set_indirect_loc idx vbid locs = (if idx < length locs then Inr (locs[idx := vbid]) else Inl StdOutOfRange)"

definition ib_serialize :: "indirect \<Rightarrow> nat \<Rightarrow> byte list \<Rightarrow> bfs_error + (nat \<times> byte list)" where
  "ib_serialize locs off_start b =
     (if \<not> length locs \<le> NUM_BLKS_PER_IB then Inl BfsAbort
      else bindS (put_fields (map (Pair 8) locs) off_start b) (\<lambda>(off, b1).
        if length locs < NUM_BLKS_PER_IB - 1
        then bindS (put_fields [(8, 0)] off b1) (\<lambda>(_, b2). Inr (off - off_start, b2))
        else Inr (off - off_start, b1)))"

definition ib_deserialize :: "nat \<Rightarrow> byte list \<Rightarrow> bfs_error + (indirect \<times> nat)" where
  "ib_deserialize off_start b =
     bindS (get_fields (replicate NUM_BLKS_PER_IB 8) off_start b) (\<lambda>(vs, off). Inr (vs, off - off_start))"

section \<open>Open files\<close>

record openfile =
  of_ino :: nat
  of_offset :: nat

definition OpenFile :: "nat \<Rightarrow> nat \<Rightarrow> openfile" where
  "OpenFile i off = \<lparr> of_ino = i, of_offset = off \<rparr>"

definition set_offset :: "nat \<Rightarrow> openfile \<Rightarrow> openfile" where
  "set_offset v f = f \<lparr> of_offset := v \<rparr>"

section \<open>Encoding and decoding\<close>

lemma layout_vals:
  "BLK_SZ = 4096" "BLK_SZ_BITS = 32768" "NUM_INODE_IBLKS = 13" "NUM_BLKS_PER_IB = 512" "DIRENT_SZ = 263"
  "NUM_DIRENTS_PER_BLOCK = 15" "NUM_INODES_PER_BLOCK = 16" "INODE_SZ = 256" "MAX_FILE_NAME_LEN = 255"
  "NUM_IBITMAP_BLOCKS = 4" "NUM_ITAB_BLOCKS = 6250" "META_PER_BLK = 146" "IBM_REL_START_BLK_NUM = 2"
  "ITAB_REL_START_BLK_NUM = 6" "METADATA_REL_START_BLK_NUM = 6256"
  by (simp_all add: layout_defs)


lemma blit_blit:
  "off + length xs + length ys \<le> length b \<Longrightarrow>
    blit (off + length xs) ys (blit off xs b) = blit off (xs @ ys) b"
proof -
  assume fit: "off + length xs + length ys \<le> length b"
  then have "length (take off b) = off" by simp
  with fit show ?thesis by (simp add: blit_def drop_drop ac_simps)
qed

definition enc_fields :: "(nat \<times> nat) list \<Rightarrow> byte list" where
  "enc_fields fs = concat (map (\<lambda>(n, v). le_bytes n v) fs)"

lemma length_enc_fields [simp]: "length (enc_fields fs) = sum_list (map fst fs)"
  by (induction fs) (auto simp: enc_fields_def)

lemma enc_fields_simps [simp]:
  "enc_fields [] = []" "enc_fields ((n, v) # fs) = le_bytes n v @ enc_fields fs"
  "enc_fields (xs @ ys) = enc_fields xs @ enc_fields ys"
  by (simp_all add: enc_fields_def)

lemma put_fields_ok:
  "off + sum_list (map fst fs) \<le> length b \<Longrightarrow>
    put_fields fs off b = Inr (off + sum_list (map fst fs), blit off (enc_fields fs) b)"
proof (induction fs arbitrary: off b)
  case Nil
  then show ?case by (simp add: blit_def)
next
  case (Cons f fs)
  obtain n v where f: "f = (n, v)" by (cases f)
  have "off + n + sum_list (map fst fs) \<le> length (blit off (le_bytes n v) b)"
    using Cons.prems f by simp
  from Cons.IH [OF this] Cons.prems blit_blit [of off "le_bytes n v" "enc_fields fs" b] show ?case
    by (simp add: f add.assoc)
qed

lemma chunk_add: "chunk off (m + n) b = chunk off m b @ chunk (off + m) n b"
  by (simp add: chunk_def take_add add.commute)

lemma get_fields_ok:
  "off + sum_list (map fst fs) \<le> length b \<Longrightarrow> chunk off (sum_list (map fst fs)) b = enc_fields fs \<Longrightarrow>
    get_fields (map fst fs) off b = Inr (map (\<lambda>(n, v). v mod 256 ^ n) fs, off + sum_list (map fst fs))"
proof (induction fs arbitrary: off)
  case (Cons f fs)
  obtain n v where f: "f = (n, v)" by (cases f)
  have "chunk off n b @ chunk (off + n) (sum_list (map fst fs)) b = le_bytes n v @ enc_fields fs"
    using Cons.prems(2) by (simp add: f chunk_add)
  moreover have "length (chunk off n b) = n" using Cons.prems(1) by (simp add: f)
  ultimately have c: "chunk off n b = le_bytes n v" "chunk (off + n) (sum_list (map fst fs)) b = enc_fields fs"
    by (auto simp: append_eq_append_conv)
  have "off + n + sum_list (map fst fs) \<le> length b" using Cons.prems(1) f by simp
  from Cons.IH [OF this c(2)] c(1) Cons.prems(1) show ?case by (simp add: f add.assoc)
qed simp

section \<open>The contract of a stored structure\<close>

text \<open>\<^verbatim>\<open>enc\<close> are the bytes of a value, \<^verbatim>\<open>view\<close> what is read back of it.\<close>

locale codec =
  fixes ser :: "'a \<Rightarrow> nat \<Rightarrow> byte list \<Rightarrow> bfs_error + (nat \<times> byte list)"
    and des :: "nat \<Rightarrow> byte list \<Rightarrow> bfs_error + ('b \<times> nat)"
    and enc :: "'a \<Rightarrow> byte list"
    and view :: "'a \<Rightarrow> 'b"
    and wf :: "'a \<Rightarrow> bool"
    and sz :: nat
  assumes len: "wf x \<Longrightarrow> length (enc x) = sz"
    and ser: "wf x \<Longrightarrow> off + sz \<le> length b \<Longrightarrow> ser x off b = Inr (sz, blit off (enc x) b)"
    and des: "wf x \<Longrightarrow> off + sz \<le> length b \<Longrightarrow> chunk off sz b = enc x \<Longrightarrow> des off b = Inr (view x, sz)"
begin

lemma roundtrip:
  assumes "wf x" "off + sz \<le> length b"
  shows "\<exists>b'. ser x off b = Inr (sz, b') \<and> length b' = length b \<and> des off b' = Inr (view x, sz)"
proof -
  define b' where "b' = blit off (enc x) b"
  have "length b' = length b" "chunk off sz b' = enc x"
    using assms(2) len [OF assms(1)] by (simp_all add: b'_def buf_simps)
  with ser [OF assms] des [OF assms(1)] assms(2) show ?thesis
    by (intro exI [of _ b']) (simp add: b'_def)
qed

text \<open>Structures in the slots of a block do not disturb each other.\<close>

lemma slots:
  assumes "wf x" "wf y" "i \<noteq> j" "sz \<le> st" "Suc i * st \<le> length b" "Suc j * st \<le> length b"
    and "chunk (j * st) sz b = enc y"
  shows "\<exists>b'. ser x (i * st) b = Inr (sz, b') \<and> length b' = length b \<and>
    chunk (i * st) sz b' = enc x \<and> chunk (j * st) sz b' = enc y \<and>
    des (i * st) b' = Inr (view x, sz) \<and> des (j * st) b' = Inr (view y, sz)"
proof -
  have fit: "i * st + sz \<le> length b" "j * st + sz \<le> length b" using assms(4-6) by auto
  have "j * st + sz \<le> i * st \<or> i * st + sz \<le> j * st"
  proof (cases "i < j")
    case True
    then have "Suc i * st \<le> j * st" by (intro mult_le_mono1) simp
    with assms(4) show ?thesis by simp
  next
    case False
    with assms(3) have "Suc j * st \<le> i * st" by (intro mult_le_mono1) simp
    with assms(4) show ?thesis by simp
  qed
  moreover define b' where "b' = blit (i * st) (enc x) b"
  ultimately have "length b' = length b" "chunk (i * st) sz b' = enc x" "chunk (j * st) sz b' = enc y"
    using fit len [OF assms(1)] assms(7) by (simp_all add: buf_simps)
  with ser [OF assms(1) fit(1)] des [OF assms(1)] des [OF assms(2)] fit show ?thesis
    by (intro exI [of _ b']) (simp add: b'_def)
qed

end

definition sb_wf :: "superblock \<Rightarrow> bool" where
  "sb_wf sb \<longleftrightarrow> (\<forall>f \<in> {magic, blk_sz, ino_sz, no_blocks, no_dblocks, no_inodes, no_dblocks_free, no_inodes_free,
     first_data_blk_loc, next_vbid, root_ino, ibm_ino, itab_ino, journal_ino, first_unresv_ino, sb_state}.
     f sb < 2 ^ 64)"

definition sb_fields :: "superblock \<Rightarrow> (nat \<times> nat) list" where
  "sb_fields sb = [(8, magic sb), (8, blk_sz sb), (8, ino_sz sb), (8, no_blocks sb), (8, no_dblocks sb),
       (8, no_inodes sb), (8, no_dblocks_free sb), (8, no_inodes_free sb), (8, first_data_blk_loc sb),
       (8, next_vbid sb), (8, root_ino sb), (8, ibm_ino sb), (8, itab_ino sb), (8, journal_ino sb),
       (8, first_unresv_ino sb), (8, sb_state sb)]"

lemma sb_fields_sum [simp]: "sum_list (map fst (sb_fields sb)) = 128"
  by (simp add: sb_fields_def)

lemma sb_of_fields: "sb_wf sb \<Longrightarrow> sb_of (map (\<lambda>(n, v). v mod 256 ^ n) (sb_fields sb)) = sb \<lparr> sb_dirty := False \<rparr>"
  by (simp add: sb_of_def sb_fields_def sb_wf_def)

interpretation sbc: codec sb_serialize sb_deserialize "\<lambda>sb. enc_fields (sb_fields sb)"
  "\<lambda>sb. sb \<lparr> sb_dirty := False \<rparr>" sb_wf 128
proof (unfold_locales, goal_cases)
  case (1 x)
  then show ?case by simp
next
  case (2 x off b)
  then show ?case using put_fields_ok [of off "sb_fields x" b]
    unfolding sb_serialize_def sb_fields_def [symmetric] by simp
next
  case (3 x off b)
  have "replicate 16 8 = map fst (sb_fields x)" by (simp add: sb_fields_def numeral_eq_Suc)
  with 3 get_fields_ok [of off "sb_fields x" b] sb_of_fields [of x] show ?case
    unfolding sb_deserialize_def by simp
qed

definition inode_wf :: "inode \<Rightarrow> bool" where
  "inode_wf i \<longleftrightarrow> i_no i < 2 ^ 64 \<and> i_uid i < 2 ^ 32 \<and> i_mode i < 2 ^ 32 \<and> ref_cnt i < 2 ^ 64 \<and>
     atime i < 2 ^ 64 \<and> mtime i < 2 ^ 64 \<and> ctime i < 2 ^ 64 \<and> i_size i < 2 ^ 64 \<and> i_links_count i < 2 ^ 64 \<and>
     length (i_blks i) = NUM_INODE_IBLKS \<and> (\<forall>v \<in> set (i_blks i). v < 2 ^ 64)"

definition inode_head :: "inode \<Rightarrow> (nat \<times> nat) list" where
  "inode_head i = [(8, i_no i), (4, i_uid i), (4, i_mode i), (8, ref_cnt i), (8, atime i), (8, mtime i),
       (8, ctime i), (8, i_size i), (8, i_links_count i)]"

definition inode_enc :: "inode \<Rightarrow> byte list" where
  "inode_enc i = enc_fields (inode_head i) @ enc_fields (map (Pair 8) (i_blks i))"

lemma inode_head_sum [simp]: "sum_list (map fst (inode_head i)) = 64"
  by (simp add: inode_head_def)

lemma sum_pair8 [simp]: "sum_list (map fst (map (Pair n) vs)) = n * length vs"
  by (induction vs) simp_all

lemma fst_pair8 [simp]: "map fst (map (Pair n) vs) = replicate (length vs) n"
  by (induction vs) simp_all

declare sum_list_replicate [simp]

lemma vals_pair8: "\<forall>v \<in> set vs. v < (2 :: nat) ^ 64 \<Longrightarrow> map (\<lambda>(n, v). v mod 256 ^ n) (map (Pair 8) vs) = vs"
  by (induction vs) auto

lemma inode_of_head:
  "inode_wf i \<Longrightarrow> map (\<lambda>(n, v). v mod 256 ^ n) (inode_head i) =
    [i_no i, i_uid i, i_mode i, ref_cnt i, atime i, mtime i, ctime i, i_size i, i_links_count i]"
  by (simp add: inode_wf_def inode_head_def)

interpretation inc: codec inode_serialize inode_deserialize inode_enc
  "\<lambda>i. i \<lparr> i_dirty := False \<rparr>" inode_wf 168
proof (unfold_locales, goal_cases)
  case (1 x)
  then show ?case by (simp add: inode_enc_def inode_wf_def layout_defs del: map_map)
next
  case (2 x off b)
  let ?fs = "map (Pair 8) (i_blks x)"
  have n: "length (i_blks x) = 13" using 2(1) by (simp add: inode_wf_def layout_defs)
  have 1: "put_fields (inode_head x) off b = Inr (off + 64, blit off (enc_fields (inode_head x)) b)"
    using put_fields_ok [of off "inode_head x" b] 2(2) by simp
  have "put_fields ?fs (off + 64) (blit off (enc_fields (inode_head x)) b) =
      Inr (off + 168, blit (off + 64) (enc_fields ?fs) (blit off (enc_fields (inode_head x)) b))"
    using put_fields_ok [of "off + 64" ?fs "blit off (enc_fields (inode_head x)) b"] 2(2) n by (simp del: map_map)
  also have "blit (off + 64) (enc_fields ?fs) (blit off (enc_fields (inode_head x)) b) = blit off (inode_enc x) b"
    using blit_blit [of off "enc_fields (inode_head x)" "enc_fields ?fs" b] 2(2) n
    by (simp add: inode_enc_def del: map_map)
  finally show ?case
    using 1 n unfolding inode_serialize_def inode_head_def [symmetric] by (simp add: layout_defs)
next
  case (3 x off b)
  let ?fs = "map (Pair 8) (i_blks x)"
  have n: "length (i_blks x) = 13" "\<forall>v \<in> set (i_blks x). v < 2 ^ 64"
    using 3(1) by (simp_all add: inode_wf_def layout_vals)
  have "chunk off 64 b @ chunk (off + 64) 104 b = enc_fields (inode_head x) @ enc_fields ?fs"
    using 3(3) chunk_add [of off 64 104 b] by (simp add: inode_enc_def)
  moreover have "length (chunk off 64 b) = length (enc_fields (inode_head x))" using 3(2) by simp
  ultimately have c: "chunk off 64 b = enc_fields (inode_head x)" "chunk (off + 64) 104 b = enc_fields ?fs"
    by (simp_all add: append_eq_append_conv)
  have g1: "get_fields (map fst (inode_head x)) off b = Inr (map (\<lambda>(n, v). v mod 256 ^ n) (inode_head x), off + 64)"
    using get_fields_ok [of off "inode_head x" b] c(1) 3(2) by simp
  have g2: "get_fields (replicate NUM_INODE_IBLKS 8) (off + 64) b = Inr (i_blks x, off + 168)"
    using get_fields_ok [of "off + 64" ?fs b] c(2) 3(2) n vals_pair8 [OF n(2)] by (simp add: layout_vals del: map_map)
  have "map fst (inode_head x) = [8, 4, 4, 8, 8, 8, 8, 8, 8]" by (simp add: inode_head_def)
  with g1 g2 inode_of_head [OF 3(1)] show ?case
    unfolding inode_deserialize_def by simp
qed

definition de_wf :: "direntry \<Rightarrow> bool" where
  "de_wf de \<longleftrightarrow> length (de_name de) + 1 \<le> MAX_FILE_NAME_LEN \<and> CHR 0x00 \<notin> set (de_name de) \<and> de_ino de < 2 ^ 64"

definition de_enc :: "direntry \<Rightarrow> byte list" where
  "de_enc de = le_bytes 8 (de_ino de) @ map byte_of_char (de_name de) @ replicate (255 - length (de_name de)) 0"

lemma char_of_byte_of_char [simp]: "char_of_byte (byte_of_char c) = c"
  by (simp add: char_of_byte_def byte_of_char_def)

lemma byte_of_char_0 [simp]: "byte_of_char c = 0 \<longleftrightarrow> c = CHR 0x00"
proof
  assume "byte_of_char c = 0"
  then have "c = char_of_byte 0" using char_of_byte_of_char [of c] by simp
  then show "c = CHR 0x00" by (simp add: char_of_byte_def char_of_def)
qed (simp add: byte_of_char_def)

interpretation dec: codec de_serialize de_deserialize de_enc
  "\<lambda>de. (de_name de, de_ino de)" de_wf 263
proof (unfold_locales, goal_cases)
  case (1 x)
  then show ?case by (simp add: de_enc_def de_wf_def layout_defs)
next
  case (2 x off b)
  let ?nm = "map byte_of_char (de_name x)"
  let ?tl = "?nm @ replicate (255 - length (de_name x)) 0"
  have l: "length (de_name x) \<le> 254" using 2(1) by (simp add: de_wf_def layout_defs)
  have "put_fields [(8, de_ino x)] off b = Inr (off + 8, blit off (le_bytes 8 (de_ino x)) b)"
    using put_fields_ok [of off "[(8, de_ino x)]" b] 2(2) by simp
  moreover have "blit (off + 8) ?tl (blit off (le_bytes 8 (de_ino x)) b) = blit off (de_enc x) b"
    using blit_blit [of off "le_bytes 8 (de_ino x)" ?tl b] 2(2) l by (simp add: de_enc_def)
  ultimately show ?case
    using 2(2) l by (simp add: de_serialize_def layout_defs Let_def)
next
  case (3 x off b)
  let ?nm = "map byte_of_char (de_name x)"
  let ?tl = "?nm @ replicate (255 - length (de_name x)) 0"
  have l: "length (de_name x) \<le> 254" "CHR 0x00 \<notin> set (de_name x)" "de_ino x < 2 ^ 64"
    using 3(1) by (simp_all add: de_wf_def layout_defs)
  have "chunk off 8 b @ chunk (off + 8) 255 b = le_bytes 8 (de_ino x) @ ?tl"
    using 3(3) chunk_add [of off 8 255 b] by (simp add: de_enc_def)
  moreover have "length (chunk off 8 b) = length (le_bytes 8 (de_ino x))" using 3(2) by simp
  ultimately have c: "chunk off 8 b = le_bytes 8 (de_ino x)" "chunk (off + 8) 255 b = ?tl"
    by (simp_all add: append_eq_append_conv)
  have "get_fields [8] off b = Inr ([de_ino x], off + 8)"
    using get_fields_ok [of off "[(8, de_ino x)]" b] c(1) 3(2) l(3) by simp
  moreover have "takeWhile (\<lambda>c. c \<noteq> 0) ?tl = ?nm"
    using l(2) by (subst takeWhile_append2) (auto simp: takeWhile_replicate)
  moreover have "0 \<in> set ?tl" using l(1) by auto
  ultimately show ?case
    using 3(2) c(2) by (simp add: de_deserialize_def layout_defs Let_def o_def)
qed

definition ib_wf :: "indirect \<Rightarrow> bool" where
  "ib_wf locs \<longleftrightarrow> length locs = NUM_BLKS_PER_IB \<and> (\<forall>v \<in> set locs. v < 2 ^ 64)"

interpretation ibc: codec ib_serialize ib_deserialize "\<lambda>locs. enc_fields (map (Pair 8) locs)" "\<lambda>locs. locs" ib_wf 4096
proof (unfold_locales, goal_cases)
  case (1 x)
  then show ?case by (simp add: ib_wf_def layout_defs del: map_map)
next
  case (2 x off b)
  have n: "length x = 512" using 2(1) by (simp_all add: ib_wf_def layout_vals)
  then have "put_fields (map (Pair 8) x) off b = Inr (off + 4096, blit off (enc_fields (map (Pair 8) x)) b)"
    using 2(2) put_fields_ok [of off "map (Pair 8) x" b] by (simp del: map_map)
  with n show ?case by (simp add: ib_serialize_def layout_vals)
next
  case (3 x off b)
  have n: "length x = 512" "\<forall>v \<in> set x. v < 2 ^ 64"
    using 3(1) by (simp_all add: ib_wf_def layout_vals)
  then have "get_fields (replicate 512 8) off b = Inr (x, off + 4096)"
    using 3(2,3) get_fields_ok [of off "map (Pair 8) x" b] vals_pair8 [OF n(2)] by (simp del: map_map)
  then show ?case by (simp add: ib_deserialize_def layout_vals)
qed

section \<open>Bitmaps\<close>

text \<open>What the inode allocator relies on: setting and clearing a bit changes that bit only.\<close>

definition free_bits :: "('b \<Rightarrow> nat \<Rightarrow> bool) \<Rightarrow> ('b \<Rightarrow> nat) \<Rightarrow> 'b \<Rightarrow> nat set" where
  "free_bits test nb b = {j. j < nb b \<and> \<not> test b j}"

locale bitmap =
  fixes test :: "'b \<Rightarrow> nat \<Rightarrow> bool"
    and nb :: "'b \<Rightarrow> nat"
    and setb clearb :: "nat \<Rightarrow> 'b \<Rightarrow> bfs_error + 'b"
  assumes setb: "k < nb b \<Longrightarrow> \<exists>b'. setb k b = Inr b' \<and> nb b' = nb b \<and>
      (\<forall>j < nb b. test b' j = (j = k \<or> test b j))"
    and clearb: "k < nb b \<Longrightarrow> \<exists>b'. clearb k b = Inr b' \<and> nb b' = nb b \<and>
      (\<forall>j < nb b. test b' j = (j \<noteq> k \<and> test b j))"
begin

lemma set_free: 
  assumes "k \<in> free_bits test nb b"
  shows "\<exists>b'. setb k b = Inr b' \<and> free_bits test nb b' = free_bits test nb b - {k} \<and> card (free_bits test nb b) = Suc (card (free_bits test nb b'))"
proof -
  obtain b' where b': "setb k b = Inr b'" "nb b' = nb b" "\<forall>j < nb b. test b' j = (j = k \<or> test b j)"
    using setb [of k b] assms by (auto simp: free_bits_def)
  then have "free_bits test nb b' = free_bits test nb b - {k}" by (auto simp: free_bits_def)
  moreover have "finite (free_bits test nb b)" by (simp add: free_bits_def)
  ultimately show ?thesis using b'(1) assms card.remove [of "free_bits test nb b" k] by auto
qed

lemma set_clear:
  assumes "k \<in> free_bits test nb b"
  shows "\<exists>b' b''. setb k b = Inr b' \<and> clearb k b' = Inr b'' \<and> nb b'' = nb b \<and>
    (\<forall>j < nb b. test b'' j = test b j)"
proof -
  have k: "k < nb b" "\<not> test b k" using assms by (simp_all add: free_bits_def)
  obtain b' where b': "setb k b = Inr b'" "nb b' = nb b" "\<forall>j < nb b. test b' j = (j = k \<or> test b j)"
    using setb [OF k(1)] by auto
  obtain b'' where "clearb k b' = Inr b''" "nb b'' = nb b'" "\<forall>j < nb b'. test b'' j = (j \<noteq> k \<and> test b' j)"
    using clearb [of k b'] k(1) b'(2) by auto
  with b' k(2) show ?thesis by (intro exI [of _ b'] exI [of _ b'']) auto
qed

end

interpretation bm: bitmap bit_at nbits bfs_set_bit bfs_clear_bit
proof (unfold_locales, goal_cases)
  case (1 k b)
  then show ?case by (rule bfs_set_bit_ok) (auto simp: nbits_def)
next
  case (2 k b)
  then show ?case by (rule bfs_clear_bit_ok) (auto simp: nbits_def)
qed

definition ibm_test :: "ibitmap \<Rightarrow> nat \<Rightarrow> bool" where
  "ibm_test blks j = bit_at (blks ! (j div BLK_SZ_BITS)) (j mod BLK_SZ_BITS)"

text \<open>The bits of a bitmap made of whole blocks.\<close>

definition ibm_size :: "ibitmap \<Rightarrow> nat" where
  "ibm_size blks = (if \<forall>b \<in> set blks. length b = BLK_SZ then BLK_SZ_BITS * length blks else 0)"

lemma ibm_pos:
  assumes "k < ibm_size blks"
  shows "k div BLK_SZ_BITS < length blks" "k mod BLK_SZ_BITS < nbits (blks ! (k div BLK_SZ_BITS))"
    "length (blks ! (k div BLK_SZ_BITS)) = BLK_SZ" "\<forall>b \<in> set blks. length b = BLK_SZ"
proof -
  have all: "\<forall>b \<in> set blks. length b = BLK_SZ" and "k < BLK_SZ_BITS * length blks"
    using assms by (auto simp: ibm_size_def split: if_splits)
  then show i: "k div BLK_SZ_BITS < length blks" and "\<forall>b \<in> set blks. length b = BLK_SZ"
    by (simp_all add: div_less_iff_less_mult layout_vals mult.commute)
  then show l: "length (blks ! (k div BLK_SZ_BITS)) = BLK_SZ" by simp
  show "k mod BLK_SZ_BITS < nbits (blks ! (k div BLK_SZ_BITS))"
    unfolding nbits_def l by (simp add: layout_vals)
qed

lemma ibm_size_update:
  assumes "length blk = BLK_SZ" "\<forall>b \<in> set blks. length b = BLK_SZ"
  shows "ibm_size (blks[i := blk]) = ibm_size blks"
  using assms set_update_subset_insert [of blks i blk] by (auto simp: ibm_size_def)

lemma ibm_test_update:
  assumes "k < ibm_size blks" "\<And>j. j < nbits (blks ! (k div BLK_SZ_BITS)) \<Longrightarrow> bit_at blk j = P j"
    and "j < ibm_size blks"
  shows "ibm_test (blks[k div BLK_SZ_BITS := blk]) j =
    (if j div BLK_SZ_BITS = k div BLK_SZ_BITS then P (j mod BLK_SZ_BITS) else ibm_test blks j)"
  using assms(2) ibm_pos [OF assms(1)] ibm_pos [OF assms(3)] by (auto simp: ibm_test_def)

interpretation ibm: bitmap ibm_test ibm_size ibm_set_bit ibm_clear_bit
proof (unfold_locales, goal_cases)
  case (1 k b)
  let ?i = "k div BLK_SZ_BITS"
  obtain blk where set: "bfs_set_bit (k mod BLK_SZ_BITS) (b ! ?i) = Inr blk" "nbits blk = nbits (b ! ?i)"
    "\<forall>j < nbits (b ! ?i). bit_at blk j = (j = k mod BLK_SZ_BITS \<or> bit_at (b ! ?i) j)"
    using bm.setb [OF ibm_pos(2) [OF 1]] by blast
  then have blk: "bfs_set_bit (k mod BLK_SZ_BITS) (b ! ?i) = Inr blk" "length blk = length (b ! ?i)"
    "\<And>j. j < nbits (b ! ?i) \<Longrightarrow> bit_at blk j = (j = k mod BLK_SZ_BITS \<or> bit_at (b ! ?i) j)"
    by (simp_all add: nbits_def)
  have "ibm_set_bit k b = Inr (b[?i := blk])" using blk(1) ibm_pos(1) [OF 1] by (simp add: ibm_set_bit_def)
  moreover have "ibm_size (b[?i := blk]) = ibm_size b"
    using blk(2) ibm_pos [OF 1] by (intro ibm_size_update) simp_all
  moreover have "ibm_test (b[?i := blk]) j = (j = k \<or> ibm_test b j)" if "j < ibm_size b" for j
  proof (cases "j div BLK_SZ_BITS = ?i")
    case True
    then have "j = k \<longleftrightarrow> j mod BLK_SZ_BITS = k mod BLK_SZ_BITS" by (metis mult_div_mod_eq)
    with ibm_test_update [OF 1 blk(3) that] True show ?thesis by (simp add: ibm_test_def)
  next
    case False
    with ibm_test_update [OF 1 blk(3) that] show ?thesis by auto
  qed
  ultimately show ?case by blast
next
  case (2 k b)
  let ?i = "k div BLK_SZ_BITS"
  obtain blk where set: "bfs_clear_bit (k mod BLK_SZ_BITS) (b ! ?i) = Inr blk" "nbits blk = nbits (b ! ?i)"
    "\<forall>j < nbits (b ! ?i). bit_at blk j = (j \<noteq> k mod BLK_SZ_BITS \<and> bit_at (b ! ?i) j)"
    using bm.clearb [OF ibm_pos(2) [OF 2]] by blast
  then have blk: "bfs_clear_bit (k mod BLK_SZ_BITS) (b ! ?i) = Inr blk" "length blk = length (b ! ?i)"
    "\<And>j. j < nbits (b ! ?i) \<Longrightarrow> bit_at blk j = (j \<noteq> k mod BLK_SZ_BITS \<and> bit_at (b ! ?i) j)"
    by (simp_all add: nbits_def)
  have "ibm_clear_bit k b = Inr (b[?i := blk])" using blk(1) ibm_pos(1) [OF 2] by (simp add: ibm_clear_bit_def)
  moreover have "ibm_size (b[?i := blk]) = ibm_size b"
    using blk(2) ibm_pos [OF 2] by (intro ibm_size_update) simp_all
  moreover have "ibm_test (b[?i := blk]) j = (j \<noteq> k \<and> ibm_test b j)" if "j < ibm_size b" for j
  proof (cases "j div BLK_SZ_BITS = ?i")
    case True
    then have "j = k \<longleftrightarrow> j mod BLK_SZ_BITS = k mod BLK_SZ_BITS" by (metis mult_div_mod_eq)
    with ibm_test_update [OF 2 blk(3) that] True show ?thesis by (simp add: ibm_test_def)
  next
    case False
    with ibm_test_update [OF 2 blk(3) that] show ?thesis by auto
  qed
  ultimately show ?case by blast
qed

section \<open>Block numbers\<close>

primrec alloc_blks :: "nat \<Rightarrow> superblock \<Rightarrow> nat list \<times> superblock" where
  "alloc_blks 0 sb = ([], sb)"
| "alloc_blks (Suc k) sb =
     (let (v, sb1) = alloc_blk sb; (vs, sb2) = alloc_blks k sb1 in (v # vs, sb2))"

lemma alloc_blks_run:
  "k \<le> no_dblocks_free sb \<Longrightarrow> next_vbid sb + k < 2 ^ 64 \<Longrightarrow>
    alloc_blks k sb = ([next_vbid sb ..< next_vbid sb + k],
      sb \<lparr> no_dblocks_free := no_dblocks_free sb - k, next_vbid := next_vbid sb + k \<rparr>)"
proof (induction k arbitrary: sb)
  case (Suc k)
  then show ?case by (simp add: alloc_blk_def upt_conv_Cons)
qed simp

text \<open>The superblock that formatting stores for a cluster of \<^verbatim>\<open>n\<close> blocks.\<close>

definition mkfs_superblock :: "nat \<Rightarrow> nat \<Rightarrow> superblock" where
  "mkfs_superblock garbage n =
     set_state 3 (set_reserved_inos ROOT_INO IBITMAP_INO ITABLE_INO JOURNAL_INO FIRST_UNRESERVED_INO
       (set_sb_params BLK_SZ INODE_SZ n (NUM_DATA_BLOCKS n) NUM_INODES (NUM_DATA_BLOCKS n) NUM_UNRES_INODES
         (DATA_REL_START_BLK_NUM n + 1) (set_magic BFS_SB_MAGIC (SuperBlock garbage))))"

lemma data_blocks_sum:
  assumes "DATA_REL_START_BLK_NUM n \<le> n" "n < 2 ^ 64"
  shows "DATA_REL_START_BLK_NUM n + NUM_DATA_BLOCKS n = n"
  using assms by (simp add: NUM_DATA_BLOCKS_def layout_defs)

lemma mkfs_superblock_alloc:
  assumes "DATA_REL_START_BLK_NUM n \<le> n" "n + 1 < 2 ^ 64" "k \<le> NUM_DATA_BLOCKS n"
  shows "fst (alloc_blks k (mkfs_superblock g n)) =
    [DATA_REL_START_BLK_NUM n + 1 ..< DATA_REL_START_BLK_NUM n + 1 + k]"
proof -
  let ?sb = "mkfs_superblock g n"
  have "next_vbid ?sb = DATA_REL_START_BLK_NUM n + 1" "no_dblocks_free ?sb = NUM_DATA_BLOCKS n"
    by (simp_all add: mkfs_superblock_def set_state_def set_reserved_inos_def set_sb_params_def set_magic_def)
  with alloc_blks_run [of k ?sb] data_blocks_sum [of n] assms show ?thesis by simp
qed

section \<open>Properties\<close>

text \<open>C21: Inodes that share a block of the inode table are stored without disturbing each other: after
  an inode is written to its slot it reads back with all its fields, and so does any other
  inode of the block.\<close>

lemma inode_slots:
  assumes "inode_wf x" "inode_wf y" "a \<noteq> c" "ITAB_ABSOLUTE_BLK_LOC a = ITAB_ABSOLUTE_BLK_LOC c"
    and "length b = BLK_SZ" "chunk (ITAB_ABSOLUTE_BLK_OFF c) 168 b = inode_enc y"
  shows "\<exists>b'. inode_serialize x (ITAB_ABSOLUTE_BLK_OFF a) b = Inr (168, b') \<and> length b' = BLK_SZ \<and>
    inode_deserialize (ITAB_ABSOLUTE_BLK_OFF a) b' = Inr (x \<lparr> i_dirty := False \<rparr>, 168) \<and>
    inode_deserialize (ITAB_ABSOLUTE_BLK_OFF c) b' = Inr (y \<lparr> i_dirty := False \<rparr>, 168)"
proof -
  have "a div 16 = c div 16" using assms(4) by (simp add: ITAB_ABSOLUTE_BLK_LOC_def layout_vals)
  then have ne: "a mod 16 \<noteq> c mod 16" using assms(3) by (metis mult_div_mod_eq)
  have "Suc (a mod 16) \<le> 16" "Suc (c mod 16) \<le> 16" by (simp_all add: Suc_le_eq)
  then have fit: "Suc (a mod 16) * 256 \<le> length b" "Suc (c mod 16) * 256 \<le> length b"
    using assms(5) mult_le_mono1 [of _ 16 256] by (simp_all add: layout_vals)
  have off: "ITAB_ABSOLUTE_BLK_OFF a = (a mod 16) * 256" "ITAB_ABSOLUTE_BLK_OFF c = (c mod 16) * 256"
    by (simp_all add: ITAB_ABSOLUTE_BLK_OFF_def layout_vals)
  have y: "chunk ((c mod 16) * 256) 168 b = inode_enc y" using assms(6) off by simp
  from inc.slots [OF assms(1,2) ne _ fit y] show ?thesis
    unfolding off using assms(5) by (simp add: layout_vals) blast
qed

definition demo_inode :: "nat \<Rightarrow> inode" where
  "demo_inode k = Inode k 1001 33279 1 0 0 0 4096 0"

lemma demo_inode_wf: "k < 100 \<Longrightarrow> inode_wf (demo_inode k)"
  by (simp add: inode_wf_def demo_inode_def Inode_def layout_vals)

lemma inode_slots_witness:
  "\<exists>b'. inode_serialize (demo_inode 8) (ITAB_ABSOLUTE_BLK_OFF 8)
      (blit (ITAB_ABSOLUTE_BLK_OFF 9) (inode_enc (demo_inode 9)) (replicate BLK_SZ 0)) = Inr (168, b') \<and>
    length b' = BLK_SZ \<and>
    inode_deserialize (ITAB_ABSOLUTE_BLK_OFF 8) b' = Inr (demo_inode 8 \<lparr> i_dirty := False \<rparr>, 168) \<and>
    inode_deserialize (ITAB_ABSOLUTE_BLK_OFF 9) b' = Inr (demo_inode 9 \<lparr> i_dirty := False \<rparr>, 168)"
proof -
  have wf: "inode_wf (demo_inode 8)" "inode_wf (demo_inode 9)" by (simp_all add: demo_inode_wf)
  have len: "length (inode_enc (demo_inode 9)) = 168" using wf(2) by (rule inc.len)
  show ?thesis
    by (rule inode_slots [OF wf])
      (use len in \<open>simp_all add: ITAB_ABSOLUTE_BLK_LOC_def ITAB_ABSOLUTE_BLK_OFF_def layout_vals buf_simps\<close>)
qed

text \<open>The same for directory entries in the slots of a directory block: names up to the maximal
  length and inode numbers come back, and neighbouring entries are kept.\<close>

lemma dirent_slots:
  assumes "de_wf x" "de_wf y" "i \<noteq> j" "i < NUM_DIRENTS_PER_BLOCK" "j < NUM_DIRENTS_PER_BLOCK"
    and "length b = BLK_SZ" "chunk (DENTRY_ABSOLUTE_BLK_OFF j) DIRENT_SZ b = de_enc y"
  shows "\<exists>b'. de_serialize x (DENTRY_ABSOLUTE_BLK_OFF i) b = Inr (DIRENT_SZ, b') \<and> length b' = BLK_SZ \<and>
    de_deserialize (DENTRY_ABSOLUTE_BLK_OFF i) b' = Inr ((de_name x, de_ino x), DIRENT_SZ) \<and>
    de_deserialize (DENTRY_ABSOLUTE_BLK_OFF j) b' = Inr ((de_name y, de_ino y), DIRENT_SZ)"
proof -
  have "Suc i \<le> 15" "Suc j \<le> 15" using assms(4,5) by (simp_all add: layout_vals)
  then have fit: "Suc i * 263 \<le> length b" "Suc j * 263 \<le> length b"
    using assms(6) mult_le_mono1 [of _ 15 263] by (simp_all add: layout_vals)
  have y: "chunk (j * 263) 263 b = de_enc y" using assms(7) by (simp add: DENTRY_ABSOLUTE_BLK_OFF_def layout_vals)
  from dec.slots [OF assms(1-3) _ fit y] show ?thesis
    using assms(6) by (simp add: DENTRY_ABSOLUTE_BLK_OFF_def layout_vals) blast
qed

lemma dirent_slots_witness:
  "\<exists>b'. de_serialize (DirEntry ''.'' 2 0 0) (DENTRY_ABSOLUTE_BLK_OFF 0)
      (blit (DENTRY_ABSOLUTE_BLK_OFF 1) (de_enc (DirEntry ''notes'' 9 0 1)) (replicate BLK_SZ 0)) = Inr (DIRENT_SZ, b') \<and>
    length b' = BLK_SZ \<and>
    de_deserialize (DENTRY_ABSOLUTE_BLK_OFF 0) b' = Inr ((de_name (DirEntry ''.'' 2 0 0), de_ino (DirEntry ''.'' 2 0 0)), DIRENT_SZ) \<and>
    de_deserialize (DENTRY_ABSOLUTE_BLK_OFF 1) b' =
      Inr ((de_name (DirEntry ''notes'' 9 0 1), de_ino (DirEntry ''notes'' 9 0 1)), DIRENT_SZ)"
proof -
  have wf: "de_wf (DirEntry ''.'' 2 0 0)" "de_wf (DirEntry ''notes'' 9 0 1)"
    by (simp_all add: de_wf_def DirEntry_def layout_vals)
  have len: "length (de_enc (DirEntry ''notes'' 9 0 1)) = 263" using wf(2) by (rule dec.len)
  show ?thesis
    by (rule dirent_slots [OF wf]) (use len in \<open>simp_all add: DENTRY_ABSOLUTE_BLK_OFF_def layout_vals buf_simps\<close>)
qed

text \<open>The superblock and an indirect block read back exactly as they were stored.\<close>

lemma superblock_indirect_roundtrip:
  assumes "sb_wf sb" "ib_wf locs" "length b = BLK_SZ"
  shows "\<exists>b1 b2. sb_serialize sb 0 b = Inr (128, b1) \<and> sb_deserialize 0 b1 = Inr (sb \<lparr> sb_dirty := False \<rparr>, 128) \<and>
    ib_serialize locs 0 b = Inr (BLK_SZ, b2) \<and> ib_deserialize 0 b2 = Inr (locs, BLK_SZ)"
  using sbc.roundtrip [OF assms(1), of 0 b] ibc.roundtrip [OF assms(2), of 0 b] assms(3)
  by (auto simp: layout_vals)

lemma superblock_indirect_roundtrip_witness:
  "\<exists>b1 b2. sb_serialize (SuperBlock 7) 0 (replicate BLK_SZ 0) = Inr (128, b1) \<and>
    sb_deserialize 0 b1 = Inr (SuperBlock 7 \<lparr> sb_dirty := False \<rparr>, 128) \<and>
    ib_serialize IndirectBlock 0 (replicate BLK_SZ 0) = Inr (BLK_SZ, b2) \<and>
    ib_deserialize 0 b2 = Inr (IndirectBlock, BLK_SZ)"
  by (rule superblock_indirect_roundtrip) (simp_all add: sb_wf_def SuperBlock_def ib_wf_def IndirectBlock_def)

text \<open>C22: On a freshly formatted system the blocks handed out are pairwise distinct, lie behind the
  metadata and inside the device, as long as one data block is kept back.\<close>

lemma alloc_blks_fresh:
  assumes "DATA_REL_START_BLK_NUM n \<le> n" "n + 1 < 2 ^ 64" "k < NUM_DATA_BLOCKS n"
  shows "distinct (fst (alloc_blks k (mkfs_superblock g n))) \<and>
    length (fst (alloc_blks k (mkfs_superblock g n))) = k \<and>
    set (fst (alloc_blks k (mkfs_superblock g n))) \<subseteq> {DATA_REL_START_BLK_NUM n <..< n}"
proof -
  have "fst (alloc_blks k (mkfs_superblock g n)) = [DATA_REL_START_BLK_NUM n + 1 ..< DATA_REL_START_BLK_NUM n + 1 + k]"
    using assms by (intro mkfs_superblock_alloc) simp_all
  with data_blocks_sum [of n] assms show ?thesis by auto
qed

lemma alloc_blks_fresh_witness:
  "distinct (fst (alloc_blks 3 (mkfs_superblock 0 8192))) \<and>
    length (fst (alloc_blks 3 (mkfs_superblock 0 8192))) = 3 \<and>
    set (fst (alloc_blks 3 (mkfs_superblock 0 8192))) \<subseteq> {DATA_REL_START_BLK_NUM 8192 <..< 8192}"
  by (rule alloc_blks_fresh) (simp_all add: NUM_DATA_BLOCKS_def layout_defs)

text \<open>C35: The free-block counter of a formatted system counts the reserved block of the root directory
  as free: the last block it hands out is the number of blocks of the device, one past its end.\<close>

lemma alloc_last_block_outside:
  assumes "DATA_REL_START_BLK_NUM n < n" "n + 1 < 2 ^ 64"
  shows "last (fst (alloc_blks (NUM_DATA_BLOCKS n) (mkfs_superblock g n))) = n"
proof -
  have "fst (alloc_blks (NUM_DATA_BLOCKS n) (mkfs_superblock g n)) =
      [DATA_REL_START_BLK_NUM n + 1 ..< DATA_REL_START_BLK_NUM n + 1 + NUM_DATA_BLOCKS n]"
    using assms by (intro mkfs_superblock_alloc) simp_all
  with data_blocks_sum [of n] assms show ?thesis by simp
qed

lemma alloc_last_block_outside_witness:
  "last (fst (alloc_blks (NUM_DATA_BLOCKS 8192) (mkfs_superblock 0 8192))) = 8192"
  by (rule alloc_last_block_outside) (simp_all add: layout_defs)

text \<open>Taking a free inode number in the bitmap removes exactly that number from the free ones, and
  releasing it restores every bit.\<close>

lemma ibitmap_set_clear:
  assumes "k \<in> free_bits ibm_test ibm_size b"
  shows "\<exists>b1 b2. ibm_set_bit k b = Inr b1 \<and>
    free_bits ibm_test ibm_size b1 = free_bits ibm_test ibm_size b - {k} \<and>
    ibm_clear_bit k b1 = Inr b2 \<and> (\<forall>j < ibm_size b. ibm_test b2 j = ibm_test b j)"
  using ibm.set_free [OF assms] ibm.set_clear [OF assms] by auto

lemma ibitmap_set_clear_witness:
  "\<exists>b1 b2. ibm_set_bit 5 [replicate BLK_SZ 0] = Inr b1 \<and>
    free_bits ibm_test ibm_size b1 = free_bits ibm_test ibm_size [replicate BLK_SZ 0] - {5} \<and>
    ibm_clear_bit 5 b1 = Inr b2 \<and> ibm_test b2 5 = ibm_test [replicate BLK_SZ 0] 5"
proof -
  have free: "5 \<in> free_bits ibm_test ibm_size [replicate BLK_SZ 0]"
    by (simp add: free_bits_def ibm_size_def ibm_test_def bit_at_def layout_vals)
  have "5 < ibm_size [replicate BLK_SZ 0]" by (simp add: ibm_size_def layout_vals)
  then show ?thesis using ibitmap_set_clear [OF free] by blast
qed

end
