(* ===== verification/Bfs_Blocks.thy ===== *)
theory Bfs_Blocks
  imports Bfs_OnDisk Bfs_Cache "HOL-Library.FuncSet"
begin

text \<open>
  Devices and the virtual block cluster: \<^verbatim>\<open>src/src/bfs_device/bfsDeviceStorage.cpp\<close>,
  \<^verbatim>\<open>bfsLocalDevice.cpp\<close>, \<^verbatim>\<open>src/src/bfs_blk/bfsVertBlockCluster.cpp\<close> and \<^verbatim>\<open>bfsBlockLayer.h\<close>.
  The storage of a device is the byte array the code maps into memory.  A block handed to the
  block layer is its \<^verbatim>\<open>BLK_SZ\<close> bytes.
\<close>

section \<open>Device storage\<close>

record dev_storage =
  blockStorage :: "byte list option"
  st_numBlocks :: nat

definition getBlockAddress :: "nat \<Rightarrow> dev_storage \<Rightarrow> nat option" where
  "getBlockAddress blkid st =
     (case blockStorage st of
        None \<Rightarrow> None
      | Some _ \<Rightarrow> if blkid \<ge> st_numBlocks st then None else Some (blkid * BLK_SZ))"

text \<open>\<^const>\<open>None\<close> for \<^verbatim>\<open>blk\<close> is a \<^verbatim>\<open>NULL\<close> buffer, and as a result the \<^verbatim>\<open>NULL\<close> returned on an error.\<close>

definition storage_getBlock :: "nat \<Rightarrow> byte list option \<Rightarrow> dev_storage \<Rightarrow> bfs_error + byte list option" where
  "storage_getBlock blkid blk st =
     (case (getBlockAddress blkid st, blk, blockStorage st) of
        (Some baddr, Some dst, Some mem) \<Rightarrow>
          if baddr + BLK_SZ \<le> length mem \<and> BLK_SZ \<le> length dst
          then Inr (Some (blit 0 (chunk baddr BLK_SZ mem) dst)) else Inl BfsOutOfBounds
      | _ \<Rightarrow> Inr None)"

definition storage_putBlock :: "nat \<Rightarrow> byte list option \<Rightarrow> (dev_storage, bool) comp" where
  "storage_putBlock blkid blk = (\<lambda>st.
     case (getBlockAddress blkid st, blk, blockStorage st) of
       (Some baddr, Some src, Some mem) \<Rightarrow>
         if baddr + BLK_SZ \<le> length mem \<and> BLK_SZ \<le> length src
         then (Inr True, st \<lparr> blockStorage := Some (blit baddr (take BLK_SZ src) mem) \<rparr>)
         else (Inl BfsOutOfBounds, st)
     | _ \<Rightarrow> (Inr False, st))"

section \<open>Local devices\<close>

record local_device =
  deviceID :: nat
  numBlocks :: nat
  storage :: "dev_storage option"

definition bfsLocalDevice :: "nat \<Rightarrow> nat \<Rightarrow> local_device" where
  "bfsLocalDevice did blks = \<lparr> deviceID = did, numBlocks = blks, storage = None \<rparr>"

text \<open>\<^verbatim>\<open>mem\<close> is the mapping the storage constructor obtains; its failure is an exception.\<close>

definition bfsDeviceInitialize :: "byte list option \<Rightarrow> (local_device, unit) comp" where
  "bfsDeviceInitialize mem = (case mem of
     None \<Rightarrow> throwE bfsDeviceError
   | Some _ \<Rightarrow> modE (\<lambda>d. d \<lparr> storage := Some \<lparr> blockStorage = mem, st_numBlocks = numBlocks d \<rparr> \<rparr>))"

definition bfsDeviceUninitialize :: "(local_device, unit) comp" where
  "bfsDeviceUninitialize = modE (\<lambda>d. d \<lparr> storage := None \<rparr>)"

text \<open>The two calls return whether they succeeded.\<close>

definition dev_getBlock :: "nat \<Rightarrow> byte list option \<Rightarrow> local_device \<Rightarrow> bfs_error + byte list option" where
  "dev_getBlock pbid blk d =
     (case storage d of None \<Rightarrow> Inl bfsDeviceError | Some st \<Rightarrow> storage_getBlock pbid blk st)"

definition dev_putBlock :: "nat \<Rightarrow> byte list option \<Rightarrow> (local_device, bool) comp" where
  "dev_putBlock pbid blk = (\<lambda>d.
     case storage d of
       None \<Rightarrow> (Inl bfsDeviceError, d)
     | Some st \<Rightarrow> (case storage_putBlock pbid blk st of (r, st') \<Rightarrow> (r, d \<lparr> storage := Some st' \<rparr>)))"

text \<open>The list versions: a list of block numbers and buffers, handled in order; a missing block is an
  exception.\<close>

primrec dev_getBlocks :: "(nat \<times> byte list) list \<Rightarrow> local_device \<Rightarrow> bfs_error + (nat \<times> byte list) list" where
  "dev_getBlocks [] d = Inr []"
| "dev_getBlocks (p # ps) d =
     (case storage d of
        None \<Rightarrow> Inl BfsBadPointer
      | Some st \<Rightarrow> bindS (storage_getBlock (fst p) (Some (snd p)) st) (\<lambda>r. case r of
            None \<Rightarrow> Inl bfsDeviceError
          | Some b \<Rightarrow> bindS (dev_getBlocks ps d) (\<lambda>bs. Inr ((fst p, b) # bs))))"

primrec dev_putBlocks :: "(nat \<times> byte list) list \<Rightarrow> (local_device, unit) comp" where
  "dev_putBlocks [] = retE ()"
| "dev_putBlocks (p # ps) =
     bindE (getE storage) (\<lambda>st. if st = None then throwE BfsBadPointer
     else bindE (dev_putBlock (fst p) (Some (snd p))) (\<lambda>ok.
       if ok then dev_putBlocks ps else throwE bfsDeviceError))"

text \<open>The overloads on arrays of block numbers and buffers return \<open>-1\<close> (here \<^const>\<open>None\<close> and \<^const>\<open>False\<close>)
  instead.\<close>

primrec dev_getBlocks_array :: "(nat \<times> byte list option) list \<Rightarrow> local_device \<Rightarrow> bfs_error + byte list list option" where
  "dev_getBlocks_array [] d = (if storage d = None then Inl bfsDeviceError else Inr (Some []))"
| "dev_getBlocks_array (p # ps) d =
     bindS (dev_getBlock (fst p) (snd p) d) (\<lambda>r. case r of
       None \<Rightarrow> Inr None
     | Some b \<Rightarrow> bindS (dev_getBlocks_array ps d) (\<lambda>bs. Inr (map_option (Cons b) bs)))"

primrec dev_putBlocks_array :: "(nat \<times> byte list option) list \<Rightarrow> (local_device, bool) comp" where
  "dev_putBlocks_array [] = bindE (getE storage) (\<lambda>st. if st = None then throwE bfsDeviceError else retE True)"
| "dev_putBlocks_array (p # ps) =
     bindE (dev_putBlock (fst p) (snd p)) (\<lambda>ok. if ok then dev_putBlocks_array ps else retE False)"

section \<open>The virtual block cluster\<close>

datatype blk_status = BFS_FAILURE | BFS_SUCCESS | BFS_SUCCESS_CACHE_HIT

text \<open>A physical block object; \<^verbatim>\<open>pb_addr\<close> is the address of the object and \<^verbatim>\<open>rd\<close> the position of its device.\<close>

record pblock =
  pb_addr :: nat
  pb_data :: "byte list"
  pbid :: nat
  rd :: nat
  pb_dirty :: bool

datatype cluster_state = BFSBLK_UNINITIALIZED | BFSBLK_READY | BFSBLK_ERRORED

record blk_alloc_entry =
  used :: bool
  ae_device :: nat
  ae_block :: nat
  timestamp :: nat

record cluster =
  clusterState :: cluster_state
  maxBlockID :: nat
  devices :: "local_device list"
  blkAllocTable :: "blk_alloc_entry list"
  blk_cache :: "pblock bfs_cache"
  pb_fresh :: nat

definition bfsVertBlockCluster :: "int \<Rightarrow> cluster" where
  "bfsVertBlockCluster cache_limit = \<lparr> clusterState = BFSBLK_UNINITIALIZED, maxBlockID = 0, devices = [],
     blkAllocTable = [], blk_cache = bfs_cache_new cache_limit, pb_fresh = 0 \<rparr>"

text \<open>The only states the code passes are the three of the enumeration, so the guard for a nonsense value is
  never taken.\<close>

definition changeClusterState :: "cluster_state \<Rightarrow> cluster \<Rightarrow> cluster" where
  "changeClusterState st c = c \<lparr> clusterState := st \<rparr>"

text \<open>The table is reallocated to \<^verbatim>\<open>maxBlockID\<close> entries, the new ones cleared.\<close>

definition addBlockDevice :: "local_device \<Rightarrow> cluster \<Rightarrow> cluster" where
  "addBlockDevice dev c =
     (let curBlocks = maxBlockID c; mx = u64 (curBlocks + numBlocks dev) in
      c \<lparr> devices := devices c @ [dev], maxBlockID := mx,
          blkAllocTable := take mx (blkAllocTable c) @
            replicate (mx - curBlocks) \<lparr> used = False, ae_device = 0, ae_block = 0, timestamp = 0 \<rparr> \<rparr>)"

definition bfsVertBlockClusterInitialize :: "local_device list option \<Rightarrow> (cluster, bool) comp" where
  "bfsVertBlockClusterInitialize manifest =
     bindE (getE clusterState) (\<lambda>st.
     if st \<noteq> BFSBLK_UNINITIALIZED then retE False
     else case manifest of
       None \<Rightarrow> retE False
     | Some devs \<Rightarrow>
         seqE (modE (fold addBlockDevice devs))
         (seqE (modE (changeClusterState BFSBLK_READY)) (retE True)))"

definition bfsVertBlockClusterUninitialize :: "cluster \<Rightarrow> cluster" where
  "bfsVertBlockClusterUninitialize c = changeClusterState BFSBLK_UNINITIALIZED
     (c \<lparr> blkAllocTable := [], devices := [], maxBlockID := 0 \<rparr>)"

definition bfsClusterFactory :: "int \<Rightarrow> local_device list option \<Rightarrow> cluster option" where
  "bfsClusterFactory cache_limit manifest =
     (case bfsVertBlockClusterInitialize manifest (bfsVertBlockCluster cache_limit) of
        (Inr True, c) \<Rightarrow> Some c | _ \<Rightarrow> None)"

text \<open>The device and physical block of a virtual block: the devices are laid out one after the other.\<close>

fun getPhyBlockAddr_loop :: "nat \<Rightarrow> nat \<Rightarrow> local_device list \<Rightarrow> nat \<Rightarrow> bfs_error + (nat \<times> nat)" where
  "getPhyBlockAddr_loop addr saddr [] i = Inl bfsBlockError"
| "getPhyBlockAddr_loop addr saddr (d # ds) i =
     (if u64 (saddr + numBlocks d) > addr then Inr (i, addr - saddr)
      else getPhyBlockAddr_loop addr (u64 (saddr + numBlocks d)) ds (Suc i))"

definition getPhyBlockAddr :: "nat \<Rightarrow> cluster \<Rightarrow> bfs_error + (nat \<times> nat)" where
  "getPhyBlockAddr addr c = getPhyBlockAddr_loop addr 0 (devices c) 0"

definition on_dev :: "nat \<Rightarrow> (local_device, 'a) comp \<Rightarrow> (cluster, 'a) comp" where
  "on_dev i m = (\<lambda>c. if i < length (devices c)
     then (case m (devices c ! i) of (r, d) \<Rightarrow> (r, c \<lparr> devices := (devices c)[i := d] \<rparr>))
     else (Inl BfsBadPointer, c))"

definition on_cache :: "(pblock bfs_cache, 'a) comp \<Rightarrow> (cluster, 'a) comp" where
  "on_cache m = (\<lambda>c. case m (blk_cache c) of (r, k) \<Rightarrow> (r, c \<lparr> blk_cache := k \<rparr>))"

definition flush_blk :: "pblock \<Rightarrow> (cluster, unit) comp" where
  "flush_blk pblk =
     (if \<not> pb_dirty pblk then retE ()
      else bindE (on_dev (rd pblk) (dev_putBlock (pbid pblk) (Some (pb_data pblk)))) (\<lambda>ok.
        guardE ok BfsAbort))"

definition new_pblock :: "byte list \<Rightarrow> (cluster, pblock) comp" where
  "new_pblock dat = bindE (getE pb_fresh) (\<lambda>a.
     seqE (modE (\<lambda>c. c \<lparr> pb_fresh := a + 1 \<rparr>))
     (retE \<lparr> pb_addr = a, pb_data = dat, pbid = 0, rd = 0, pb_dirty = False \<rparr>))"

text \<open>Putting a block in the cache flushes and deletes the block it displaces.\<close>

definition cache_block :: "nat \<Rightarrow> pblock \<Rightarrow> (cluster, unit) comp" where
  "cache_block vbid pblk =
     bindE (on_cache (insertCache (intCacheKey vbid) 1 pblk)) (\<lambda>cached_blk.
     if pb_addr cached_blk \<noteq> pb_addr pblk then flush_blk cached_blk else retE ())"

definition readBlock_helper :: "bool \<Rightarrow> nat \<Rightarrow> (cluster, blk_status \<times> byte list) comp" where
  "readBlock_helper cache_enabled vbid =
     bindE (getE (getPhyBlockAddr vbid)) (\<lambda>addr.
     bindE (liftS addr) (\<lambda>(dev, pb).
     bindE (if cache_enabled then on_cache (checkCache (intCacheKey vbid) 1 False) else retE None) (\<lambda>obj.
     case obj of
       None \<Rightarrow>
         bindE (new_pblock (replicate BLK_SZ 0)) (\<lambda>p0.
         bindE (getE devices) (\<lambda>devs.
         bindE (liftS (dev_getBlock pb (Some (pb_data p0)) (devs ! dev))) (\<lambda>r. case r of
           None \<Rightarrow> retE (BFS_FAILURE, [])
         | Some d \<Rightarrow>
             let pblk = p0 \<lparr> pb_data := d, pbid := pb, rd := dev \<rparr> in
             seqE (if cache_enabled then cache_block vbid pblk else retE ())
             (retE (BFS_SUCCESS, d)))))
     | Some pblk \<Rightarrow> retE (BFS_SUCCESS_CACHE_HIT, pb_data pblk))))"

definition writeBlock_helper :: "bool \<Rightarrow> nat \<Rightarrow> pblock \<Rightarrow> bool \<Rightarrow> (cluster, blk_status) comp" where
  "writeBlock_helper cache_enabled vbid pblk0 sync =
     bindE (getE (getPhyBlockAddr vbid)) (\<lambda>addr.
     bindE (liftS addr) (\<lambda>(dev, pb).
     let pblk = pblk0 \<lparr> pbid := pb, rd := dev, pb_dirty := True \<rparr> in
     seqE (if cache_enabled then cache_block vbid pblk else retE ())
     (if \<not> cache_enabled \<or> sync then
        bindE (on_dev dev (dev_putBlock pb (Some (pb_data pblk)))) (\<lambda>ok.
        retE (if ok then BFS_SUCCESS else BFS_FAILURE))
      else retE BFS_SUCCESS)))"

section \<open>The block layer\<close>

text \<open>\<^verbatim>\<open>bfsBlockLayer::readBlock\<close> and \<^verbatim>\<open>writeBlock\<close>.  The argument \<^verbatim>\<open>vblk\<close> is the data of the block object, \<^const>\<open>None\<close> a
  block without a buffer; a read returns the data of the object afterwards.\<close>

definition readBlock :: "bool \<Rightarrow> nat \<Rightarrow> byte list option \<Rightarrow> (cluster, blk_status \<times> byte list option) comp" where
  "readBlock cache_enabled vbid vblk =
     (if vblk = None then retE (BFS_FAILURE, vblk)
      else bindE (readBlock_helper cache_enabled vbid) (\<lambda>(ret, dat).
        retE (ret, if ret = BFS_FAILURE then vblk else Some dat)))"

definition writeBlock :: "bool \<Rightarrow> nat \<Rightarrow> byte list option \<Rightarrow> bool \<Rightarrow> (cluster, blk_status) comp" where
  "writeBlock cache_enabled vbid vblk sync = (case vblk of
     None \<Rightarrow> retE BFS_FAILURE
   | Some dat \<Rightarrow>
       bindE (new_pblock dat) (\<lambda>pblk.
       seqE (guardE (length (pb_data pblk) = BLK_SZ) BfsAbort)
       (writeBlock_helper cache_enabled vbid pblk sync)))"

definition set_vbc :: "cluster option \<Rightarrow> nat option" where
  "set_vbc v = (case v of None \<Rightarrow> None | Some c \<Rightarrow> Some (maxBlockID c))"

text \<open>Reading and writing sets of blocks by device.  The lists are ordered by block number, as the code's
  maps are; \<^verbatim>\<open>getPhyBlockAddr\<close> throws before anything is transferred.  The code visits the devices in the order
  of their addresses, the model in the order of the cluster; without an exception the two agree.\<close>

primrec map_addrs :: "nat list \<Rightarrow> cluster \<Rightarrow> bfs_error + (nat \<times> nat) list" where
  "map_addrs [] c = Inr []"
| "map_addrs (v # vs) c =
     bindS (getPhyBlockAddr v c) (\<lambda>a. bindS (map_addrs vs c) (\<lambda>as. Inr (a # as)))"

primrec read_all :: "(nat \<times> nat) list \<Rightarrow> cluster \<Rightarrow> bfs_error + byte list list" where
  "read_all [] c = Inr []"
| "read_all (a # as) c =
     bindS (dev_getBlocks [(snd a, replicate BLK_SZ 0)] (devices c ! fst a)) (\<lambda>bs.
     bindS (read_all as c) (\<lambda>rest. Inr (map snd bs @ rest)))"

definition readBlocks :: "nat list \<Rightarrow> cluster \<Rightarrow> bfs_error + byte list list" where
  "readBlocks vbids c = bindS (map_addrs vbids c) (\<lambda>as. read_all as c)"

primrec write_all :: "((nat \<times> nat) \<times> byte list) list \<Rightarrow> (cluster, unit) comp" where
  "write_all [] = retE ()"
| "write_all (a # as) =
     seqE (on_dev (fst (fst a)) (dev_putBlocks [(snd (fst a), snd a)])) (write_all as)"

definition writeBlocks :: "(nat \<times> byte list) list \<Rightarrow> (cluster, unit) comp" where
  "writeBlocks blks = bindE (getE (map_addrs (map fst blks))) (\<lambda>r.
     bindE (liftS r) (\<lambda>as. write_all (zip as (map snd blks))))"

section \<open>The contract of a block store\<close>

text \<open>What the file system relies on: blocks of \<^verbatim>\<open>BLK_SZ\<close> bytes with the numbers \<^verbatim>\<open>ids\<close>, and a read that returns the last
  write.  \<^verbatim>\<open>look\<close> is the content of the store.\<close>

primrec write_seq :: "(nat \<Rightarrow> byte list \<Rightarrow> ('s, unit) comp) \<Rightarrow> (nat \<times> byte list) list \<Rightarrow> ('s, unit) comp" where
  "write_seq w [] = retE ()"
| "write_seq w (p # ps) = seqE (w (fst p) (snd p)) (write_seq w ps)"

locale block_store =
  fixes ok :: "'s \<Rightarrow> bool"
    and ids :: "'s \<Rightarrow> nat set"
    and look :: "'s \<Rightarrow> nat \<Rightarrow> byte list"
    and rdb :: "nat \<Rightarrow> ('s, byte list) comp"
    and wrb :: "nat \<Rightarrow> byte list \<Rightarrow> ('s, unit) comp"
  assumes rdb_ok: "ok s \<Longrightarrow> v \<in> ids s \<Longrightarrow>
      \<exists>s'. rdb v s = (Inr (look s v), s') \<and> ok s' \<and> ids s' = ids s \<and> (\<forall>u \<in> ids s. look s' u = look s u)"
    and wrb_ok: "ok s \<Longrightarrow> v \<in> ids s \<Longrightarrow> length d = BLK_SZ \<Longrightarrow>
      \<exists>s'. wrb v d s = (Inr (), s') \<and> ok s' \<and> ids s' = ids s \<and>
           (\<forall>u \<in> ids s. look s' u = (if u = v then d else look s u))"
begin

lemma read_after_write:
  assumes "ok s" "v \<in> ids s" "u \<in> ids s" "length d = BLK_SZ"
  shows "fst (seqE (wrb v d) (rdb u) s) = Inr (if u = v then d else look s u)"
proof -
  obtain s' where s': "wrb v d s = (Inr (), s')" "ok s'" "ids s' = ids s"
      "\<forall>u \<in> ids s. look s' u = (if u = v then d else look s u)"
    using wrb_ok[OF assms(1,2,4)] by blast
  obtain s'' where "rdb u s' = (Inr (look s' u), s'')"
    using rdb_ok[of s' u] s' assms(3) by auto
  with s' assms(3) show ?thesis by (simp add: comp_simps)
qed

lemma writes_last:
  assumes "ok s" "\<forall>p\<in>set ps. fst p \<in> ids s \<and> length (snd p) = BLK_SZ"
  shows "\<exists>s'. write_seq wrb ps s = (Inr (), s') \<and> ok s' \<and> ids s' = ids s \<and>
    (\<forall>u \<in> ids s. look s' u = (case map_of (rev ps) u of None \<Rightarrow> look s u | Some d \<Rightarrow> d))"
  using assms
proof (induction ps arbitrary: s)
  case Nil
  then show ?case by (simp add: comp_simps)
next
  case (Cons p ps)
  obtain s' where s': "wrb (fst p) (snd p) s = (Inr (), s')" "ok s'" "ids s' = ids s"
      "\<forall>u \<in> ids s. look s' u = (if u = fst p then snd p else look s u)"
    using wrb_ok[of s "fst p" "snd p"] Cons.prems by auto
  obtain s'' where s'': "write_seq wrb ps s' = (Inr (), s'')" "ok s''" "ids s'' = ids s'"
      "\<forall>u \<in> ids s'. look s'' u = (case map_of (rev ps) u of None \<Rightarrow> look s' u | Some d \<Rightarrow> d)"
    using Cons.IH[of s'] Cons.prems s' by auto
  show ?case
    using s' s'' by (intro exI[of _ s'']) (auto simp: comp_simps map_add_def split: option.splits)
qed

end

section \<open>Well-formed devices and clusters\<close>

definition dev_ok :: "local_device \<Rightarrow> bool" where
  "dev_ok d = (case storage d of None \<Rightarrow> False | Some st \<Rightarrow> (case blockStorage st of None \<Rightarrow> False
     | Some mem \<Rightarrow> st_numBlocks st = numBlocks d \<and> length mem = numBlocks d * BLK_SZ))"

definition dev_blk :: "local_device \<Rightarrow> nat \<Rightarrow> byte list" where
  "dev_blk d b = (case storage d of None \<Rightarrow> [] | Some st \<Rightarrow> (case blockStorage st of None \<Rightarrow> []
     | Some mem \<Rightarrow> chunk (b * BLK_SZ) BLK_SZ mem))"

definition total_blocks :: "local_device list \<Rightarrow> nat" where
  "total_blocks ds = sum_list (map numBlocks ds)"

definition cluster_ok :: "cluster \<Rightarrow> bool" where
  "cluster_ok c \<longleftrightarrow> (\<forall>d\<in>set (devices c). dev_ok d) \<and> total_blocks (devices c) < 2 ^ 64
     \<and> maxBlockID c = total_blocks (devices c)"

definition cluster_blk :: "cluster \<Rightarrow> nat \<Rightarrow> byte list" where
  "cluster_blk c v = (case getPhyBlockAddr v c of Inl _ \<Rightarrow> [] | Inr (i, b) \<Rightarrow> dev_blk (devices c ! i) b)"

lemma block_in_storage: "b < n \<Longrightarrow> b * BLK_SZ + BLK_SZ \<le> n * BLK_SZ"
  using mult_le_mono1[of "Suc b" n BLK_SZ] by simp

lemma blocks_disjoint: "a \<noteq> b \<Longrightarrow> a * BLK_SZ + BLK_SZ \<le> b * BLK_SZ \<or> b * BLK_SZ + BLK_SZ \<le> a * BLK_SZ"
  using block_in_storage[of a b] block_in_storage[of b a] by linarith

lemma dev_okE:
  assumes "dev_ok d"
  obtains st mem where "storage d = Some st" "blockStorage st = Some mem" "st_numBlocks st = numBlocks d"
    "length mem = numBlocks d * BLK_SZ"
  using assms by (auto simp: dev_ok_def split: option.splits)

lemma dev_getBlock_ok:
  assumes "dev_ok d" "b < numBlocks d" "length buf = BLK_SZ"
  shows "dev_getBlock b (Some buf) d = Inr (Some (dev_blk d b))"
  using assms(1)
  by (rule dev_okE) (use assms(2,3) block_in_storage[OF assms(2)] in
    \<open>simp add: dev_getBlock_def storage_getBlock_def getBlockAddress_def dev_blk_def blit_all\<close>)

lemma length_dev_blk: "dev_ok d \<Longrightarrow> b < numBlocks d \<Longrightarrow> length (dev_blk d b) = BLK_SZ"
  by (erule dev_okE) (use block_in_storage[of b "numBlocks d"] in \<open>simp add: dev_blk_def\<close>)

lemma dev_putBlock_ok:
  assumes "dev_ok d" "b < numBlocks d" "length dat = BLK_SZ"
  shows "\<exists>d'. dev_putBlock b (Some dat) d = (Inr True, d') \<and> dev_ok d' \<and> numBlocks d' = numBlocks d
    \<and> (\<forall>a < numBlocks d. dev_blk d' a = (if a = b then dat else dev_blk d a))"
proof -
  obtain st mem where d: "storage d = Some st" "blockStorage st = Some mem" "st_numBlocks st = numBlocks d"
    "length mem = numBlocks d * BLK_SZ" using assms(1) by (rule dev_okE)
  let ?mem = "blit (b * BLK_SZ) dat mem"
  have fits: "b * BLK_SZ + BLK_SZ \<le> length mem" using block_in_storage[OF assms(2)] d by simp
  have blk: "chunk (a * BLK_SZ) BLK_SZ ?mem = (if a = b then dat else chunk (a * BLK_SZ) BLK_SZ mem)"
    if "a < numBlocks d" for a
    using blocks_disjoint[of a b] fits block_in_storage[OF that] assms(3) d
    by (auto simp: chunk_blit_same chunk_blit_disjoint)
  show ?thesis
    using d fits assms blk
    by (simp add: dev_putBlock_def storage_putBlock_def getBlockAddress_def dev_ok_def dev_blk_def)
qed

section \<open>The address map\<close>

lemma total_blocks_simps [simp]:
  "total_blocks [] = 0" "total_blocks (d # ds) = numBlocks d + total_blocks ds"
  by (simp_all add: total_blocks_def)

lemma total_blocks_append: "total_blocks (as @ bs) = total_blocks as + total_blocks bs"
  by (simp add: total_blocks_def)

lemma addr_loop_hit:
  assumes "saddr + total_blocks ds < 2 ^ 64" "i < length ds" "b < numBlocks (ds ! i)"
  shows "getPhyBlockAddr_loop (saddr + total_blocks (take i ds) + b) saddr ds k = Inr (k + i, b)"
  using assms
proof (induction ds arbitrary: saddr i k)
  case (Cons d ds)
  have w: "u64 (saddr + numBlocks d) = saddr + numBlocks d" using Cons.prems(1) by simp
  show ?case
  proof (cases i)
    case 0
    then show ?thesis using Cons.prems(3) by (simp add: w)
  next
    case (Suc j)
    then show ?thesis
      using Cons.IH[of "saddr + numBlocks d" j "Suc k"] Cons.prems by (simp add: w add.assoc)
  qed
qed simp

lemma addr_loop_miss:
  assumes "saddr + total_blocks ds < 2 ^ 64" "saddr + total_blocks ds \<le> v"
  shows "getPhyBlockAddr_loop v saddr ds k = Inl bfsBlockError"
  using assms
proof (induction ds arbitrary: saddr k)
  case (Cons d ds)
  have w: "u64 (saddr + numBlocks d) = saddr + numBlocks d" using Cons.prems(1) by simp
  show ?case using Cons.IH[of "saddr + numBlocks d" "Suc k"] Cons.prems by (simp add: w)
qed simp

lemma split_address:
  "v < total_blocks ds \<Longrightarrow> \<exists>i b. i < length ds \<and> b < numBlocks (ds ! i) \<and> v = total_blocks (take i ds) + b"
proof (induction ds arbitrary: v)
  case (Cons d ds)
  show ?case
  proof (cases "v < numBlocks d")
    case True
    then show ?thesis by (intro exI[of _ 0] exI[of _ v]) simp
  next
    case False
    then have "v - numBlocks d < total_blocks ds" using Cons.prems by simp
    then obtain i b where "i < length ds" "b < numBlocks (ds ! i)" "v - numBlocks d = total_blocks (take i ds) + b"
      using Cons.IH by blast
    with False show ?thesis by (intro exI[of _ "Suc i"] exI[of _ b]) simp
  qed
qed simp

lemma address_hit:
  assumes "total_blocks (devices c) < 2 ^ 64" "v < total_blocks (devices c)"
  shows "\<exists>i b. getPhyBlockAddr v c = Inr (i, b) \<and> i < length (devices c) \<and> b < numBlocks (devices c ! i)
    \<and> v = total_blocks (take i (devices c)) + b"
proof -
  obtain i b where a: "i < length (devices c)" "b < numBlocks (devices c ! i)"
    "v = total_blocks (take i (devices c)) + b" using split_address[OF assms(2)] by blast
  show ?thesis
    using addr_loop_hit[of 0 "devices c" i b 0] assms(1) a by (auto simp: getPhyBlockAddr_def)
qed

text \<open>Only the sizes of the devices matter for the map.\<close>

lemma addr_loop_cong:
  "map numBlocks ds = map numBlocks es \<Longrightarrow> getPhyBlockAddr_loop v s ds k = getPhyBlockAddr_loop v s es k"
proof (induction ds arbitrary: es s k)
  case (Cons d ds)
  then show ?case by (cases es) auto
qed simp

lemma sizes_update:
  assumes "i < length ds" "numBlocks d = numBlocks (ds ! i)"
  shows "map numBlocks (ds[i := d]) = map numBlocks ds"
  using assms by (simp add: map_update list_update_same_conv)

section \<open>The cluster is a block store\<close>

text \<open>The two calls as the file system makes them without the cache: any other status than success is a failure.\<close>

definition cluster_rd :: "nat \<Rightarrow> (cluster, byte list) comp" where
  "cluster_rd v = bindE (readBlock False v (Some (replicate BLK_SZ 0))) (\<lambda>(ret, d). case d of
     Some dat \<Rightarrow> if ret = BFS_FAILURE then throwE BfsServerError else retE dat
   | None \<Rightarrow> throwE BfsServerError)"

definition cluster_wr :: "nat \<Rightarrow> byte list \<Rightarrow> (cluster, unit) comp" where
  "cluster_wr v dat = bindE (writeBlock False v (Some dat) False) (\<lambda>ret.
     if ret = BFS_FAILURE then throwE BfsServerError else retE ())"

lemma pb_fresh_irrelevant [simp]:
  "cluster_ok (c \<lparr> pb_fresh := a \<rparr>) = cluster_ok c"
  "cluster_blk (c \<lparr> pb_fresh := a \<rparr>) v = cluster_blk c v"
  "getPhyBlockAddr v (c \<lparr> pb_fresh := a \<rparr>) = getPhyBlockAddr v c"
  by (simp_all add: cluster_ok_def cluster_blk_def getPhyBlockAddr_def split: sum.split)

lemma readBlock_nocache:
  assumes "cluster_ok c" "v < maxBlockID c"
  shows "readBlock False v (Some buf) c = (Inr (BFS_SUCCESS, Some (cluster_blk c v)), c \<lparr> pb_fresh := Suc (pb_fresh c) \<rparr>)"
proof -
  obtain i b where a: "getPhyBlockAddr v c = Inr (i, b)" "i < length (devices c)" "b < numBlocks (devices c ! i)"
    using address_hit[of c v] assms by (auto simp: cluster_ok_def)
  have d: "dev_ok (devices c ! i)" using assms a by (simp add: cluster_ok_def)
  show ?thesis
    using a dev_getBlock_ok[OF d a(3), of "replicate BLK_SZ 0"]
    by (simp add: readBlock_def readBlock_helper_def new_pblock_def cluster_blk_def bindE_def seqE_def getE_def
      modE_def retE_def liftS_def Let_def)
qed

lemma writeBlock_nocache:
  assumes "cluster_ok c" "v < maxBlockID c" "length dat = BLK_SZ"
  shows "\<exists>c'. writeBlock False v (Some dat) sync c = (Inr BFS_SUCCESS, c') \<and> cluster_ok c' \<and> maxBlockID c' = maxBlockID c
    \<and> (\<forall>u < maxBlockID c. cluster_blk c' u = (if u = v then dat else cluster_blk c u))"
proof -
  obtain i b where a: "getPhyBlockAddr v c = Inr (i, b)" "i < length (devices c)" "b < numBlocks (devices c ! i)"
      "v = total_blocks (take i (devices c)) + b"
    using address_hit[of c v] assms unfolding cluster_ok_def by metis
  have d: "dev_ok (devices c ! i)" using assms a by (simp add: cluster_ok_def)
  obtain d' where d': "dev_putBlock b (Some dat) (devices c ! i) = (Inr True, d')" "dev_ok d'"
      "numBlocks d' = numBlocks (devices c ! i)"
      "\<forall>a < numBlocks (devices c ! i). dev_blk d' a = (if a = b then dat else dev_blk (devices c ! i) a)"
    using dev_putBlock_ok[OF d a(3) assms(3)] by blast
  let ?c = "c \<lparr> pb_fresh := Suc (pb_fresh c), devices := (devices c)[i := d'] \<rparr>"
  have run: "writeBlock False v (Some dat) sync c = (Inr BFS_SUCCESS, ?c)"
    using a(1,2) d'(1) assms(3)
    by (simp add: writeBlock_def writeBlock_helper_def new_pblock_def on_dev_def bindE_def seqE_def getE_def
      modE_def retE_def liftS_def guardE_def Let_def)
  have sizes: "map numBlocks ((devices c)[i := d']) = map numBlocks (devices c)"
    by (rule sizes_update[OF a(2) d'(3)])
  have total: "total_blocks (devices ?c) = total_blocks (devices c)"
    unfolding total_blocks_def using sizes by simp
  have addr: "getPhyBlockAddr u ?c = getPhyBlockAddr u c" for u
    using addr_loop_cong[OF sizes, of u 0 0] by (simp add: getPhyBlockAddr_def)
  have "set ((devices c)[i := d']) \<subseteq> insert d' (set (devices c))" by (rule set_update_subset_insert)
  then have wf: "cluster_ok ?c"
    using assms(1) d'(2) total by (auto simp: cluster_ok_def)
  have blk: "cluster_blk ?c u = (if u = v then dat else cluster_blk c u)" if u: "u < maxBlockID c" for u
  proof -
    obtain j e where p: "getPhyBlockAddr u c = Inr (j, e)" "j < length (devices c)" "e < numBlocks (devices c ! j)"
        "u = total_blocks (take j (devices c)) + e"
      using address_hit[of c u] assms(1) u unfolding cluster_ok_def by metis
    have same: "u = v \<longleftrightarrow> j = i \<and> e = b"
    proof
      assume "u = v"
      then show "j = i \<and> e = b" using p(1) a(1) by simp
    next
      assume "j = i \<and> e = b"
      then show "u = v" using p(4) a(4) by simp
    qed
    show ?thesis
      using p(1,2,3) d'(4) by (cases "j = i") (simp_all add: cluster_blk_def addr same)
  qed
  have "maxBlockID ?c = maxBlockID c" by simp
  with run wf blk show ?thesis by blast
qed

interpretation vbc: block_store cluster_ok "\<lambda>c. {..<maxBlockID c}" cluster_blk cluster_rd cluster_wr
proof unfold_locales
  fix c v
  assume c: "cluster_ok c" "v \<in> {..<maxBlockID c}"
  then show "\<exists>c'. cluster_rd v c = (Inr (cluster_blk c v), c') \<and> cluster_ok c' \<and> {..<maxBlockID c'} = {..<maxBlockID c}
      \<and> (\<forall>u \<in> {..<maxBlockID c}. cluster_blk c' u = cluster_blk c u)"
    by (simp add: cluster_rd_def bindE_def retE_def readBlock_nocache)
next
  fix c v and d :: "byte list"
  assume c: "cluster_ok c" "v \<in> {..<maxBlockID c}" "length d = BLK_SZ"
  show "\<exists>c'. cluster_wr v d c = (Inr (), c') \<and> cluster_ok c' \<and> {..<maxBlockID c'} = {..<maxBlockID c}
      \<and> (\<forall>u \<in> {..<maxBlockID c}. cluster_blk c' u = (if u = v then d else cluster_blk c u))"
  proof -
    obtain c' where "writeBlock False v (Some d) False c = (Inr BFS_SUCCESS, c')" "cluster_ok c'" "maxBlockID c' = maxBlockID c"
        "\<forall>u < maxBlockID c. cluster_blk c' u = (if u = v then d else cluster_blk c u)"
      using writeBlock_nocache[OF c(1) _ c(3), of v False] c(2) by auto
    then show ?thesis by (simp add: cluster_wr_def bindE_def retE_def)
  qed
qed

section \<open>Properties\<close>

lemma total_blocks_prefix:
  assumes "i < length ds" "b < numBlocks (ds ! i)"
  shows "total_blocks (take i ds) + b < total_blocks ds"
  using assms
proof (induction ds arbitrary: i)
  case (Cons d ds)
  then show ?case by (cases i) auto
qed simp

text \<open>C20: Virtual block numbers and pairs of a device and one of its blocks correspond one to one, and a number past
  the last block is an error.\<close>
lemma getPhyBlockAddr_bij:
  assumes "cluster_ok c"
  shows "bij_betw (\<lambda>v. projr (getPhyBlockAddr v c)) {..<maxBlockID c}
      (SIGMA i:{..<length (devices c)}. {..<numBlocks (devices c ! i)})
    \<and> (\<forall>v < maxBlockID c. \<not> isl (getPhyBlockAddr v c))
    \<and> (\<forall>v \<ge> maxBlockID c. getPhyBlockAddr v c = Inl bfsBlockError)"
proof (intro conjI allI impI)
  have t: "total_blocks (devices c) < 2 ^ 64" "maxBlockID c = total_blocks (devices c)"
    using assms by (simp_all add: cluster_ok_def)
  have hit: "\<exists>i b. getPhyBlockAddr v c = Inr (i, b) \<and> i < length (devices c) \<and> b < numBlocks (devices c ! i)
      \<and> v = total_blocks (take i (devices c)) + b" if "v < maxBlockID c" for v
    using address_hit[OF t(1)] t(2) that by simp
  show "\<not> isl (getPhyBlockAddr v c)" if "v < maxBlockID c" for v using hit[OF that] by auto
  show "getPhyBlockAddr v c = Inl bfsBlockError" if "maxBlockID c \<le> v" for v
    using addr_loop_miss[of 0 "devices c" v 0] t that by (simp add: getPhyBlockAddr_def)
  show "bij_betw (\<lambda>v. projr (getPhyBlockAddr v c)) {..<maxBlockID c}
      (SIGMA i:{..<length (devices c)}. {..<numBlocks (devices c ! i)})"
  proof (rule bij_betwI[where g = "\<lambda>(i, b). total_blocks (take i (devices c)) + b"])
    show "(\<lambda>v. projr (getPhyBlockAddr v c)) \<in> {..<maxBlockID c} \<rightarrow>
        (SIGMA i:{..<length (devices c)}. {..<numBlocks (devices c ! i)})"
      using hit by (auto dest!: hit)
    show "(\<lambda>(i, b). total_blocks (take i (devices c)) + b) \<in>
        (SIGMA i:{..<length (devices c)}. {..<numBlocks (devices c ! i)}) \<rightarrow> {..<maxBlockID c}"
      using total_blocks_prefix t(2) by fastforce
    show "(\<lambda>(i, b). total_blocks (take i (devices c)) + b) (projr (getPhyBlockAddr v c)) = v"
      if "v \<in> {..<maxBlockID c}" for v using hit[of v] that by auto
    show "projr (getPhyBlockAddr ((\<lambda>(i, b). total_blocks (take i (devices c)) + b) p) c) = p"
      if "p \<in> (SIGMA i:{..<length (devices c)}. {..<numBlocks (devices c ! i)})" for p
      using addr_loop_hit[of 0 "devices c" "fst p" "snd p" 0] t(1) that
      by (auto simp: getPhyBlockAddr_def)
  qed
qed

definition demo_device :: "nat \<Rightarrow> nat \<Rightarrow> local_device" where
  "demo_device did n = \<lparr> deviceID = did, numBlocks = n,
     storage = Some \<lparr> blockStorage = Some (replicate (n * BLK_SZ) 0), st_numBlocks = n \<rparr> \<rparr>"

definition demo_cluster :: cluster where
  "demo_cluster = fold addBlockDevice [demo_device 0 1, demo_device 1 2] (bfsVertBlockCluster 10)"

lemma demo_cluster_ok: "cluster_ok demo_cluster" "maxBlockID demo_cluster = 3"
  by (simp_all add: demo_cluster_def demo_device_def addBlockDevice_def bfsVertBlockCluster_def Let_def cluster_ok_def dev_ok_def)

theorem getPhyBlockAddr_bij_witness:
  "bij_betw (\<lambda>v. projr (getPhyBlockAddr v demo_cluster)) {..<3}
     (SIGMA i:{..<length (devices demo_cluster)}. {..<numBlocks (devices demo_cluster ! i)})"
  using getPhyBlockAddr_bij[OF demo_cluster_ok(1)] by (simp add: demo_cluster_ok)

text \<open>C11: After any sequence of writes to blocks of the cluster, a read returns the last block written there, or
  the old contents where nothing was written, whatever devices the blocks are on (the cache is off).\<close>
lemma cluster_reads_last_write:
  assumes "cluster_ok c" "\<forall>p\<in>set ps. fst p < maxBlockID c \<and> length (snd p) = BLK_SZ" "v < maxBlockID c"
  shows "fst (seqE (write_seq cluster_wr ps) (readBlock False v (Some buf)) c)
    = Inr (BFS_SUCCESS, Some (case map_of (rev ps) v of None \<Rightarrow> cluster_blk c v | Some d \<Rightarrow> d))"
proof -
  obtain c' where c': "write_seq cluster_wr ps c = (Inr (), c')" "cluster_ok c'" "maxBlockID c' = maxBlockID c"
      "\<forall>u < maxBlockID c. cluster_blk c' u = (case map_of (rev ps) u of None \<Rightarrow> cluster_blk c u | Some d \<Rightarrow> d)"
    using vbc.writes_last[OF assms(1), of ps] assms(2) by (auto simp: lessThan_eq_iff)
  then have "readBlock False v (Some buf) c' = (Inr (BFS_SUCCESS, Some (cluster_blk c' v)), c' \<lparr> pb_fresh := Suc (pb_fresh c') \<rparr>)"
    using readBlock_nocache assms(3) by simp
  with c' assms(3) show ?thesis by (simp add: seqE_Inr)
qed

theorem cluster_reads_last_write_witness:
  "fst (seqE (write_seq cluster_wr [(2, replicate BLK_SZ 7), (0, replicate BLK_SZ 8), (2, replicate BLK_SZ 9)])
     (readBlock False 2 (Some [])) demo_cluster) = Inr (BFS_SUCCESS, Some (replicate BLK_SZ 9))"
  using cluster_reads_last_write[OF demo_cluster_ok(1),
      of "[(2, replicate BLK_SZ 7), (0, replicate BLK_SZ 8), (2, replicate BLK_SZ 9)]" 2 "[]"]
  by (simp add: demo_cluster_ok)

end
