(* ===== verification/Bfs_FsLayer.thy ===== *)
theory Bfs_FsLayer
  imports Bfs_Blocks Bfs_Crypto
begin

text \<open>
  The file system layer \<^verbatim>\<open>src/src/bfs_fs/bfs_fs_layer.cpp\<close>: the security metadata (IV and
  tag) of every block, and the Merkle tree over the tags that is kept in memory.  Leaves of
  the tree are 16-byte block tags, inner nodes 32-byte HMACs of their children.

  The state record holds the static data of the layers below as well; the configuration flags
  and the cryptographic library are the argument \<^verbatim>\<open>E\<close>.
\<close>

section \<open>State\<close>

record bfs_env =
  env_gcrypt :: gcrypt
  env_random :: "nat \<Rightarrow> byte"      \<comment> \<open>the stream of random bytes\<close>
  cache_enabled :: bool
  use_mt :: bool
  use_lwext4 :: bool

text \<open>\<^verbatim>\<open>curr_par\<close> is the scratch buffer of \<^verbatim>\<open>bfs_core.cpp\<close>.  A failed check makes a node of the tree point to
  that buffer, so that node and buffer share their bytes afterwards; \<^verbatim>\<open>par_alias\<close> lists those nodes.\<close>

record fs_layer =
  vbc :: cluster
  num_blocks :: nat
  blk_dev :: "local_device option"
  secContext :: "sa_ctx option"
  random_pos :: nat
  mt_status :: nat
  mt_n :: nat
  mt_height :: nat
  mt_num_nodes :: nat
  mt_nodes :: "byte list option list"
  curr_par :: "byte list option"
  par_alias :: "nat list"

definition on_vbc :: "(cluster, 'a) comp \<Rightarrow> ('z fs_layer_scheme, 'a) comp" where
  "on_vbc m = (\<lambda>s. case m (vbc s) of (r, c) \<Rightarrow> (r, s \<lparr> vbc := c \<rparr>))"

text \<open>\<^verbatim>\<open>get_SA()->getKey()\<close>, used for the sizes of IV and tag.\<close>

definition need_key :: "('z fs_layer_scheme, ckey) comp" where
  "need_key = bindE (getE secContext) (\<lambda>sa. case sa of
     None \<Rightarrow> throwE BfsBadPointer
   | Some c \<Rightarrow> (case saKey c of None \<Rightarrow> throwE BfsBadPointer | Some k \<Rightarrow> retE k))"

section \<open>Raw block access\<close>

text \<open>The block device of the lwext4 build.  \<^const>\<open>None\<close> and \<^const>\<open>False\<close> are the result \<^verbatim>\<open>BFS_FAILURE\<close>.\<close>

definition do_get_block :: "nat \<Rightarrow> ('z fs_layer_scheme, byte list option) comp" where
  "do_get_block b = bindE (getE blk_dev) (\<lambda>d. case d of
     None \<Rightarrow> retE None
   | Some dev \<Rightarrow> liftS (dev_getBlock b (Some (replicate BLK_SZ 0)) dev))"

definition do_put_block :: "nat \<Rightarrow> byte list \<Rightarrow> ('z fs_layer_scheme, bool) comp" where
  "do_put_block b buf = bindE (getE blk_dev) (\<lambda>d. case d of
     None \<Rightarrow> retE False
   | Some dev \<Rightarrow> (case dev_putBlock b (Some buf) dev of (r, dev') \<Rightarrow>
       seqE (modE (\<lambda>s. s \<lparr> blk_dev := Some dev' \<rparr>)) (liftS r)))"

text \<open>The handler for \<^verbatim>\<open>bfsBlockError\<close>.\<close>

definition catch_block_error :: "('s, 'a) comp \<Rightarrow> ('s, 'a) comp \<Rightarrow> ('s, 'a) comp" where
  "catch_block_error m h = catchE m (\<lambda>e. if e = bfsBlockError then h else throwE e)"

definition read_block_helper :: "bfs_env \<Rightarrow> nat \<Rightarrow> ('z fs_layer_scheme, byte list option) comp" where
  "read_block_helper E vbid =
     (if use_lwext4 E then catch_block_error (do_get_block vbid) (retE None)
      else catch_block_error
        (bindE (on_vbc (readBlock (cache_enabled E) vbid (Some (replicate BLK_SZ 0)))) (\<lambda>(ret, dat).
         retE (if ret = BFS_FAILURE then None else dat)))
        (retE None))"

definition write_block_helper :: "bfs_env \<Rightarrow> nat \<Rightarrow> byte list \<Rightarrow> ('z fs_layer_scheme, bool) comp" where
  "write_block_helper E vbid dat =
     (if use_lwext4 E then catch_block_error (do_put_block vbid dat) (retE False)
      else catch_block_error
        (bindE (on_vbc (writeBlock (cache_enabled E) vbid (Some dat) True)) (\<lambda>ret.
         retE (ret \<noteq> BFS_FAILURE)))
        (retE False))"

section \<open>Block metadata\<close>

definition BFS_LWEXT_META_START_BLK_NUM :: "nat \<Rightarrow> nat" where
  "BFS_LWEXT_META_START_BLK_NUM n = n + 1"

definition BFS_LWEXT4_META_SPC :: "nat \<Rightarrow> nat" where
  "BFS_LWEXT4_META_SPC n = n div META_PER_BLK + 1 + 1"

text \<open>The block that holds the metadata of block \<^verbatim>\<open>b\<close>.\<close>

definition meta_blk :: "bfs_env \<Rightarrow> nat \<Rightarrow> nat \<Rightarrow> nat" where
  "meta_blk E n b =
     (if use_lwext4 E then BFS_LWEXT_META_START_BLK_NUM n + BLK_META_BLK_LOC b
      else METADATA_REL_START_BLK_NUM + BLK_META_BLK_LOC b)"

definition meta_off :: "nat \<Rightarrow> nat" where
  "meta_off b = BLK_META_BLK_IDX_LOC b * (BFS_IV_LEN + BFS_MAC_LEN)"

text \<open>\<^verbatim>\<open>memcpy\<close> into a buffer, and of the first bytes of one.\<close>

definition copy_into :: "byte list \<Rightarrow> byte list \<Rightarrow> bfs_error + byte list" where
  "copy_into src dst = (if length src \<le> length dst then Inr (blit 0 src dst) else Inl BfsOutOfBounds)"

definition first_bytes :: "nat \<Rightarrow> byte list \<Rightarrow> bfs_error + byte list" where
  "first_bytes n src = (if n \<le> length src then Inr (take n src) else Inl BfsOutOfBounds)"

text \<open>The test both functions start with.  The IV argument is a pointer to a pointer: \<^const>\<open>None\<close> stands for a
  \<^verbatim>\<open>NULL\<close> argument, \<^term>\<open>Some None\<close> for a \<^verbatim>\<open>NULL\<close> buffer.\<close>

definition meta_args_ok :: "bool \<Rightarrow> byte list option option \<Rightarrow> byte list option \<Rightarrow> bfs_error + bool" where
  "meta_args_ok root ivp mac =
     (if root then Inr (mac \<noteq> None)
      else case ivp of None \<Rightarrow> Inl BfsBadPointer | Some iv \<Rightarrow> Inr (iv \<noteq> None \<or> mac \<noteq> None))"

text \<open>A successful read returns the buffers; \<^const>\<open>None\<close> is \<^verbatim>\<open>BFS_FAILURE\<close>.\<close>

definition extract_meta :: "nat \<Rightarrow> byte list option option \<Rightarrow> byte list option \<Rightarrow> bool \<Rightarrow> byte list \<Rightarrow>
    bfs_error + (byte list option \<times> byte list option)" where
  "extract_meta b ivp mac root blk =
     (if root then
        (case mac of None \<Rightarrow> Inl BfsBadPointer | Some m \<Rightarrow>
         bindS (copy_into (chunk 0 32 blk) m) (\<lambda>m'. Inr (None, Some m')))
      else
        bindS (case ivp of Some (Some iv) \<Rightarrow>
            bindS (copy_into (chunk (meta_off b) BFS_IV_LEN blk) iv) (\<lambda>iv'. Inr (Some iv'))
          | _ \<Rightarrow> Inr None) (\<lambda>iv'.
        bindS (case mac of Some m \<Rightarrow>
            bindS (copy_into (chunk (meta_off b + BFS_IV_LEN) BFS_MAC_LEN blk) m) (\<lambda>m'. Inr (Some m'))
          | None \<Rightarrow> Inr None) (\<lambda>m'. Inr (iv', m'))))"

definition read_blk_meta :: "bfs_env \<Rightarrow> nat \<Rightarrow> byte list option option \<Rightarrow> byte list option \<Rightarrow> bool \<Rightarrow>
    ('z fs_layer_scheme, (byte list option \<times> byte list option) option) comp" where
  "read_blk_meta E b ivp mac root =
     bindE (liftS (meta_args_ok root ivp mac)) (\<lambda>ok.
     if \<not> ok then retE None
     else seqE need_key
       (bindE (getE num_blocks) (\<lambda>n.
        seqE (guardE (use_lwext4 E \<longrightarrow> BLK_META_BLK_LOC b \<le> BFS_LWEXT4_META_SPC n) BfsAbort)
        (bindE (read_block_helper E (meta_blk E n b)) (\<lambda>r. case r of
           None \<Rightarrow> retE None
         | Some blk \<Rightarrow> bindE (liftS (extract_meta b ivp mac root blk)) (\<lambda>x. retE (Some x)))))))"

text \<open>Replacing the IV and tag of one block in a metadata block.\<close>

definition install_meta :: "nat \<Rightarrow> byte list option option \<Rightarrow> byte list option \<Rightarrow> byte list \<Rightarrow> bfs_error + byte list" where
  "install_meta b ivp mac blk =
     bindS (case ivp of Some (Some iv) \<Rightarrow>
         bindS (first_bytes BFS_IV_LEN iv) (\<lambda>v. Inr (blit (meta_off b) v blk))
       | _ \<Rightarrow> Inr blk) (\<lambda>blk1.
     case mac of Some m \<Rightarrow>
         bindS (first_bytes BFS_MAC_LEN m) (\<lambda>v. Inr (blit (meta_off b + BFS_IV_LEN) v blk1))
       | None \<Rightarrow> Inr blk1)"

definition write_blk_meta :: "bfs_env \<Rightarrow> nat \<Rightarrow> byte list option option \<Rightarrow> byte list option \<Rightarrow> bool \<Rightarrow>
    ('z fs_layer_scheme, bool) comp" where
  "write_blk_meta E b ivp mac root =
     bindE (liftS (meta_args_ok root ivp mac)) (\<lambda>ok.
     if \<not> ok then retE False
     else seqE need_key
       (bindE (getE num_blocks) (\<lambda>n.
        seqE (guardE (use_lwext4 E \<longrightarrow> BLK_META_BLK_LOC b < BFS_LWEXT4_META_SPC n) BfsAbort)
        (bindE (if root then
             (case mac of None \<Rightarrow> throwE BfsBadPointer | Some m \<Rightarrow>
              bindE (liftS (first_bytes 32 m)) (\<lambda>h. retE (Some (blit 0 h (replicate BLK_SZ 0)))))
           else
             bindE (read_block_helper E (meta_blk E n b)) (\<lambda>r. case r of
               None \<Rightarrow> retE None
             | Some blk \<Rightarrow> bindE (liftS (install_meta b ivp mac blk)) (\<lambda>x. retE (Some x)))) (\<lambda>new.
         case new of
           None \<Rightarrow> retE False
         | Some dat \<Rightarrow> write_block_helper E (meta_blk E n b) dat)))))"

section \<open>The Merkle tree\<close>

definition leaf_base :: "'z fs_layer_scheme \<Rightarrow> nat" where
  "leaf_base s = 2 ^ mt_height s - 1"

text \<open>The pointer \<^verbatim>\<open>mt.nodes[i].hash\<close>: \<^verbatim>\<open>NULL\<close>, or the bytes it points to.\<close>

definition node_hash :: "nat \<Rightarrow> 'z fs_layer_scheme \<Rightarrow> byte list option" where
  "node_hash i s = (if i \<in> set (par_alias s) then curr_par s else mt_nodes s ! i)"

definition node_ptr :: "nat \<Rightarrow> ('z fs_layer_scheme, byte list option) comp" where
  "node_ptr i = (\<lambda>s. if i < length (mt_nodes s) then (Inr (node_hash i s), s) else (Inl BfsOutOfBounds, s))"

text \<open>Writing through that pointer, and replacing it by a pointer to other bytes.\<close>

definition node_write :: "nat \<Rightarrow> byte list \<Rightarrow> ('z fs_layer_scheme, unit) comp" where
  "node_write i v = bindE (node_ptr i) (\<lambda>p. case p of
     None \<Rightarrow> throwE BfsBadPointer
   | Some _ \<Rightarrow> modE (\<lambda>s.
       if i \<in> set (par_alias s) then s \<lparr> curr_par := Some v \<rparr>
       else s \<lparr> mt_nodes := (mt_nodes s)[i := Some v] \<rparr>))"

definition node_assign :: "nat \<Rightarrow> byte list option \<Rightarrow> ('z fs_layer_scheme, unit) comp" where
  "node_assign i v = seqE (node_ptr i) (modE (\<lambda>s.
     s \<lparr> mt_nodes := (mt_nodes s)[i := v], par_alias := removeAll i (par_alias s) \<rparr>))"

definition child_bytes :: "nat \<Rightarrow> nat \<Rightarrow> ('z fs_layer_scheme, byte list) comp" where
  "child_bytes i hash_sz = bindE (node_ptr i) (\<lambda>p. case p of
     None \<Rightarrow> throwE BfsBadPointer
   | Some v \<Rightarrow> liftS (first_bytes hash_sz v))"

text \<open>\<^verbatim>\<open>hash_node\<close> returns the new bytes of \<^verbatim>\<open>out\<close>.  For a leaf it passes \<^verbatim>\<open>NULL\<close> for the IV.  The children are read
  with the size of a leaf or of an inner node, depending on the level.\<close>

definition hash_node :: "bfs_env \<Rightarrow> nat \<Rightarrow> byte list option \<Rightarrow> ('z fs_layer_scheme, byte list option) comp" where
  "hash_node E i out = bindE (getE mt_height) (\<lambda>h.
     if i \<ge> 2 ^ h - 1 then
       bindE (read_blk_meta E (i - (2 ^ h - 1)) None out False) (\<lambda>r. retE (Option.bind r snd))
     else
       (let hash_sz = (if i \<ge> 2 ^ (h - 1) - 1 then 16 else 32) in
        bindE (child_bytes (2 * i + 1) hash_sz) (\<lambda>left.
        bindE (child_bytes (2 * i + 2) hash_sz) (\<lambda>right.
        bindE need_key (\<lambda>k.
        bindE (liftS (hmacData (env_gcrypt E) (Some k) left right)) (\<lambda>h.
        case out of None \<Rightarrow> throwE BfsBadPointer
        | Some o1 \<Rightarrow> bindE (liftS (copy_into h o1)) (\<lambda>x. retE (Some x))))))))"

text \<open>\<^verbatim>\<open>hash_node (i, mt.nodes[i].hash)\<close>, the way all callers use it.\<close>

definition rehash :: "bfs_env \<Rightarrow> nat \<Rightarrow> ('z fs_layer_scheme, bool) comp" where
  "rehash E i = bindE (node_ptr i) (\<lambda>out. bindE (hash_node E i out) (\<lambda>r. case r of
     None \<Rightarrow> retE False
   | Some v \<Rightarrow> seqE (node_write i v) (retE True)))"

text \<open>Node numbers are 64-bit and unsigned: the subtraction wraps for node 0, which every caller tests for.\<close>

definition parent :: "nat \<Rightarrow> nat" where
  "parent i = (if i = 0 then sub64 0 2 div 2 else if i mod 2 = 0 then (i - 2) div 2 else (i - 1) div 2)"

lemma parent_less [termination_simp]: "i \<noteq> 0 \<Longrightarrow> parent i < i"
  by (auto simp: parent_def)

end
