(* ===== verification/Bfs_Merkle.thy ===== *)
theory Bfs_Merkle
  imports Bfs_FsLayer
begin

text \<open>
  The life of the Merkle tree: set-up and flushing in \<^verbatim>\<open>src/src/bfs_fs/bfs_fs_layer.cpp\<close>, the path
  update and the parent check inside \<^verbatim>\<open>write_blk\<close> and \<^verbatim>\<open>read_blk\<close> of \<^verbatim>\<open>bfs_core.cpp\<close>, and the batch
  versions \<^verbatim>\<open>update_merkle_tree\<close> and \<^verbatim>\<open>verify_mt\<close> of \<^verbatim>\<open>bfs_core_ext4_helpers.cpp\<close>.  The lemmas show
  that updates keep every inner node equal to the HMAC of its children.
\<close>

section \<open>Set-up and flushing\<close>

text \<open>\<^verbatim>\<open>(bfs_vbid_t) log2 ((double) n)\<close> for a positive \<^verbatim>\<open>n\<close>.\<close>

fun floor_log2 :: "nat \<Rightarrow> nat" where
  "floor_log2 n = (if n \<le> 1 then 0 else Suc (floor_log2 (n div 2)))"

declare floor_log2.simps [simp del]

text \<open>The number of nodes is computed with a shift of an \<^verbatim>\<open>int\<close>, which is defined up to a height of 29, and the
  logarithm of zero has no value as an integer: both are errors here.\<close>

definition mt_setup :: "bfs_env \<Rightarrow> ('z fs_layer_scheme, unit) comp" where
  "mt_setup E =
     bindE (getE mt_status) (\<lambda>st.
     if st = 0 then
       bindE (getE (\<lambda>s. if use_lwext4 E then num_blocks s else maxBlockID (vbc s))) (\<lambda>n.
       let h = floor_log2 n in
       seqE (guardE (n \<noteq> 0 \<and> h < 30) BfsOutOfBounds)
       (modE (\<lambda>s. s \<lparr> mt_n := n, mt_height := h, mt_num_nodes := 2 ^ (h + 1) - 1,
            mt_nodes := replicate (2 ^ (h + 1) - 1) None, mt_status := 1 \<rparr>)))
     else retE ())"

text \<open>The loops from the last node down to the root: a missing hash is allocated with the size of its level and,
  unless this is the initial start, computed.  \<^const>\<open>False\<close> is \<^verbatim>\<open>BFS_FAILURE\<close>.\<close>

primrec init_nodes :: "bfs_env \<Rightarrow> bool \<Rightarrow> nat \<Rightarrow> ('z fs_layer_scheme, bool) comp" where
  "init_nodes E initial 0 = retE True"
| "init_nodes E initial (Suc i) =
     bindE need_key (\<lambda>k.
     bindE (getE mt_height) (\<lambda>h.
     bindE (node_ptr i) (\<lambda>p.
     bindE (if p = None then
              seqE (node_assign i (Some (replicate (if i \<ge> 2 ^ h - 1 then maclen k else hmac_len k) 0)))
              (if initial then retE True else rehash E i)
            else retE True) (\<lambda>ok.
     if ok then init_nodes E initial i else retE False))))"

text \<open>The root hash is kept as the metadata of the block one past the last block.\<close>

definition save_root_hash :: "bfs_env \<Rightarrow> ('z fs_layer_scheme, bool) comp" where
  "save_root_hash E =
     bindE (getE (\<lambda>s. (secContext s, num_blocks s))) (\<lambda>(sa, n).
     if sa = None then retE False
     else bindE (node_ptr 0) (\<lambda>root. write_blk_meta E n None root True))"

definition init_merkle_tree :: "bfs_env \<Rightarrow> bool \<Rightarrow> ('z fs_layer_scheme, bool) comp" where
  "init_merkle_tree E initial =
     seqE (mt_setup E)
     (bindE (getE mt_num_nodes) (\<lambda>nn.
      bindE (init_nodes E initial nn) (\<lambda>ok.
      if \<not> ok then retE False
      else if initial then retE True
      else
        bindE (getE (\<lambda>s. (secContext s, num_blocks s))) (\<lambda>(sa, n).
        if sa = None then retE False
        else
          bindE need_key (\<lambda>k.
          bindE (read_blk_meta E n None (Some (replicate (hmac_len k) 0)) True) (\<lambda>r. case r of
            None \<Rightarrow> retE False
          | Some (iv, copy) \<Rightarrow>
              bindE (child_bytes 0 (hmac_len k)) (\<lambda>root.
              retE (copy = Some root))))))))"

definition flush_merkle_tree :: "bfs_env \<Rightarrow> ('z fs_layer_scheme, bool) comp" where
  "flush_merkle_tree E =
     seqE (mt_setup E)
     (bindE (getE mt_num_nodes) (\<lambda>nn.
      bindE (init_nodes E False nn) (\<lambda>ok.
      if \<not> ok then retE False else save_root_hash E)))"

section \<open>One block\<close>

text \<open>The loop of \<^verbatim>\<open>write_blk\<close>: recompute the hashes from a node up to the root.\<close>

function rehash_up :: "bfs_env \<Rightarrow> nat \<Rightarrow> ('z fs_layer_scheme, unit) comp" where
  "rehash_up E i =
     bindE (rehash E i) (\<lambda>ok.
     if \<not> ok then throwE BfsServerError
     else if i = 0 then retE () else rehash_up E (parent i))"
  by pat_completeness auto
termination
  by (relation "measure snd") (auto simp: parent_less)

declare rehash_up.simps [simp del]

definition mt_write_blk :: "bfs_env \<Rightarrow> nat \<Rightarrow> byte list \<Rightarrow> ('z fs_layer_scheme, unit) comp" where
  "mt_write_blk E vbid mac_copy =
     bindE (node_ptr 0) (\<lambda>root.
     seqE (guardE (root \<noteq> None) BfsServerError)
     (bindE (getE leaf_base) (\<lambda>base.
      let i = vbid + base in
      bindE (node_ptr i) (\<lambda>leaf.
      seqE (guardE (leaf \<noteq> None) BfsServerError)
      (seqE (node_assign i (Some mac_copy))
      (rehash_up E (parent i)))))))"

text \<open>The part of \<^verbatim>\<open>read_blk\<close>: put the tag just read in place of the stored one, recompute the parent and compare it
  with its previous value, saved in \<^verbatim>\<open>curr_par\<close>.  On a mismatch the parent's pointer becomes \<^verbatim>\<open>curr_par\<close> itself and
  the leaf gets its old tag back.  The loop ends after the first parent.\<close>

definition save_parent :: "nat \<Rightarrow> ('z fs_layer_scheme, unit) comp" where
  "save_parent i =
     bindE (child_bytes i 32) (\<lambda>old.
     bindE (getE curr_par) (\<lambda>par. case par of
       None \<Rightarrow> throwE BfsBadPointer
     | Some p \<Rightarrow> bindE (liftS (copy_into old p)) (\<lambda>p'. modE (\<lambda>s. s \<lparr> curr_par := Some p' \<rparr>))))"

definition parent_changed :: "nat \<Rightarrow> ('z fs_layer_scheme, bool) comp" where
  "parent_changed i =
     bindE (child_bytes i 32) (\<lambda>now.
     bindE (getE curr_par) (\<lambda>par. retE (map_option (take 32) par \<noteq> Some now)))"

definition mt_read_blk :: "bfs_env \<Rightarrow> nat \<Rightarrow> byte list \<Rightarrow> ('z fs_layer_scheme, unit) comp" where
  "mt_read_blk E vbid mac_copy =
     bindE (node_ptr 0) (\<lambda>root.
     seqE (guardE (root \<noteq> None) BfsServerError)
     (bindE (getE leaf_base) (\<lambda>base.
      let leaf = vbid + base; i = parent leaf in
      bindE (node_ptr leaf) (\<lambda>ih.
      seqE (guardE (ih \<noteq> None) BfsServerError)
      (seqE (node_assign leaf (Some mac_copy))
      (seqE (save_parent i)
      (bindE (rehash E i) (\<lambda>ok.
       seqE (guardE ok BfsServerError)
       (bindE (parent_changed i) (\<lambda>changed.
        if changed then
          seqE (modE (\<lambda>s. s \<lparr> par_alias := i # par_alias s \<rparr>))
          (seqE (node_assign leaf ih)
          (throwE BfsServerError))
        else retE ()))))))))))"

section \<open>Batches\<close>

text \<open>Inserting into the ordered set of node numbers.\<close>

fun set_insert :: "nat \<Rightarrow> nat list \<Rightarrow> nat list" where
  "set_insert x [] = [x]"
| "set_insert x (y # ys) = (if x < y then x # y # ys else if x = y then y # ys else y # set_insert x ys)"

function ancestors :: "nat \<Rightarrow> nat list" where
  "ancestors i = i # (if i = 0 then [] else ancestors (parent i))"
  by pat_completeness auto
termination
  by (relation "measure id") (auto simp: parent_less)

declare ancestors.simps [simp del]

definition unique_nodes :: "nat \<Rightarrow> nat \<Rightarrow> nat \<Rightarrow> nat list" where
  "unique_nodes base vbid_start nvbids =
     fold set_insert (concat (map (\<lambda>j. ancestors (parent (vbid_start + j + base))) [0..<nvbids])) []"

text \<open>An entry \<^const>\<open>None\<close> of \<^verbatim>\<open>macs\<close> is a pointer the caller never set.\<close>

primrec assign_leaves :: "nat \<Rightarrow> byte list option list \<Rightarrow> ('z fs_layer_scheme, bool) comp" where
  "assign_leaves i [] = retE True"
| "assign_leaves i (m # ms) =
     bindE (node_ptr i) (\<lambda>p.
     if p = None then retE False
     else seqE (guardE (m \<noteq> None) BfsBadPointer)
          (seqE (node_assign i m) (assign_leaves (Suc i) ms)))"

primrec rehash_all :: "bfs_env \<Rightarrow> nat list \<Rightarrow> ('z fs_layer_scheme, bool) comp" where
  "rehash_all E [] = retE True"
| "rehash_all E (i # is) = bindE (rehash E i) (\<lambda>ok. if ok then rehash_all E is else retE False)"

text \<open>For an empty batch the assertion after the first loop compares \<^verbatim>\<open>0\<close> with \<^verbatim>\<open>vbid_start - 1 + base\<close>.\<close>

definition update_merkle_tree :: "bfs_env \<Rightarrow> nat \<Rightarrow> byte list option list \<Rightarrow> ('z fs_layer_scheme, bool) comp" where
  "update_merkle_tree E vbid_start macs =
     bindE (node_ptr 0) (\<lambda>root.
     if root = None then retE False
     else
       bindE (getE leaf_base) (\<lambda>base.
       bindE (assign_leaves (vbid_start + base) macs) (\<lambda>ok.
       if \<not> ok then retE False
       else
         seqE (guardE (macs \<noteq> [] \<or> vbid_start + base = 1) BfsAbort)
         (bindE (rehash_all E (rev (unique_nodes base vbid_start (length macs)))) (\<lambda>ok2.
          if \<not> ok2 then retE False else save_root_hash E)))))"

text \<open>The state of the lwext4 helpers: their own status, scratch buffer, the blocks written so far and the access
  log.\<close>

record ext4_layer = fs_layer +
  ext4_status :: nat
  ext4_curr_par :: "byte list option"
  seen :: "nat list option"
  blk_accesses :: "(nat list \<times> nat list) option"

text \<open>The check stops above the level of the direct parents; a mismatch aborts the process.\<close>

primrec check_parents :: "bfs_env \<Rightarrow> nat list \<Rightarrow> ('z ext4_layer_scheme, unit) comp" where
  "check_parents E [] = retE ()"
| "check_parents E (i # is) =
     bindE (getE mt_height) (\<lambda>h.
     if i < 2 ^ (h - 1) - 1 then retE ()
     else
       bindE (child_bytes i 32) (\<lambda>old.
       bindE (getE ext4_curr_par) (\<lambda>par. case par of
         None \<Rightarrow> throwE BfsBadPointer
       | Some p \<Rightarrow>
           bindE (liftS (copy_into old p)) (\<lambda>p'.
           seqE (modE (\<lambda>s. s \<lparr> ext4_curr_par := Some p' \<rparr>))
           (bindE (rehash E i) (\<lambda>ok.
            seqE (guardE ok BfsAbort)
            (bindE (child_bytes i 32) (\<lambda>now.
             seqE (guardE (take 32 p' = now) BfsAbort)
             (check_parents E is)))))))))"

definition verify_mt :: "bfs_env \<Rightarrow> nat \<Rightarrow> byte list option list \<Rightarrow> ('z ext4_layer_scheme, bool) comp" where
  "verify_mt E vbid_start macs =
     bindE (node_ptr 0) (\<lambda>root.
     seqE (guardE (root \<noteq> None) BfsAbort)
     (bindE (getE leaf_base) (\<lambda>base.
      bindE (assign_leaves (vbid_start + base) macs) (\<lambda>ok.
      if \<not> ok then retE False
      else
        seqE (guardE (macs \<noteq> [] \<or> vbid_start + base = 1) BfsAbort)
        (seqE (check_parents E (rev (unique_nodes base vbid_start (length macs))))
        (retE True))))))"

section \<open>Consistency\<close>

definition hmac_ok :: "gcrypt \<Rightarrow> bool" where
  "hmac_ok G \<longleftrightarrow> (\<forall>k d. length (gcry_hmac G k d) = 32)"

definition fs_key :: "'z fs_layer_scheme \<Rightarrow> ckey option" where
  "fs_key s = Option.bind (secContext s) saKey"

definition child_hash :: "bfs_env \<Rightarrow> ckey \<Rightarrow> byte list option list \<Rightarrow> nat \<Rightarrow> byte list" where
  "child_hash E k ns i = key_hmacData (env_gcrypt E) k (the (ns ! (2 * i + 1))) (the (ns ! (2 * i + 2)))"

definition node_size :: "nat \<Rightarrow> nat \<Rightarrow> nat" where
  "node_size h i = (if 2 ^ h - 1 \<le> i then 16 else 32)"

definition tree_shape :: "nat \<Rightarrow> byte list option list \<Rightarrow> bool" where
  "tree_shape h ns \<longleftrightarrow> length ns = 2 ^ (h + 1) - 1 \<and>
     (\<forall>i < length ns. ns ! i \<noteq> None \<and> length (the (ns ! i)) = node_size h i)"

text \<open>Every inner node outside a set of exceptions is the HMAC of its children.\<close>

definition tree_except :: "bfs_env \<Rightarrow> ckey \<Rightarrow> nat \<Rightarrow> nat set \<Rightarrow> byte list option list \<Rightarrow> bool" where
  "tree_except E k h X ns \<longleftrightarrow> tree_shape h ns \<and>
     (\<forall>i < 2 ^ h - 1. i \<notin> X \<longrightarrow> ns ! i = Some (child_hash E k ns i))"

definition tree_ok :: "bfs_env \<Rightarrow> ckey \<Rightarrow> nat \<Rightarrow> byte list option list \<Rightarrow> bool" where
  "tree_ok E k h = tree_except E k h {}"

definition mt_ready :: "bfs_env \<Rightarrow> ckey \<Rightarrow> 'z fs_layer_scheme \<Rightarrow> bool" where
  "mt_ready E k s \<longleftrightarrow> fs_key s = Some k \<and> key_ok k \<and> hmac_len k = 32 \<and> hmac_ok (env_gcrypt E) \<and> par_alias s = []"

lemma length_child_hash:
  "hmac_ok (env_gcrypt E) \<Longrightarrow> hmac_len k = 32 \<Longrightarrow> length (child_hash E k ns i) = 32"
  by (simp add: child_hash_def key_hmacData_def hmac_ok_def)

lemma fs_key_update [simp]: "fs_key (s \<lparr> mt_nodes := ns \<rparr>) = fs_key s" "fs_key (s \<lparr> par_alias := al \<rparr>) = fs_key s"
  "fs_key (s \<lparr> curr_par := cp \<rparr>) = fs_key s" "fs_key (s \<lparr> vbc := c \<rparr>) = fs_key s"
  by (simp_all add: fs_key_def)

lemma mt_ready_update [simp]: "mt_ready E k (s \<lparr> mt_nodes := ns \<rparr>) = mt_ready E k s"
  "mt_ready E k (s \<lparr> curr_par := cp \<rparr>) = mt_ready E k s"
  by (simp_all add: mt_ready_def)

lemma need_key_run: "fs_key s = Some k \<Longrightarrow> need_key s = (Inr k, s)"
  by (auto simp: need_key_def fs_key_def bindE_def getE_def retE_def Option.bind_eq_Some_conv)

lemma node_ptr_run [comp_simps]:
  "par_alias s = [] \<Longrightarrow> i < length (mt_nodes s) \<Longrightarrow> node_ptr i s = (Inr (mt_nodes s ! i), s)"
  by (simp add: node_ptr_def node_hash_def)

lemma child_bytes_run:
  assumes "par_alias s = []" "tree_shape h (mt_nodes s)" "i < length (mt_nodes s)" "n = node_size h i"
  shows "child_bytes i n s = (Inr (the (mt_nodes s ! i)), s)"
  using assms by (auto simp: child_bytes_def tree_shape_def first_bytes_def comp_simps)

lemma inner_children:
  assumes "i < 2 ^ h - (1 :: nat)"
  shows "2 * i + 2 < 2 ^ (h + 1) - 1" "0 < h"
    "2 ^ (h - 1) - 1 \<le> i \<longleftrightarrow> 2 ^ h - 1 \<le> 2 * i + 1"
    "2 ^ h - 1 \<le> 2 * i + 1 \<longleftrightarrow> 2 ^ h - 1 \<le> 2 * i + 2"
proof -
  show h: "0 < h" using assms by (cases h) auto
  then obtain g where g: "h = Suc g" by (cases h) auto
  have p: "(1 :: nat) \<le> 2 ^ g" by simp
  show "2 * i + 2 < 2 ^ (h + 1) - 1" using assms by simp
  show "2 ^ (h - 1) - 1 \<le> i \<longleftrightarrow> 2 ^ h - 1 \<le> 2 * i + 1" using g p by auto
  show "2 ^ h - 1 \<le> 2 * i + 1 \<longleftrightarrow> 2 ^ h - 1 \<le> 2 * i + 2"
    using g p by (auto simp: le_diff_conv2) presburger
qed

lemma rehash_run:
  assumes "mt_ready E k s" "tree_shape (mt_height s) (mt_nodes s)" "i < 2 ^ mt_height s - 1"
  shows "rehash E i s = (Inr True, s \<lparr> mt_nodes := (mt_nodes s)[i := Some (child_hash E k (mt_nodes s) i)] \<rparr>)"
proof -
  let ?h = "mt_height s" and ?ns = "mt_nodes s"
  note c = inner_children[OF assms(3)]
  have len: "length ?ns = 2 ^ (?h + 1) - 1" using assms(2) by (simp add: tree_shape_def)
  have i: "i < length ?ns" "2 * i + 1 < length ?ns" "2 * i + 2 < length ?ns" using c(1) len by linarith+
  obtain old where old: "?ns ! i = Some old" "length old = 32"
    using assms(2,3) i(1) by (auto simp: tree_shape_def node_size_def)
  let ?sz = "if 2 ^ (?h - 1) - 1 \<le> i then 16 else 32"
  have sz: "?sz = node_size ?h (2 * i + 1)" "?sz = node_size ?h (2 * i + 2)"
    using c by (simp_all add: node_size_def)
  have al: "par_alias s = []" "fs_key s = Some k" using assms(1) by (simp_all add: mt_ready_def)
  have hn: "hash_node E i (Some old) s = (Inr (Some (child_hash E k ?ns i)), s)"
    using assms(1,3) old length_child_hash[of E k ?ns i] child_bytes_run[OF al(1) assms(2) i(2) sz(1)]
      child_bytes_run[OF al(1) assms(2) i(3) sz(2)]
    by (cases "2 ^ (?h - 1) - 1 \<le> i")
      (simp_all add: hash_node_def Let_def bindE_def getE_def need_key_run[OF al(2)] liftS_def hmacData_def child_hash_def
        copy_into_def mt_ready_def blit_all retE_def)
  show ?thesis
    using hn old i(1) al by (simp add: rehash_def node_write_def comp_simps)
qed

section \<open>Recomputing a set of ancestors\<close>

text \<open>A strictly descending list that has the parent of each of its nodes.\<close>

fun closed_desc :: "nat list \<Rightarrow> bool" where
  "closed_desc [] = True"
| "closed_desc (x # xs) = ((x = 0 \<or> parent x \<in> set xs) \<and> (\<forall>y \<in> set xs. y < x) \<and> closed_desc xs)"

lemma parent_child: "i \<noteq> 0 \<Longrightarrow> i = 2 * j + 1 \<or> i = 2 * j + 2 \<longleftrightarrow> j = parent i"
  by (auto simp: parent_def)

lemma child_hash_update:
  assumes "i < length ns" "j \<noteq> parent i \<or> i = 0"
  shows "child_hash E k (ns[i := v]) j = child_hash E k ns j"
  using assms parent_child[of i j] by (cases "i = 0") (auto simp: child_hash_def)

lemma tree_shape_update:
  "tree_shape h ns \<Longrightarrow> length v = node_size h i \<Longrightarrow> tree_shape h (ns[i := Some v])"
  by (cases "i < length ns") (auto simp: tree_shape_def nth_list_update)

text \<open>Recomputing the highest node of the exceptions leaves the lower ones as exceptions.\<close>

lemma tree_except_step:
  assumes "tree_except E k h (insert i X) ns" "i < 2 ^ h - 1" "i = 0 \<or> parent i \<in> X"
    and "hmac_ok (env_gcrypt E)" "hmac_len k = 32"
  shows "tree_except E k h X (ns[i := Some (child_hash E k ns i)])"
proof -
  have len: "i < length ns" "\<not> 2 ^ h - 1 \<le> i"
    using assms(1,2) inner_children(1)[OF assms(2)] by (auto simp: tree_except_def tree_shape_def)
  have self: "child_hash E k (ns[i := v]) i = child_hash E k ns i" for v
    using len(1) parent_less[of i] by (intro child_hash_update) fastforce+
  have other: "child_hash E k (ns[i := v]) j = child_hash E k ns j" if "j \<notin> X" for v j
    using len(1) that assms(3) by (intro child_hash_update) auto
  have "tree_shape h (ns[i := Some (child_hash E k ns i)])"
    using assms length_child_hash len(2) by (intro tree_shape_update) (auto simp: tree_except_def node_size_def)
  then show ?thesis
    using assms(1) len self other by (auto simp: tree_except_def nth_list_update)
qed

lemma rehash_all_ok:
  assumes "mt_ready E k s" "tree_except E k (mt_height s) (set xs) (mt_nodes s)" "closed_desc xs"
    and "\<forall>x \<in> set xs. x < 2 ^ mt_height s - 1"
  shows "\<exists>ns. rehash_all E xs s = (Inr True, s \<lparr> mt_nodes := ns \<rparr>) \<and> tree_ok E k (mt_height s) ns
    \<and> (\<forall>i \<ge> 2 ^ mt_height s - 1. ns ! i = mt_nodes s ! i)"
  using assms
proof (induction xs arbitrary: s)
  case Nil
  then show ?case by (intro exI[of _ "mt_nodes s"]) (simp add: tree_ok_def comp_simps)
next
  case (Cons x xs)
  let ?ns = "(mt_nodes s)[x := Some (child_hash E k (mt_nodes s) x)]" and ?h = "mt_height s"
  let ?s = "s \<lparr> mt_nodes := ?ns \<rparr>"
  have r: "rehash E x s = (Inr True, ?s)"
    using Cons.prems by (intro rehash_run) (auto simp: tree_except_def)
  have "tree_except E k ?h (set xs) ?ns"
    using Cons.prems by (intro tree_except_step) (auto simp: mt_ready_def)
  then obtain ns where ns: "rehash_all E xs ?s = (Inr True, ?s \<lparr> mt_nodes := ns \<rparr>)" "tree_ok E k ?h ns"
      "\<forall>i \<ge> 2 ^ ?h - 1. ns ! i = ?ns ! i"
    using Cons.IH[of ?s] Cons.prems by auto
  have "\<forall>i \<ge> 2 ^ ?h - 1. ?ns ! i = mt_nodes s ! i" using Cons.prems(4) by auto
  with ns r show ?case by (intro exI[of _ ns]) (simp add: comp_simps)
qed

text \<open>The path loop is the batch loop over the ancestors.\<close>

lemma ancestors_mem: "x \<in> set (ancestors i) \<Longrightarrow> x \<le> i"
proof (induction i rule: ancestors.induct)
  case (1 i)
  show ?case
  proof (cases "x = i")
    case False
    have "x \<in> set (i # (if i = 0 then [] else ancestors (parent i)))" using "1.prems" by (simp only: ancestors.simps[of i])
    with False have "i \<noteq> 0" "x \<in> set (ancestors (parent i))" by (auto split: if_splits)
    with "1.IH" parent_less[of i] show ?thesis by fastforce
  qed simp
qed

lemma parent_in_ancestors: "parent i \<in> set (ancestors (parent i))"
  by (simp add: ancestors.simps[of "parent i"])

lemma closed_desc_ancestors: "closed_desc (ancestors i)"
proof (induction i rule: ancestors.induct)
  case (1 i)
  show ?case
  proof (cases "i = 0")
    case True
    then show ?thesis by (simp add: ancestors.simps[of 0])
  next
    case False
    have "\<forall>y \<in> set (ancestors (parent i)). y < i"
      using ancestors_mem parent_less[OF False] by (meson le_less_trans)
    with False 1 show ?thesis
      by (simp add: ancestors.simps[of i] parent_in_ancestors)
  qed
qed

lemma rehash_up_all:
  "rehash_up E i s = bindE (rehash_all E (ancestors i)) (\<lambda>ok. if ok then retE () else throwE BfsServerError) s"
proof (induction i arbitrary: s rule: ancestors.induct)
  case (1 i)
  show ?case
    using 1 unfolding rehash_up.simps[of E i] ancestors.simps[of i]
    by (auto simp: bindE_def retE_def throwE_def split: sum.split prod.split)
qed

section \<open>Updating and checking one block\<close>

lemma par_alias_idle: "par_alias s = [] \<Longrightarrow> s \<lparr> mt_nodes := ns, par_alias := [] \<rparr> = s \<lparr> mt_nodes := ns \<rparr>"
  by (cases s) simp

lemma node_assign_run:
  "par_alias s = [] \<Longrightarrow> i < length (mt_nodes s) \<Longrightarrow> node_assign i v s = (Inr (), s \<lparr> mt_nodes := (mt_nodes s)[i := v] \<rparr>)"
  by (simp add: node_assign_def comp_simps par_alias_idle)

lemma parent_half: "i \<noteq> 0 \<Longrightarrow> parent i = (i - 1) div 2"
  unfolding parent_def by (cases "even i") (auto elim!: evenE, arith)

lemma leaf_index:
  assumes "tree_shape h ns" "v < 2 ^ h" "0 < h"
  shows "v + (2 ^ h - 1) < length ns" "parent (v + (2 ^ h - 1)) < 2 ^ h - 1" "0 < length ns"
    "ns ! (v + (2 ^ h - 1)) \<noteq> None" "length (the (ns ! (v + (2 ^ h - 1)))) = 16"
    "\<not> 2 ^ h - 1 \<le> parent (v + (2 ^ h - 1))"
proof -
  obtain g where g: "h = Suc g" using assms(3) by (cases h) auto
  have p: "(1 :: nat) \<le> 2 ^ g" by simp
  show a: "v + (2 ^ h - 1) < length ns" "0 < length ns"
    using assms(1,2) g p by (simp_all add: tree_shape_def)
  have "parent (v + (2 ^ h - 1)) = (v + 2 * 2 ^ g - 2) div 2" 
  proof -
    have "v + (2 ^ h - 1) \<noteq> 0" "v + (2 ^ h - 1) - 1 = v + 2 * 2 ^ g - 2"
      using p unfolding g power_Suc by linarith+
    then show ?thesis by (simp add: parent_half)
  qed
  also have "\<dots> < 2 * 2 ^ g - 1" 
  proof (rule less_mult_imp_div_less)
    show "v + 2 * 2 ^ g - 2 < (2 * 2 ^ g - 1) * 2" using p assms(2)[unfolded g power_Suc] by linarith
  qed
  finally show b: "parent (v + (2 ^ h - 1)) < 2 ^ h - 1" using g by simp
  then show "\<not> 2 ^ h - 1 \<le> parent (v + (2 ^ h - 1))" by simp
  show "ns ! (v + (2 ^ h - 1)) \<noteq> None" "length (the (ns ! (v + (2 ^ h - 1)))) = 16"
    using a assms(1) by (simp_all add: tree_shape_def node_size_def)
qed

lemma ancestors_inner:
  assumes "x \<in> set (ancestors i)" "i < n"
  shows "x < (n :: nat)"
  using ancestors_mem[OF assms(1)] assms(2) by linarith

text \<open>Changing a leaf makes its ancestors the only exceptions.\<close>

lemma tree_except_leaf:
  assumes "tree_except E k h X ns" "2 ^ h - 1 \<le> i" "i < length ns" "0 < h" "length m = 16" "parent i \<in> X"
  shows "tree_except E k h X (ns[i := Some m])"
proof -
  have "(1 :: nat) < 2 ^ h" using assms(4) one_less_power[of "2 :: nat" h] by simp
  then have "i \<noteq> 0" using assms(2) by linarith
  have "tree_shape h ns" "length m = node_size h i" using assms by (simp_all add: tree_except_def node_size_def)
  then have "tree_shape h (ns[i := Some m])" by (rule tree_shape_update)
  moreover have "child_hash E k (ns[i := Some m]) j = child_hash E k ns j" if "j \<notin> X" for j
    using that assms(3,6) by (intro child_hash_update) auto
  moreover have "ns[i := Some m] ! j = ns ! j" if "j < 2 ^ h - 1" for j using that assms(2) by simp
  ultimately show ?thesis using assms(1) unfolding tree_except_def by simp
qed

lemma tree_except_mono: "tree_except E k h X ns \<Longrightarrow> X \<subseteq> Y \<Longrightarrow> tree_except E k h Y ns"
  by (auto simp: tree_except_def)

lemma mt_write_ok:
  assumes "mt_ready E k s" "tree_ok E k (mt_height s) (mt_nodes s)" "0 < mt_height s" "v < 2 ^ mt_height s" "length mac = 16"
  shows "\<exists>ns. mt_write_blk E v mac s = (Inr (), s \<lparr> mt_nodes := ns \<rparr>) \<and> tree_ok E k (mt_height s) ns
    \<and> (\<forall>u < 2 ^ mt_height s. ns ! (u + leaf_base s) = (if u = v then Some mac else mt_nodes s ! (u + leaf_base s)))"
proof -
  let ?h = "mt_height s" and ?i = "v + (2 ^ mt_height s - 1)"
  let ?ns = "(mt_nodes s)[?i := Some mac]"
  let ?s = "s \<lparr> mt_nodes := ?ns \<rparr>"
  have sh: "tree_shape ?h (mt_nodes s)" using assms(2) by (simp add: tree_ok_def tree_except_def)
  note l = leaf_index[OF sh assms(4,3)]
  have al: "par_alias s = []" using assms(1) by (simp add: mt_ready_def)
  have root: "mt_nodes s ! 0 \<noteq> None" using sh l(3) by (simp add: tree_shape_def)
  have "tree_except E k ?h (set (ancestors (parent ?i))) (mt_nodes s)"
    using assms(2) tree_except_mono unfolding tree_ok_def by blast
  then have "tree_except E k ?h (set (ancestors (parent ?i))) ?ns"
    by (rule tree_except_leaf) (use l(1) assms(3,5) parent_in_ancestors in simp_all)
  moreover have "\<forall>x \<in> set (ancestors (parent ?i)). x < 2 ^ ?h - 1" using l(2) ancestors_inner by blast
  ultimately obtain ns where ns: "rehash_all E (ancestors (parent ?i)) ?s = (Inr True, ?s \<lparr> mt_nodes := ns \<rparr>)"
      "tree_ok E k ?h ns" "\<forall>i \<ge> 2 ^ ?h - 1. ns ! i = ?ns ! i"
    using rehash_all_ok[of E k ?s "ancestors (parent ?i)"] assms(1) closed_desc_ancestors[of "parent ?i"] by simp blast
  have up: "rehash_up E (parent ?i) ?s = (Inr (), s \<lparr> mt_nodes := ns \<rparr>)"
    using ns(1) by (simp add: rehash_up_all comp_simps)
  have "mt_write_blk E v mac s = (Inr (), s \<lparr> mt_nodes := ns \<rparr>)"
    using al l root up by (simp add: mt_write_blk_def comp_simps leaf_base_def Let_def node_assign_run)
  moreover have "ns ! (u + leaf_base s) = (if u = v then Some mac else mt_nodes s ! (u + leaf_base s))" for u
  proof -
    have "ns ! (u + (2 ^ ?h - 1)) = ?ns ! (u + (2 ^ ?h - 1))" using ns(3) le_add2 by blast
    also have "\<dots> = (if u = v then Some mac else mt_nodes s ! (u + (2 ^ ?h - 1)))"
      using nth_list_update[OF l(1), of "Some mac" "u + (2 ^ ?h - 1)"] by (simp only: add_right_cancel eq_commute[of v u])
    finally show ?thesis by (simp only: leaf_base_def)
  qed
  ultimately show ?thesis using ns(2) by blast
qed

text \<open>The outcome of the check of one tag against the stored parent.\<close>

definition tag_hash :: "bfs_env \<Rightarrow> ckey \<Rightarrow> 'z fs_layer_scheme \<Rightarrow> nat \<Rightarrow> byte list \<Rightarrow> byte list" where
  "tag_hash E k s v mac = child_hash E k ((mt_nodes s)[v + leaf_base s := Some mac]) (parent (v + leaf_base s))"

lemma mt_read_run:
  assumes "mt_ready E k s" "tree_ok E k (mt_height s) (mt_nodes s)" "0 < mt_height s" "v < 2 ^ mt_height s" "length mac = 16"
    and "curr_par s = Some p" "length p = 32"
  defines "i \<equiv> parent (v + leaf_base s)"
  shows "mt_read_blk E v mac s =
    (if tag_hash E k s v mac = the (mt_nodes s ! i)
     then (Inr (), s \<lparr> curr_par := mt_nodes s ! i, mt_nodes := (mt_nodes s)[v + leaf_base s := Some mac] \<rparr>)
     else (Inl BfsServerError, s \<lparr> curr_par := mt_nodes s ! i, par_alias := [i],
       mt_nodes := (mt_nodes s)[i := Some (tag_hash E k s v mac)] \<rparr>))"
proof -
  let ?h = "mt_height s" and ?l = "v + leaf_base s"
  let ?ns = "(mt_nodes s)[?l := Some mac]"
  have sh: "tree_shape ?h (mt_nodes s)" using assms(2) by (simp add: tree_ok_def tree_except_def)
  note l = leaf_index[OF sh assms(4,3), folded leaf_base_def]
  have al: "par_alias s = []" using assms(1) by (simp add: mt_ready_def)
  have root: "mt_nodes s ! 0 \<noteq> None" using sh l(3) by (simp add: tree_shape_def)
  have il: "i < length (mt_nodes s)" "i \<noteq> ?l" using l(1,2,6) by (auto simp: i_def leaf_base_def)
  obtain old where old: "mt_nodes s ! i = Some old" "length old = 32"
    using sh il l(6) by (auto simp: tree_shape_def node_size_def i_def leaf_base_def)
  have sh2: "tree_shape ?h ?ns" using sh assms(5) by (intro tree_shape_update) (auto simp: node_size_def leaf_base_def)
  let ?s1 = "s \<lparr> mt_nodes := ?ns \<rparr>" and ?s2 = "s \<lparr> curr_par := Some old, mt_nodes := ?ns \<rparr>"
  have sz: "node_size ?h i = 32" using l(6) by (simp add: node_size_def i_def leaf_base_def)
  have sp: "save_parent i ?s1 = (Inr (), ?s2)"
    using child_bytes_run[of ?s1 ?h i 32] al sh2 il sz old assms(6,7)
    by (simp add: save_parent_def bindE_def getE_def liftS_def copy_into_def blit_all modE_def)
  have re: "rehash E i ?s2 = (Inr True, ?s2 \<lparr> mt_nodes := ?ns[i := Some (tag_hash E k s v mac)] \<rparr>)"
    using rehash_run[of E k ?s2 i] assms(1) sh2 l(2) by (simp add: tag_hash_def i_def mt_ready_def leaf_base_def)
  let ?new = "tag_hash E k s v mac"
  let ?s3 = "?s2 \<lparr> mt_nodes := ?ns[i := Some ?new] \<rparr>"
  have new: "length ?new = 32"
    unfolding tag_hash_def using assms(1) by (intro length_child_hash) (simp_all add: mt_ready_def)
  have sh3: "tree_shape ?h (?ns[i := Some ?new])" using tree_shape_update[OF sh2] new sz by simp
  have pc: "parent_changed i ?s3 = (Inr (?new \<noteq> old), ?s3)"
    using child_bytes_run[of ?s3 ?h i 32] al sh3 il sz old
    by (auto simp: parent_changed_def bindE_def getE_def retE_def)
  have run: "mt_read_blk E v mac s = (if ?new = old then (Inr (), ?s3) else
      (Inl BfsServerError, ?s3 \<lparr> par_alias := [i], mt_nodes := ?ns[i := Some ?new, ?l := mt_nodes s ! ?l] \<rparr>))"
    using al l(1,3,4) root sp re pc il
    by (simp add: mt_read_blk_def comp_simps Let_def i_def[symmetric] node_assign_run)
      (simp add: node_assign_def node_ptr_def comp_simps)
  have "?ns[i := Some ?new] = ?ns" if "?new = old" using that old il by (simp add: list_update_same_conv)
  moreover have "?ns[i := Some ?new, ?l := mt_nodes s ! ?l] = (mt_nodes s)[i := Some ?new]"
    using il l(1) by (intro nth_equalityI) (auto simp: nth_list_update)
  ultimately show ?thesis using run old(1) by (cases s) auto
qed

section \<open>Batch updates\<close>

lemma set_set_insert [simp]: "set (set_insert x ys) = insert x (set ys)"
  by (induction x ys rule: set_insert.induct) auto

lemma sorted_set_insert: "sorted_wrt (<) ys \<Longrightarrow> sorted_wrt (<) (set_insert x ys)"
  by (induction x ys rule: set_insert.induct) auto

lemma fold_set_insert:
  "set (fold set_insert xs ys) = set xs \<union> set ys"
  "sorted_wrt (<) ys \<Longrightarrow> sorted_wrt (<) (fold set_insert xs ys)"
  by (induction xs arbitrary: ys) (auto simp: sorted_set_insert)

lemma closed_descI:
  assumes "sorted_wrt (>) xs" "\<forall>x \<in> set xs. x = 0 \<or> parent x \<in> set xs"
  shows "closed_desc xs"
  using assms
proof (induction xs)
  case (Cons x xs)
  have "\<forall>y \<in> set xs. y = 0 \<or> parent y \<in> set xs"
  proof
    fix y assume y: "y \<in> set xs"
    then have "y < x" using Cons.prems(1) by simp
    moreover have "y = 0 \<or> parent y \<in> set (x # xs)" using Cons.prems(2) y by simp
    ultimately show "y = 0 \<or> parent y \<in> set xs" using parent_less[of y] by (cases "y = 0") auto
  qed
  with Cons show ?case using parent_less[of x] by force
qed simp

lemma ancestors_closed: "x \<in> set (ancestors i) \<Longrightarrow> x = 0 \<or> parent x \<in> set (ancestors i)"
proof (induction i rule: ancestors.induct)
  case (1 i)
  have m: "set (ancestors i) = insert i (if i = 0 then {} else set (ancestors (parent i)))"
    by (simp add: ancestors.simps[of i])
  show ?case using 1 parent_in_ancestors[of i] m by (cases "i = 0") auto
qed

lemma set_unique_nodes:
  "set (unique_nodes base st n) = (\<Union>j < n. set (ancestors (parent (st + j + base))))"
  by (auto simp: unique_nodes_def fold_set_insert(1))

lemma closed_desc_unique: "closed_desc (rev (unique_nodes base st n))"
proof (rule closed_descI)
  have "sorted_wrt (<) (unique_nodes base st n)"
    unfolding unique_nodes_def by (rule fold_set_insert(2)) simp
  then show "sorted_wrt (>) (rev (unique_nodes base st n))" by (simp add: sorted_wrt_rev)
  show "\<forall>x \<in> set (rev (unique_nodes base st n)). x = 0 \<or> parent x \<in> set (rev (unique_nodes base st n))"
    unfolding set_rev set_unique_nodes using ancestors_closed by blast
qed

lemma assign_leaves_ok:
  assumes "mt_ready E k s" "tree_except E k (mt_height s) X (mt_nodes s)" "0 < mt_height s" "2 ^ mt_height s - 1 \<le> i"
    and "i + length ms \<le> 2 ^ (mt_height s + 1) - 1" "\<forall>m \<in> set ms. length m = 16" "\<forall>j < length ms. parent (i + j) \<in> X"
  shows "\<exists>ns. assign_leaves i (map Some ms) s = (Inr True, s \<lparr> mt_nodes := ns \<rparr>) \<and> tree_except E k (mt_height s) X ns
    \<and> (\<forall>j. ns ! j = (if i \<le> j \<and> j < i + length ms then Some (ms ! (j - i)) else mt_nodes s ! j))"
  using assms
proof (induction ms arbitrary: i s)
  case Nil
  then show ?case by (intro exI[of _ "mt_nodes s"]) (auto simp: comp_simps)
next
  case (Cons m ms)
  let ?h = "mt_height s" and ?ns = "(mt_nodes s)[i := Some m]"
  let ?s = "s \<lparr> mt_nodes := ?ns \<rparr>"
  have sh: "tree_shape ?h (mt_nodes s)" using Cons.prems(2) by (simp add: tree_except_def)
  have len: "length (mt_nodes s) = 2 ^ (?h + 1) - 1" using sh by (simp add: tree_shape_def)
  then have il: "i < length (mt_nodes s)" using Cons.prems(5) by simp
  have al: "par_alias s = []" using Cons.prems(1) by (simp add: mt_ready_def)
  have pi: "parent i \<in> X" "\<forall>j < length ms. parent (Suc i + j) \<in> X" 
    using Cons.prems(7)[rule_format, of 0] Cons.prems(7)[rule_format, of "Suc _"] by auto
  have t: "tree_except E k ?h X ?ns"
    using Cons.prems(2,4) il Cons.prems(3) _ pi(1) by (rule tree_except_leaf) (use Cons.prems(6) in simp)
  obtain ns where ns: "assign_leaves (Suc i) (map Some ms) ?s = (Inr True, ?s \<lparr> mt_nodes := ns \<rparr>)" "tree_except E k ?h X ns"
      "\<forall>j. ns ! j = (if Suc i \<le> j \<and> j < Suc i + length ms then Some (ms ! (j - Suc i)) else ?ns ! j)"
    using Cons.IH[of ?s "Suc i"] Cons.prems t pi(2) by auto
  have "node_ptr i s = (Inr (mt_nodes s ! i), s)" "mt_nodes s ! i \<noteq> None"
    using al il sh by (auto simp: comp_simps tree_shape_def)
  then have "assign_leaves i (map Some (m # ms)) s = (Inr True, s \<lparr> mt_nodes := ns \<rparr>)"
    using ns(1) al il by (simp add: comp_simps node_assign_run)
  moreover have "ns ! j = (if i \<le> j \<and> j < i + length (m # ms) then Some ((m # ms) ! (j - i)) else mt_nodes s ! j)" for j
    using ns(3) il by (cases "j = i") (auto simp: nth_Cons' Suc_diff_Suc)
  ultimately show ?case using ns(2) by blast
qed

text \<open>The leaves determine the tree.\<close>

lemma tree_unique:
  assumes "tree_ok E k h ns" "tree_ok E k h ms" "\<forall>i \<ge> 2 ^ h - 1. i < 2 ^ (h + 1) - 1 \<longrightarrow> ns ! i = ms ! i"
  shows "ns = ms"
proof (rule nth_equalityI)
  show len: "length ns = length ms"
    using assms by (simp add: tree_ok_def tree_except_def tree_shape_def)
  fix i assume "i < length ns"
  then show "ns ! i = ms ! i"
  proof (induction "length ns - i" arbitrary: i rule: less_induct)
    case less
    have n: "length ns = 2 ^ (h + 1) - 1" using assms(1) by (simp add: tree_ok_def tree_except_def tree_shape_def)
    show ?case
    proof (cases "2 ^ h - 1 \<le> i")
      case True
      then show ?thesis using assms(3) less.prems n by simp
    next
      case False
      then have i: "i < 2 ^ h - 1" by simp
      have c: "2 * i + 2 < length ns" using inner_children(1)[OF i] n by simp
      then have "ns ! (2 * i + 1) = ms ! (2 * i + 1)" "ns ! (2 * i + 2) = ms ! (2 * i + 2)"
        using less.hyps[of "2 * i + 1"] less.hyps[of "2 * i + 2"] by simp_all
      then have "child_hash E k ns i = child_hash E k ms i" by (simp add: child_hash_def)
      with i assms(1,2) show ?thesis by (simp add: tree_ok_def tree_except_def)
    qed
  qed
qed

section \<open>After a failed check\<close>

text \<open>Once the parent of a block is the scratch buffer, comparing the two compares the buffer with itself.\<close>

lemma rehash_alias:
  assumes key: "fs_key s = Some k" "hmac_len k = 32" "hmac_ok (env_gcrypt E)"
    and sh: "tree_shape (mt_height s) (mt_nodes s)" and i: "i < 2 ^ mt_height s - 1"
    and al: "par_alias s = [i]" "curr_par s = Some p" "length p = 32"
  shows "rehash E i s = (Inr True, s \<lparr> curr_par := Some (child_hash E k (mt_nodes s) i) \<rparr>)"
proof -
  let ?h = "mt_height s" and ?ns = "mt_nodes s"
  note c = inner_children[OF i]
  have len: "length ?ns = 2 ^ (?h + 1) - 1" using sh by (simp add: tree_shape_def)
  have il: "i < length ?ns" "2 * i + 1 < length ?ns" "2 * i + 2 < length ?ns" using c(1) len by linarith+
  have cb: "child_bytes j (node_size ?h j) s = (Inr (the (?ns ! j)), s)" if "j < length ?ns" "j \<noteq> i" for j
    using that sh al(1) by (auto simp: child_bytes_def node_ptr_def node_hash_def tree_shape_def first_bytes_def bindE_def liftS_def)
  let ?sz = "if 2 ^ (?h - 1) - 1 \<le> i then 16 else 32"
  have sz: "?sz = node_size ?h (2 * i + 1)" "?sz = node_size ?h (2 * i + 2)"
    using c by (simp_all add: node_size_def)
  have b: "child_bytes (2 * i + 1) ?sz s = (Inr (the (?ns ! (2 * i + 1))), s)"
    unfolding sz(1) using il by (intro cb) simp_all
  have b2: "child_bytes (2 * i + 2) ?sz s = (Inr (the (?ns ! (2 * i + 2))), s)"
    unfolding sz(2) using il by (intro cb) simp_all
  have hn: "hash_node E i (Some p) s = (Inr (Some (child_hash E k ?ns i)), s)"
    using i al(3) length_child_hash[OF key(3,2), of ?ns i] b b2 key(2)
    by (cases "2 ^ (?h - 1) - 1 \<le> i")
      (simp_all add: hash_node_def Let_def bindE_def getE_def need_key_run[OF key(1)] liftS_def hmacData_def child_hash_def
        copy_into_def blit_all retE_def)
  show ?thesis
    using hn il(1) al by (simp add: rehash_def node_write_def node_ptr_def node_hash_def bindE_def seqE_def modE_def retE_def)
qed

lemma mt_read_alias:
  assumes key: "fs_key s = Some k" "hmac_len k = 32" "hmac_ok (env_gcrypt E)"
    and sh: "tree_shape (mt_height s) (mt_nodes s)" "0 < mt_height s" "v < 2 ^ mt_height s" "length mac = 16"
    and al: "par_alias s = [parent (v + leaf_base s)]" "curr_par s = Some p" "length p = 32"
  shows "fst (mt_read_blk E v mac s) = Inr ()"
proof -
  let ?h = "mt_height s" and ?l = "v + leaf_base s"
  let ?i = "parent ?l" and ?ns = "(mt_nodes s)[?l := Some mac]"
  note l = leaf_index[OF sh(1,3,2), folded leaf_base_def]
  have il: "?i < length (mt_nodes s)" "?i \<noteq> ?l" using l(1,2,6) by (auto simp: leaf_base_def)
  have sh2: "tree_shape ?h ?ns" using sh by (intro tree_shape_update) (auto simp: node_size_def leaf_base_def)
  let ?s1 = "s \<lparr> mt_nodes := ?ns \<rparr>"
  let ?new = "child_hash E k ?ns ?i"
  have new: "length ?new = 32" using key by (intro length_child_hash) simp_all
  have root: "node_ptr 0 s = (Inr (node_hash 0 s), s)" "node_hash 0 s \<noteq> None"
    using l(3) sh(1) al by (auto simp: node_ptr_def node_hash_def tree_shape_def)
  have leaf: "node_ptr ?l s = (Inr (mt_nodes s ! ?l), s)"
    using l(1) il al by (simp add: node_ptr_def node_hash_def)
  have as: "node_assign ?l (Some mac) s = (Inr (), ?s1)"
    using leaf il al by (simp add: node_assign_def bindE_def seqE_def modE_def)
  have sp: "save_parent ?i ?s1 = (Inr (), ?s1)"
    using il al by (simp add: save_parent_def child_bytes_def node_ptr_def node_hash_def first_bytes_def copy_into_def
      bindE_def getE_def liftS_def modE_def blit_all)
  have re: "rehash E ?i ?s1 = (Inr True, ?s1 \<lparr> curr_par := Some ?new \<rparr>)"
    using rehash_alias[of ?s1 k E ?i p] key sh2 l(2) al by (simp add: leaf_base_def)
  have pc: "parent_changed ?i (?s1 \<lparr> curr_par := Some ?new \<rparr>) = (Inr False, ?s1 \<lparr> curr_par := Some ?new \<rparr>)"
    using il al new by (simp add: parent_changed_def child_bytes_def node_ptr_def node_hash_def first_bytes_def
      bindE_def getE_def liftS_def retE_def)
  show ?thesis
    using root leaf l(4) as sp re pc by (simp add: mt_read_blk_def bindE_def seqE_def getE_def guardE_def retE_def Let_def)
qed

section \<open>Batch and sequence\<close>

primrec mt_write_seq :: "bfs_env \<Rightarrow> nat \<Rightarrow> byte list list \<Rightarrow> ('z fs_layer_scheme, unit) comp" where
  "mt_write_seq E st [] = retE ()"
| "mt_write_seq E st (m # ms) = seqE (mt_write_blk E st m) (mt_write_seq E (Suc st) ms)"

lemma mt_write_seq_ok:
  assumes "mt_ready E k s" "tree_ok E k (mt_height s) (mt_nodes s)" "0 < mt_height s" "st + length macs \<le> 2 ^ mt_height s"
    and "\<forall>m \<in> set macs. length m = 16"
  shows "\<exists>ns. mt_write_seq E st macs s = (Inr (), s \<lparr> mt_nodes := ns \<rparr>) \<and> tree_ok E k (mt_height s) ns
    \<and> (\<forall>u < 2 ^ mt_height s. ns ! (u + leaf_base s) =
        (if st \<le> u \<and> u < st + length macs then Some (macs ! (u - st)) else mt_nodes s ! (u + leaf_base s)))"
  using assms
proof (induction macs arbitrary: st s)
  case Nil
  then show ?case by (intro exI[of _ "mt_nodes s"]) (auto simp: comp_simps)
next
  case (Cons m ms)
  let ?h = "mt_height s"
  obtain n1 where n1: "mt_write_blk E st m s = (Inr (), s \<lparr> mt_nodes := n1 \<rparr>)" "tree_ok E k ?h n1"
      "\<forall>u < 2 ^ ?h. n1 ! (u + leaf_base s) = (if u = st then Some m else mt_nodes s ! (u + leaf_base s))"
    using mt_write_ok[of E k s st m] Cons.prems by auto
  let ?s = "s \<lparr> mt_nodes := n1 \<rparr>"
  obtain ns where ns: "mt_write_seq E (Suc st) ms ?s = (Inr (), ?s \<lparr> mt_nodes := ns \<rparr>)" "tree_ok E k ?h ns"
      "\<forall>u < 2 ^ ?h. ns ! (u + leaf_base s) =
        (if Suc st \<le> u \<and> u < Suc st + length ms then Some (ms ! (u - Suc st)) else n1 ! (u + leaf_base s))"
    using Cons.IH[of ?s "Suc st"] Cons.prems n1(2) by (auto simp: leaf_base_def)
  have "ns ! (u + leaf_base s) = (if st \<le> u \<and> u < st + length (m # ms) then Some ((m # ms) ! (u - st)) else mt_nodes s ! (u + leaf_base s))"
    if "u < 2 ^ ?h" for u
    using ns(3)[rule_format, OF that] n1(3)[rule_format, OF that] by (auto simp: nth_Cons' Suc_diff_Suc)
  with n1(1) ns(1,2) show ?case by (intro exI[of _ ns]) (simp add: comp_simps)
qed

lemma update_merkle_ok:
  assumes "mt_ready E k s" "tree_ok E k (mt_height s) (mt_nodes s)" "0 < mt_height s" "st + length macs \<le> 2 ^ mt_height s"
    and "macs \<noteq> []" "\<forall>m \<in> set macs. length m = 16"
  shows "\<exists>ns. update_merkle_tree E st (map Some macs) s = save_root_hash E (s \<lparr> mt_nodes := ns \<rparr>) \<and> tree_ok E k (mt_height s) ns
    \<and> (\<forall>u < 2 ^ mt_height s. ns ! (u + leaf_base s) =
        (if st \<le> u \<and> u < st + length macs then Some (macs ! (u - st)) else mt_nodes s ! (u + leaf_base s)))"
proof -
  let ?h = "mt_height s" and ?b = "leaf_base s"
  let ?X = "set (unique_nodes ?b st (length macs))"
  have sh: "tree_shape ?h (mt_nodes s)" using assms(2) by (simp add: tree_ok_def tree_except_def)
  have ne: "0 < length (mt_nodes s)" using leaf_index(3)[OF sh _ assms(3), of 0] by simp
  have "par_alias s = []" using assms(1) by (simp add: mt_ready_def)
  from node_ptr_run[OF this ne] have root: "node_ptr 0 s = (Inr (mt_nodes s ! 0), s)" "mt_nodes s ! 0 \<noteq> None"
    using sh ne unfolding tree_shape_def by blast+
  have X: "\<forall>j < length macs. parent (st + ?b + j) \<in> ?X"
    unfolding set_unique_nodes using parent_in_ancestors by (auto simp: ac_simps)
  have base: "tree_except E k ?h ?X (mt_nodes s)" using assms(2) tree_except_mono unfolding tree_ok_def by blast
  have b: "2 ^ ?h - 1 \<le> st + ?b" "st + ?b + length macs \<le> 2 ^ (?h + 1) - 1"
    using assms(4) by (simp_all add: leaf_base_def)
  obtain n1 where n1: "assign_leaves (st + ?b) (map Some macs) s = (Inr True, s \<lparr> mt_nodes := n1 \<rparr>)"
      "tree_except E k ?h ?X n1"
      "\<forall>j. n1 ! j = (if st + ?b \<le> j \<and> j < st + ?b + length macs then Some (macs ! (j - (st + ?b))) else mt_nodes s ! j)"
    using assign_leaves_ok[OF assms(1) base assms(3) b assms(6) X] by blast
  have inner: "\<forall>x \<in> ?X. x < 2 ^ ?h - 1"
  proof
    fix x assume "x \<in> ?X"
    then obtain j where j: "j < length macs" "x \<in> set (ancestors (parent (st + j + ?b)))" by (auto simp: set_unique_nodes)
    have "st + j < 2 ^ ?h" using j(1) assms(4) by simp
    from leaf_index(2)[OF sh this assms(3)] show "x < 2 ^ ?h - 1" using ancestors_inner[OF j(2)] by (simp add: leaf_base_def)
  qed
  let ?s = "s \<lparr> mt_nodes := n1 \<rparr>"
  obtain ns where ns: "rehash_all E (rev (unique_nodes ?b st (length macs))) ?s = (Inr True, ?s \<lparr> mt_nodes := ns \<rparr>)"
      "tree_ok E k ?h ns" "\<forall>i \<ge> 2 ^ ?h - 1. ns ! i = n1 ! i"
    using rehash_all_ok[of E k ?s "rev (unique_nodes ?b st (length macs))"] assms(1) n1(2) closed_desc_unique inner by auto
  have "update_merkle_tree E st (map Some macs) s = save_root_hash E (s \<lparr> mt_nodes := ns \<rparr>)"
    using root n1(1) ns(1) assms(5) by (auto simp: update_merkle_tree_def bindE_def seqE_def getE_def guardE_def retE_def)
  moreover have "ns ! (u + ?b) = (if st \<le> u \<and> u < st + length macs then Some (macs ! (u - st)) else mt_nodes s ! (u + ?b))" for u
  proof -
    have "2 ^ ?h - 1 \<le> u + ?b" unfolding leaf_base_def by (rule le_add2)
    then show ?thesis using ns(3) n1(3) by simp
  qed
  ultimately show ?thesis using ns(2) by blast
qed

section \<open>Properties\<close>

text \<open>C5: Writing the tag of a block changes that leaf and its ancestors only, and afterwards every inner node of
  the tree is again the HMAC of its two children.\<close>
lemma merkle_write_keeps:
  assumes "mt_ready E k s" "tree_ok E k (mt_height s) (mt_nodes s)" "0 < mt_height s" "v < 2 ^ mt_height s" "length mac = 16"
  shows "\<exists>ns. mt_write_blk E v mac s = (Inr (), s \<lparr> mt_nodes := ns \<rparr>) \<and> tree_ok E k (mt_height s) ns
    \<and> (\<forall>u < 2 ^ mt_height s. ns ! (u + leaf_base s) = (if u = v then Some mac else mt_nodes s ! (u + leaf_base s)))"
  using assms by (rule mt_write_ok)

definition demo_env :: bfs_env where
  "demo_env = \<lparr> env_gcrypt = demo_gcrypt, env_random = (\<lambda>i. word_of_nat i), cache_enabled = False, use_mt = True,
     use_lwext4 = False \<rparr>"

definition demo_tree :: "byte list option list" where
  "demo_tree = replicate 3 (Some (replicate 32 0)) @ replicate 4 (Some (replicate 16 5))"

definition demo_fs :: fs_layer where
  "demo_fs = \<lparr> vbc = demo_cluster, num_blocks = 3, blk_dev = None, secContext = Some demo_sa, random_pos = 0, mt_status = 1,
     mt_n = 4, mt_height = 2, mt_num_nodes = 7, mt_nodes = demo_tree, curr_par = Some (replicate 32 0), par_alias = [] \<rparr>"

abbreviation demo_key :: ckey where
  "demo_key \<equiv> setKeyData (replicate 16 1)"

lemma less_7: "(i :: nat) < 7 \<longleftrightarrow> i \<in> {0, 1, 2, 3, 4, 5, 6}"
  by auto

lemma demo_fs_ok: "mt_ready demo_env demo_key demo_fs" "tree_ok demo_env demo_key (mt_height demo_fs) (mt_nodes demo_fs)"
proof -
  show "mt_ready demo_env demo_key demo_fs"
    by (simp add: mt_ready_def demo_env_def demo_fs_def fs_key_def demo_sa_def key_ok_setKeyData hmac_ok_def demo_gcrypt_def)
      (simp add: setKeyData_def)
  have "tree_shape 2 demo_tree"
    by (auto simp: tree_shape_def demo_tree_def node_size_def less_7 nth_append)
  moreover have "\<forall>i < 2 ^ 2 - 1. demo_tree ! i = Some (child_hash demo_env demo_key demo_tree i)"
    by (auto simp: demo_tree_def child_hash_def key_hmacData_def demo_env_def demo_gcrypt_def setKeyData_def less_Suc_eq numeral_3_eq_3 nth_append)
  ultimately show "tree_ok demo_env demo_key (mt_height demo_fs) (mt_nodes demo_fs)"
    by (simp add: tree_ok_def tree_except_def demo_fs_def)
qed

theorem merkle_write_keeps_witness:
  "\<exists>ns. mt_write_blk demo_env 2 (replicate 16 9) demo_fs = (Inr (), demo_fs \<lparr> mt_nodes := ns \<rparr>)
     \<and> tree_ok demo_env demo_key 2 ns \<and> ns ! 5 = Some (replicate 16 9)"
proof -
  have h: "0 < mt_height demo_fs" "(2 :: nat) < 2 ^ mt_height demo_fs" "length (replicate 16 (9 :: byte)) = 16" "leaf_base demo_fs = 3"
    by (simp_all add: demo_fs_def leaf_base_def)
  from merkle_write_keeps[OF demo_fs_ok h(1-3)] obtain ns where
      "mt_write_blk demo_env 2 (replicate 16 9) demo_fs = (Inr (), demo_fs \<lparr> mt_nodes := ns \<rparr>)"
      "tree_ok demo_env demo_key (mt_height demo_fs) ns"
      "\<forall>u < 2 ^ mt_height demo_fs. ns ! (u + leaf_base demo_fs) = (if u = 2 then Some (replicate 16 9) else mt_nodes demo_fs ! (u + leaf_base demo_fs))"
    by blast
  moreover from this(3)[rule_format, OF h(2)] have "ns ! 5 = Some (replicate 16 9)" by (simp add: h(4))
  ultimately show ?thesis by (auto simp: demo_fs_def)
qed

text \<open>C6: The batch update of a run of blocks, which recomputes every ancestor once, gives the same tree as writing
  the tags one after the other with a full path update each.\<close>
lemma merkle_batch_sequential:
  assumes "mt_ready E k s" "tree_ok E k (mt_height s) (mt_nodes s)" "0 < mt_height s" "st + length macs \<le> 2 ^ mt_height s"
    and "macs \<noteq> []" "\<forall>m \<in> set macs. length m = 16"
  shows "\<exists>ns. mt_write_seq E st macs s = (Inr (), s \<lparr> mt_nodes := ns \<rparr>)
    \<and> update_merkle_tree E st (map Some macs) s = save_root_hash E (s \<lparr> mt_nodes := ns \<rparr>)"
proof -
  obtain ns where ns: "mt_write_seq E st macs s = (Inr (), s \<lparr> mt_nodes := ns \<rparr>)" "tree_ok E k (mt_height s) ns"
      "\<forall>u < 2 ^ mt_height s. ns ! (u + leaf_base s) =
        (if st \<le> u \<and> u < st + length macs then Some (macs ! (u - st)) else mt_nodes s ! (u + leaf_base s))"
    using mt_write_seq_ok[OF assms(1-4,6)] by blast
  obtain ms where ms: "update_merkle_tree E st (map Some macs) s = save_root_hash E (s \<lparr> mt_nodes := ms \<rparr>)"
      "tree_ok E k (mt_height s) ms"
      "\<forall>u < 2 ^ mt_height s. ms ! (u + leaf_base s) =
        (if st \<le> u \<and> u < st + length macs then Some (macs ! (u - st)) else mt_nodes s ! (u + leaf_base s))"
    using update_merkle_ok[OF assms] by blast
  have "ns = ms"
  proof (rule tree_unique[OF ns(2) ms(2)], intro allI impI)
    fix i :: nat assume i: "2 ^ mt_height s - 1 \<le> i" "i < 2 ^ (mt_height s + 1) - 1"
    then have u: "i - leaf_base s < 2 ^ mt_height s" "i - leaf_base s + leaf_base s = i" by (simp_all add: leaf_base_def)
    show "ns ! i = ms ! i" using ns(3)[rule_format, OF u(1)] ms(3)[rule_format, OF u(1)] u(2) by simp
  qed
  with ns ms show ?thesis by blast
qed

theorem merkle_batch_sequential_witness:
  "\<exists>ns. mt_write_seq demo_env 1 [replicate 16 7, replicate 16 8] demo_fs = (Inr (), demo_fs \<lparr> mt_nodes := ns \<rparr>)
    \<and> update_merkle_tree demo_env 1 [Some (replicate 16 7), Some (replicate 16 8)] demo_fs
        = save_root_hash demo_env (demo_fs \<lparr> mt_nodes := ns \<rparr>)"
  using merkle_batch_sequential[OF demo_fs_ok, of 1 "[replicate 16 7, replicate 16 8]"] by (simp add: demo_fs_def)

text \<open>C29: After a read of a block failed its Merkle check, the next read of that block or of its sibling passes the
  check with any tag: the stored parent now is the scratch buffer it is compared with.\<close>
lemma merkle_retry_passes:
  assumes "mt_ready E k s" "tree_ok E k (mt_height s) (mt_nodes s)" "0 < mt_height s" "v < 2 ^ mt_height s" "length mac = 16"
    and "curr_par s = Some p" "length p = 32" "mt_read_blk E v mac s = (Inl BfsServerError, s')"
    and "u < 2 ^ mt_height s" "parent (u + leaf_base s) = parent (v + leaf_base s)" "length tag = 16"
  shows "fst (mt_read_blk E u tag s') = Inr ()"
proof -
  let ?i = "parent (v + leaf_base s)"
  have s': "s' = s \<lparr> curr_par := mt_nodes s ! ?i, par_alias := [?i], mt_nodes := (mt_nodes s)[?i := Some (tag_hash E k s v mac)] \<rparr>"
    using mt_read_run[OF assms(1-7)] assms(8) by (auto split: if_splits)
  have sh: "tree_shape (mt_height s) (mt_nodes s)" using assms(2) by (simp add: tree_ok_def tree_except_def)
  note l = leaf_index[OF sh assms(4,3), folded leaf_base_def]
  have i: "?i < length (mt_nodes s)" "\<not> 2 ^ mt_height s - 1 \<le> ?i" using l(1,2,6) by (auto simp: leaf_base_def)
  obtain old where old: "mt_nodes s ! ?i = Some old" "length old = 32"
    using sh i by (auto simp: tree_shape_def node_size_def)
  have "length (tag_hash E k s v mac) = 32"
    unfolding tag_hash_def using assms(1) by (intro length_child_hash) (simp_all add: mt_ready_def)
  then have "tree_shape (mt_height s) ((mt_nodes s)[?i := Some (tag_hash E k s v mac)])"
    using i(2) by (intro tree_shape_update[OF sh]) (simp add: node_size_def)
  then show ?thesis
    using assms(1,3,9-11) old
    by (intro mt_read_alias[of s' k E u tag old]) (simp_all add: s' mt_ready_def leaf_base_def)
qed

definition echo_env :: bfs_env where
  "echo_env = demo_env \<lparr> env_gcrypt := demo_gcrypt \<lparr> gcry_hmac := (\<lambda>k d. take 32 (d @ replicate 32 0)) \<rparr> \<rparr>"

definition small_fs :: fs_layer where
  "small_fs = demo_fs \<lparr> mt_n := 2, mt_height := 1, mt_num_nodes := 3,
     mt_nodes := [Some (replicate 32 5), Some (replicate 16 5), Some (replicate 16 5)] \<rparr>"

lemma small_fs_ok: "mt_ready echo_env demo_key small_fs" "tree_ok echo_env demo_key (mt_height small_fs) (mt_nodes small_fs)"
proof -
  show "mt_ready echo_env demo_key small_fs"
    by (simp add: mt_ready_def demo_env_def echo_env_def small_fs_def demo_fs_def fs_key_def demo_sa_def key_ok_setKeyData
      hmac_ok_def demo_gcrypt_def) (auto simp: setKeyData_def)
  show "tree_ok echo_env demo_key (mt_height small_fs) (mt_nodes small_fs)"
    by (auto simp: tree_ok_def tree_except_def tree_shape_def node_size_def small_fs_def child_hash_def key_hmacData_def
      echo_env_def setKeyData_def less_Suc_eq numeral_3_eq_3 replicate_add[symmetric])
qed

theorem merkle_retry_passes_witness:
  "\<exists>s'. mt_read_blk echo_env 0 (replicate 16 9) small_fs = (Inl BfsServerError, s') \<and>
     fst (mt_read_blk echo_env 0 (replicate 16 9) s') = Inr ()"
proof -
  have h: "0 < mt_height small_fs" "(0 :: nat) < 2 ^ mt_height small_fs" "length (replicate 16 (9 :: byte)) = 16"
      "curr_par small_fs = Some (replicate 32 0)" "length (replicate 32 (0 :: byte)) = 32"
    by (simp_all add: small_fs_def demo_fs_def)
  have "tag_hash echo_env demo_key small_fs 0 (replicate 16 9) ! 0 = 9"
      "the (mt_nodes small_fs ! parent (0 + leaf_base small_fs)) ! 0 = 5"
    by (simp_all add: tag_hash_def child_hash_def key_hmacData_def small_fs_def leaf_base_def parent_def echo_env_def
      setKeyData_def nth_append)
  then have "tag_hash echo_env demo_key small_fs 0 (replicate 16 9) \<noteq> the (mt_nodes small_fs ! parent (0 + leaf_base small_fs))"
    by auto
  then obtain s' where s': "mt_read_blk echo_env 0 (replicate 16 9) small_fs = (Inl BfsServerError, s')"
    using mt_read_run[OF small_fs_ok h] by auto
  from merkle_retry_passes[OF small_fs_ok h s' h(2) refl h(3)] s' show ?thesis by blast
qed

end
