(* ===== verification/Bfs_BlkIO.thy ===== *)
theory Bfs_BlkIO
  imports Bfs_Merkle
begin

text \<open>
  Reading and writing encrypted, authenticated blocks: \<^verbatim>\<open>BfsHandle::read_blk\<close> and \<^verbatim>\<open>write_blk\<close> of
  \<^verbatim>\<open>src/src/bfs_fs/bfs_core.cpp\<close>, and the block device \<^verbatim>\<open>file_dev_bread\<close>, \<^verbatim>\<open>file_dev_bwrite\<close> that
  \<^verbatim>\<open>bfs_core_ext4_helpers.cpp\<close> gives to lwext4.  They combine the block layer, the security
  metadata, the security association and the Merkle tree.
\<close>

section \<open>File system states\<close>

definition UNINITIALIZED :: nat where "UNINITIALIZED = 0"
definition INITIALIZED :: nat where "INITIALIZED = 1"
definition FORMATTING :: nat where "FORMATTING = 2"
definition FORMATTED :: nat where "FORMATTED = 3"
definition MOUNTED :: nat where "MOUNTED = 4"
definition CORRUPTED :: nat where "CORRUPTED = 5"

lemmas status_defs = UNINITIALIZED_def INITIALIZED_def FORMATTING_def FORMATTED_def MOUNTED_def CORRUPTED_def

record core_blk = fs_layer +
  status :: nat

section \<open>Encrypting a block\<close>

text \<open>A block object without header and trailer space.\<close>

definition vblock :: "byte list \<Rightarrow> flexbuf" where
  "vblock d = \<lparr> buffer = Some d, allocation = length d, hlength = 0, blength = length d, tlength = 0, burnOnFree = True \<rparr>"

text \<open>Running an operation of the security association on a block; the result has the new contents.\<close>

definition on_sa :: "(sa_ctx, 'a) comp \<Rightarrow> byte list \<Rightarrow> ('z fs_layer_scheme, 'a \<times> byte list) comp" where
  "on_sa m d = (\<lambda>s. case secContext s of
     None \<Rightarrow> (Inl BfsBadPointer, s)
   | Some sa \<Rightarrow> (case m (sa \<lparr> sa_buf := vblock d \<rparr>) of (r, sa') \<Rightarrow>
       (map_sum id (\<lambda>x. (x, fb_data (sa_buf sa'))) r, s \<lparr> secContext := Some (sa' \<lparr> sa_buf := sa_buf sa \<rparr>) \<rparr>)))"

text \<open>The associated data: the block number streamed into a buffer of its size.\<close>

definition fill_aad :: "nat \<Rightarrow> (flexbuf, byte list) comp" where
  "fill_aad vbid = seqE (resizeAllocation 0 8 0) (seqE (stream_out U64T (int vbid)) (getE fb_data))"

definition next_random :: "bfs_env \<Rightarrow> nat \<Rightarrow> ('z fs_layer_scheme, nat \<Rightarrow> byte) comp" where
  "next_random E n = bindE (getE random_pos) (\<lambda>p.
     seqE (modE (\<lambda>s. s \<lparr> random_pos := p + n \<rparr>)) (retE (\<lambda>i. env_random E (p + i))))"

text \<open>The IV, the tag and the ciphertext.\<close>

definition encrypt_blk :: "bfs_env \<Rightarrow> byte list \<Rightarrow> byte list \<Rightarrow> ('z fs_layer_scheme, (byte list \<times> byte list) \<times> byte list) comp" where
  "encrypt_blk E aad d = bindE need_key (\<lambda>k. bindE (next_random E (ivlen k)) (\<lambda>rnd.
     on_sa (encryptData2 (env_gcrypt E) rnd aad True True) d))"

definition decrypt_blk :: "bfs_env \<Rightarrow> byte list \<Rightarrow> byte list option \<Rightarrow> byte list option \<Rightarrow> byte list \<Rightarrow> ('z fs_layer_scheme, byte list) comp" where
  "decrypt_blk E aad iv mac d = bindE (on_sa (decryptData2 (env_gcrypt E) aad iv mac) d) (\<lambda>(_, pt). retE pt)"

text \<open>The handler for \<^verbatim>\<open>bfsCryptoError\<close>.\<close>

definition catch_crypto :: "('s, 'a) comp \<Rightarrow> ('s, 'a) comp" where
  "catch_crypto m = catchE m (\<lambda>e. throwE (if e = bfsCryptoError then BfsServerError else e))"

section \<open>The blocks of the native file system\<close>

text \<open>The test for a metadata block.  The end of that range is computed from the key's sizes, so beyond its start
  the test dereferences the security context and its key.\<close>

definition in_meta_range :: "nat \<Rightarrow> ('z fs_layer_scheme, bool) comp" where
  "in_meta_range vbid =
     (if vbid < METADATA_REL_START_BLK_NUM then retE False
      else seqE need_key (bindE (getE (\<lambda>s. maxBlockID (vbc s))) (\<lambda>n. retE (vbid < DATA_REL_START_BLK_NUM n))))"

definition read_blk :: "bfs_env \<Rightarrow> nat \<Rightarrow> ('z core_blk_scheme, byte list) comp" where
  "read_blk E vbid =
     bindE (in_meta_range vbid) (\<lambda>meta.
     seqE (guardE (\<not> meta) BfsServerError)
     (bindE (catch_block_error (on_vbc (readBlock (cache_enabled E) vbid (Some (replicate BLK_SZ 0)))) (throwE BfsServerError)) (\<lambda>(ret, dat).
      seqE (guardE (ret \<noteq> BFS_FAILURE) BfsServerError)
      (bindE (getE (\<lambda>s. (secContext s, status s))) (\<lambda>(sa, st).
       seqE (guardE (sa \<noteq> None) BfsServerError)
       (seqE (guardE (FORMATTED \<le> st) BfsServerError)
       (bindE need_key (\<lambda>k.
        bindE (read_blk_meta E vbid (Some (Some (replicate (ivlen k) 0))) (Some (replicate (maclen k) 0)) False) (\<lambda>r.
        case r of
          None \<Rightarrow> throwE BfsServerError
        | Some (iv, mac) \<Rightarrow>
            bindE (liftS (fst (fill_aad vbid flexbuf_new))) (\<lambda>aad.
            bindE (catch_crypto (decrypt_blk E aad iv mac (the dat))) (\<lambda>pt.
            seqE (guardE (length pt = BLK_SZ) BfsAbort)
            (seqE (if use_mt E \<and> st = MOUNTED \<and> ret \<noteq> BFS_SUCCESS_CACHE_HIT
                   then mt_read_blk E vbid (the mac) else retE ())
            (retE pt)))))))))))))"

text \<open>\<^verbatim>\<open>write_blk\<close> encrypts the caller's block in place; the result is the block afterwards.\<close>

definition write_blk :: "bfs_env \<Rightarrow> nat \<Rightarrow> byte list \<Rightarrow> bool \<Rightarrow> ('z core_blk_scheme, byte list) comp" where
  "write_blk E vbid dat sync =
     bindE (in_meta_range vbid) (\<lambda>meta.
     seqE (guardE (\<not> meta) BfsServerError)
     (bindE (getE (\<lambda>s. (secContext s, status s))) (\<lambda>(sa, st).
      seqE (guardE (sa \<noteq> None) BfsServerError)
      (bindE (liftS (fst (fill_aad vbid flexbuf_new))) (\<lambda>aad.
       bindE (catch_crypto (encrypt_blk E aad dat)) (\<lambda>((iv, mac), ct).
       seqE (guardE (length ct = BLK_SZ) BfsAbort)
       (bindE (write_blk_meta E vbid (Some (Some iv)) (Some mac) False) (\<lambda>ok.
        seqE (guardE ok BfsServerError)
        (bindE (catch_block_error (on_vbc (writeBlock (cache_enabled E) vbid (Some ct) sync)) (throwE BfsServerError)) (\<lambda>ret.
         seqE (guardE (ret \<noteq> BFS_FAILURE) BfsServerError)
         (seqE (if use_mt E \<and> st \<noteq> CORRUPTED \<and> ret \<noteq> BFS_SUCCESS_CACHE_HIT
                then mt_write_blk E vbid mac else retE ())
         (retE ct))))))))))))"

section \<open>The block device of lwext4\<close>

text \<open>The buffer for the associated data is reused from block to block.\<close>

definition refill_aad :: "nat \<Rightarrow> (flexbuf, byte list) comp" where
  "refill_aad vbid = seqE (modE burn) (fill_aad vbid)"

definition lift_buf :: "(flexbuf, 'a) comp \<Rightarrow> flexbuf \<Rightarrow> ('s, 'a \<times> flexbuf) comp" where
  "lift_buf m fb = (case m fb of (Inl e, _) \<Rightarrow> throwE e | (Inr x, fb') \<Rightarrow> retE (x, fb'))"

definition mem_set :: "nat \<Rightarrow> byte list \<Rightarrow> byte list \<Rightarrow> bfs_error + byte list" where
  "mem_set off src buf = (if off + length src \<le> length buf then Inr (blit off src buf) else Inl BfsOutOfBounds)"

text \<open>One block of a read: \<^const>\<open>None\<close> is a failure; otherwise the new buffer, its tag if it was read, and the
  associated-data buffer.  A block not written since formatting began is not read: the code clears the start of the
  whole buffer and goes on.\<close>

definition bread_one :: "bfs_env \<Rightarrow> nat \<Rightarrow> nat \<Rightarrow> byte list \<Rightarrow> flexbuf \<Rightarrow>
    ('z ext4_layer_scheme, (byte list \<times> byte list option \<times> flexbuf) option) comp" where
  "bread_one E blk_id j buf aadb =
     (let vbid = u64 (blk_id + j) in
      bindE (getE (\<lambda>s. ext4_status s \<ge> FORMATTING \<and> vbid \<notin> set (the (seen s)))) (\<lambda>skip.
      if skip then
        bindE (liftS (mem_set 0 (replicate BLK_SZ 0) buf)) (\<lambda>buf'. retE (Some (buf', None, aadb)))
      else
        bindE need_key (\<lambda>k.
        bindE (do_get_block vbid) (\<lambda>raw. case raw of
          None \<Rightarrow> retE None
        | Some ct \<Rightarrow>
            bindE (read_blk_meta E vbid (Some (Some (replicate (ivlen k) 0))) (Some (replicate (maclen k) 0)) False) (\<lambda>r.
            case r of
              None \<Rightarrow> retE None
            | Some (iv, mac) \<Rightarrow>
                bindE (lift_buf (refill_aad vbid) aadb) (\<lambda>(aad, aadb').
                bindE (decrypt_blk E aad iv mac ct) (\<lambda>pt.
                seqE (guardE (length pt = BLK_SZ) BfsAbort)
                (bindE (liftS (mem_set (j * BLK_SZ) pt buf)) (\<lambda>buf'.
                 retE (Some (buf', mac, aadb')))))))))))"

text \<open>The loop; \<^verbatim>\<open>macs\<close> are the tags of the blocks before \<^verbatim>\<open>j\<close>.  The check runs when the last block has been read.\<close>

fun bread_loop :: "bfs_env \<Rightarrow> nat \<Rightarrow> nat \<Rightarrow> nat \<Rightarrow> byte list \<Rightarrow> byte list option list \<Rightarrow> flexbuf \<Rightarrow>
    ('z ext4_layer_scheme, bool \<times> byte list) comp" where
  "bread_loop E blk_id blk_cnt 0 buf macs aadb = retE (True, buf)"
| "bread_loop E blk_id blk_cnt (Suc n) buf macs aadb =
     (let j = blk_cnt - Suc n in
      bindE (bread_one E blk_id j buf aadb) (\<lambda>r. case r of
        None \<Rightarrow> retE (False, buf)
      | Some (buf', mac, aadb') \<Rightarrow>
          bindE (getE ext4_status) (\<lambda>st.
          bindE (if mac \<noteq> None \<and> n = 0 \<and> use_mt E \<and> st = MOUNTED
                 then verify_mt E blk_id (macs @ [mac]) else retE True) (\<lambda>ok.
          if ok then bread_loop E blk_id blk_cnt n buf' (macs @ [mac]) aadb' else retE (False, buf')))))"

definition log_access :: "bool \<Rightarrow> nat \<Rightarrow> 'z ext4_layer_scheme \<Rightarrow> 'z ext4_layer_scheme" where
  "log_access wr b s = s \<lparr> blk_accesses := map_option (\<lambda>(r, w). if wr then (r, w @ [b]) else (r @ [b], w)) (blk_accesses s) \<rparr>"

definition file_dev_bread :: "bfs_env \<Rightarrow> byte list \<Rightarrow> nat \<Rightarrow> nat \<Rightarrow> ('z ext4_layer_scheme, bool \<times> byte list) comp" where
  "file_dev_bread E buf blk_id blk_cnt =
     bindE (getE (\<lambda>s. (blk_dev s, secContext s, seen s))) (\<lambda>(dev, sa, sn).
     if dev = None then retE (False, buf)
     else if blk_cnt = 0 then retE (True, buf)
     else if sa = None then retE (False, buf)
     else seqE (modE (log_access False blk_id))
       (if sn = None then retE (False, buf)
        else bread_loop E blk_id blk_cnt blk_cnt buf [] flexbuf_new))"

definition bwrite_one :: "bfs_env \<Rightarrow> nat \<Rightarrow> byte list \<Rightarrow> flexbuf \<Rightarrow>
    ('z ext4_layer_scheme, (byte list \<times> flexbuf) option) comp" where
  "bwrite_one E vbid dat aadb =
     seqE (modE (\<lambda>s. if ext4_status s \<ge> FORMATTING \<and> vbid \<notin> set (the (seen s))
                      then s \<lparr> seen := map_option (\<lambda>xs. xs @ [vbid]) (seen s) \<rparr> else s))
     (seqE need_key
     (bindE (lift_buf (refill_aad vbid) aadb) (\<lambda>(aad, aadb').
      bindE (encrypt_blk E aad dat) (\<lambda>((iv, mac), ct).
      seqE (guardE (length ct = BLK_SZ) BfsAbort)
      (bindE (write_blk_meta E vbid (Some (Some iv)) (Some mac) False) (\<lambda>ok.
       if \<not> ok then retE None
       else bindE (do_put_block vbid ct) (\<lambda>ok2.
         retE (if ok2 then Some (mac, aadb') else None))))))))"

fun bwrite_loop :: "bfs_env \<Rightarrow> nat \<Rightarrow> nat \<Rightarrow> nat \<Rightarrow> byte list \<Rightarrow> byte list option list \<Rightarrow> flexbuf \<Rightarrow>
    ('z ext4_layer_scheme, bool) comp" where
  "bwrite_loop E blk_id blk_cnt 0 buf macs aadb = retE True"
| "bwrite_loop E blk_id blk_cnt (Suc n) buf macs aadb =
     (let j = blk_cnt - Suc n in
      seqE (guardE (j * BLK_SZ + BLK_SZ \<le> length buf) BfsOutOfBounds)
      (bindE (bwrite_one E (u64 (blk_id + j)) (chunk (j * BLK_SZ) BLK_SZ buf) aadb) (\<lambda>r. case r of
         None \<Rightarrow> retE False
       | Some (mac, aadb') \<Rightarrow>
           bindE (getE ext4_status) (\<lambda>st.
           bindE (if n = 0 \<and> use_mt E \<and> st \<noteq> CORRUPTED
                  then update_merkle_tree E blk_id (macs @ [Some mac]) else retE True) (\<lambda>ok.
           if ok then bwrite_loop E blk_id blk_cnt n buf (macs @ [Some mac]) aadb' else retE False)))))"

definition file_dev_bwrite :: "bfs_env \<Rightarrow> byte list \<Rightarrow> nat \<Rightarrow> nat \<Rightarrow> ('z ext4_layer_scheme, bool) comp" where
  "file_dev_bwrite E buf blk_id blk_cnt =
     bindE (getE (\<lambda>s. (blk_dev s, secContext s, seen s))) (\<lambda>(dev, sa, sn).
     if dev = None then retE False
     else if blk_cnt = 0 then retE True
     else if sa = None then retE False
     else seqE (modE (log_access True blk_id))
       (if sn = None then retE False
        else bwrite_loop E blk_id blk_cnt blk_cnt buf [] flexbuf_new))"

text \<open>The wrappers for one block object.\<close>

definition do_file_dev_bwrite :: "bfs_env \<Rightarrow> nat \<Rightarrow> byte list \<Rightarrow> ('z ext4_layer_scheme, bool) comp" where
  "do_file_dev_bwrite E vbid dat = bindE (getE secContext) (\<lambda>sa.
     if sa = None then retE False else file_dev_bwrite E dat vbid 1)"

definition do_file_dev_bread :: "bfs_env \<Rightarrow> nat \<Rightarrow> byte list \<Rightarrow> ('z ext4_layer_scheme, bool \<times> byte list) comp" where
  "do_file_dev_bread E vbid dat = bindE (getE secContext) (\<lambda>sa.
     if sa = None then retE (False, dat) else file_dev_bread E dat vbid 1)"

text \<open>Opening and closing the device.  \<^verbatim>\<open>mem\<close> is the mapping of its storage and \<^verbatim>\<open>ph_bcnt\<close> the block count lwext4
  asks for; \<^const>\<open>None\<close> is a \<^verbatim>\<open>NULL\<close> device description.\<close>

definition file_dev_open :: "bfs_env \<Rightarrow> byte list option \<Rightarrow> nat option \<Rightarrow> ('z ext4_layer_scheme, bool) comp" where
  "file_dev_open E mem bdev =
     bindE (getE (\<lambda>s. (blk_dev s, num_blocks s))) (\<lambda>(d, n).
     if d \<noteq> None then retE True
     else case bdev of
       None \<Rightarrow> retE False
     | Some ph_bcnt \<Rightarrow>
         seqE need_key
         (case bfsDeviceInitialize mem (bfsLocalDevice 1 (u64 (ph_bcnt + BFS_LWEXT4_META_SPC n))) of (r, dev) \<Rightarrow>
           seqE (modE (\<lambda>s. s \<lparr> blk_dev := Some dev \<rparr>))
           (seqE (liftS r)
           (if use_mt E then
              bindE (getE ext4_status) (\<lambda>st.
              if st = FORMATTED \<or> st = FORMATTING then init_merkle_tree E True else retE False)
            else retE True))))"

definition file_dev_close :: "bfs_env \<Rightarrow> ('z ext4_layer_scheme, bool) comp" where
  "file_dev_close E =
     bindE (getE (\<lambda>s. (blk_dev s, ext4_status s))) (\<lambda>(d, st). case d of
       None \<Rightarrow> retE False
     | Some dev \<Rightarrow>
         bindE (if use_mt E then
                  (if st = MOUNTED \<or> st = FORMATTING then flush_merkle_tree E else retE False)
                else retE True) (\<lambda>ok.
         if \<not> ok then retE False
         else seqE (liftS (fst (bfsDeviceUninitialize dev)))
           (seqE (modE (\<lambda>s. s \<lparr> blk_dev := None \<rparr>)) (retE True))))"

section \<open>Running the pieces\<close>

lemma fill_aad_new: "fst (fill_aad v flexbuf_new) = Inr (fb_encode U64T (int v) @ replicate 8 0)"
proof -
  have len: "length (fb_encode U64T (int v)) = 8" by simp
  have "fb_encode U64T (int v) \<noteq> []" using len by (metis list.size(3) zero_neq_numeral)
  then show ?thesis
    using len
    by (simp add: fill_aad_def stream_out_def addHeader_val_def addHeader_def resizeAllocation_def flexbuf_new_def
      do_alloc_def fb_write_def fb_data_def BFSFLEXBUF_DEFAULT_PAD_def u32_def Let_def bindE_def seqE_def getE_def modE_def
      retE_def throwE_def guardE_def blit_def chunk_def)
qed

text \<open>The associated data of a block.\<close>

definition vbid_aad :: "nat \<Rightarrow> byte list" where
  "vbid_aad v = fb_encode U64T (int v) @ replicate 8 0"

text \<open>A use of the key leaves its cipher handle changed.\<close>

definition with_handle :: "ckey \<Rightarrow> (byte list \<times> byte list \<times> byte list) option \<Rightarrow> 'z fs_layer_scheme \<Rightarrow> 'z fs_layer_scheme" where
  "with_handle k h s = s \<lparr> secContext := map_option (\<lambda>sa. sa \<lparr> saKey := Some (k \<lparr> handle := h \<rparr>) \<rparr>) (secContext s) \<rparr>"

lemma vblock_ok: "length d < 2 ^ 32 \<Longrightarrow> fb_ok (vblock d)" "fb_data (vblock d) = d" "blength (vblock d) = length d"
  by (auto simp: vblock_def fb_ok_def fb_rep_def fb_data_def chunk_def)

lemma encrypt_blk_run:
  assumes G: "gcm_ok (env_gcrypt E)" and key: "fs_key s = Some k" "key_ok k" and d: "length d = BLK_SZ"
  obtains iv ct where
    "encrypt_blk E aad d s = (Inr ((iv, gcry_tag (env_gcrypt E) (take 16 (keydat k)) iv aad ct), ct),
       with_handle k (Some (iv, aad, ct)) (s \<lparr> random_pos := random_pos s + 12 \<rparr>))"
    "length iv = 12" "length ct = BLK_SZ"
    "gcry_decrypt (env_gcrypt E) (take 16 (keydat k)) iv aad ct = Some d"
proof -
  let ?G = "env_gcrypt E" and ?key = "take 16 (keydat k)"
  obtain sa where sa: "secContext s = Some sa" "saKey sa = Some k"
    using key(1) by (auto simp: fs_key_def Option.bind_eq_Some_conv)
  let ?rnd = "\<lambda>i. env_random E (random_pos s + i)"
  let ?iv = "map ?rnd [0..<12]"
  obtain ct where ct: "gcry_encrypt ?G ?key ?iv aad d = Some ct" "length ct = length d" "gcry_decrypt ?G ?key ?iv aad ct = Some d"
    using G by (rule gcm_okE)
  let ?k = "k \<lparr> handle := Some (?iv, aad, ct) \<rparr>"
  have enc: "key_encryptData ?G ?iv aad d k = (Inr ct, ?k)" using key(2) ct(1) by (rule key_encrypt_run)
  have bok: "fb_ok (vblock d)" "fb_data (vblock d) = d" "blength (vblock d) = length d"
    using d by (simp_all add: vblock_ok BLK_SZ_def)
  obtain b where b: "fb_overwrite ct (vblock d) = (Inr (), b)" "fb_ok b" "fb_data b = ct"
    using fb.over [OF bok(1), of ct] bok ct(2) by auto
  have "doMAC ?G [] False ?k = (Inr (gcry_tag ?G ?key ?iv aad ct), ?k)"
    using key(2) by (simp add: doMAC_def comp_simps key_ok_def)
  then have "encryptData2 ?G ?rnd aad True True (sa \<lparr> sa_buf := vblock d \<rparr>) =
      (Inr (?iv, gcry_tag ?G ?key ?iv aad ct), sa \<lparr> saKey := Some ?k, sa_buf := b \<rparr>)"
    using sa key(2) enc b(1) bok(2) by (simp add: encryptData2_def comp_simps key_ok_def Let_def)
  then have "encrypt_blk E aad d s = (Inr ((?iv, gcry_tag ?G ?key ?iv aad ct), ct),
       with_handle k (Some (?iv, aad, ct)) (s \<lparr> random_pos := random_pos s + 12 \<rparr>))"
    using sa key b(3) need_key_run[OF key(1)]
    by (simp add: encrypt_blk_def next_random_def on_sa_def with_handle_def bindE_def seqE_def getE_def modE_def retE_def key_ok_def)
  then show thesis by (rule that) (use ct d in simp_all)
qed

lemma decrypt_blk_run:
  assumes key: "fs_key s = Some k" "key_ok k" and ct: "length ct = BLK_SZ"
    and dec: "gcry_decrypt (env_gcrypt E) (take 16 (keydat k)) iv aad ct = Some d" "length d = BLK_SZ"
  shows "decrypt_blk E aad (Some iv) (Some tag) ct s =
    ((if tag = gcry_tag (env_gcrypt E) (take 16 (keydat k)) iv aad ct then Inr d else Inl bfsCryptoError),
     with_handle k (Some (iv, aad, ct)) s)"
proof -
  let ?G = "env_gcrypt E" and ?key = "take 16 (keydat k)"
  obtain sa where sa: "secContext s = Some sa" "saKey sa = Some k"
    using key(1) by (auto simp: fs_key_def Option.bind_eq_Some_conv)
  let ?k = "k \<lparr> handle := Some (iv, aad, ct) \<rparr>"
  have dk: "key_decryptData ?G iv aad ct k = (Inr d, ?k)" using key(2) dec(1) by (rule key_decrypt_run)
  have bok: "fb_ok (vblock ct)" "fb_data (vblock ct) = ct" "blength (vblock ct) = length ct"
    using ct by (simp_all add: vblock_ok BLK_SZ_def)
  obtain b where b: "fb_overwrite d (vblock ct) = (Inr (), b)" "fb_ok b" "fb_data b = d"
    using fb.over [OF bok(1), of d] bok ct dec(2) by auto
  have mac: "doMAC ?G tag True ?k = (if tag = gcry_tag ?G ?key iv aad ct then Inr tag else Inl bfsCryptoError, ?k)"
    using key(2) by (auto simp: doMAC_def comp_simps key_ok_def)
  have "decryptData2 ?G aad (Some iv) (Some tag) (sa \<lparr> sa_buf := vblock ct \<rparr>) =
      ((if tag = gcry_tag ?G ?key iv aad ct then Inr () else Inl bfsCryptoError), sa \<lparr> saKey := Some ?k, sa_buf := b \<rparr>)"
    using sa dk b(1) bok(2) mac
    by (cases "tag = gcry_tag ?G ?key iv aad ct") (simp_all add: decryptData2_def comp_simps)
  then show ?thesis
    using sa b(3)
    by (cases "tag = gcry_tag ?G ?key iv aad ct")
      (simp_all add: decrypt_blk_def on_sa_def with_handle_def bindE_def retE_def)
qed

section \<open>Slots of metadata blocks\<close>

text \<open>The IV and the tag kept for block \<^verbatim>\<open>b\<close> in a metadata block.\<close>

definition meta_iv :: "nat \<Rightarrow> byte list \<Rightarrow> byte list" where
  "meta_iv b blk = chunk (meta_off b) 12 blk"

definition meta_tag :: "nat \<Rightarrow> byte list \<Rightarrow> byte list" where
  "meta_tag b blk = chunk (meta_off b + 12) 16 blk"

lemma meta_off_bound: "meta_off b + 28 \<le> BLK_SZ"
proof -
  have "b mod 146 \<le> 145" using mod_less_divisor[of 146 b] by linarith
  then show ?thesis by (simp add: meta_off_def BLK_META_BLK_IDX_LOC_def layout_defs)
qed

lemma meta_off_disjoint:
  assumes "BLK_META_BLK_LOC a = BLK_META_BLK_LOC b" "a \<noteq> b"
  shows "meta_off a + 28 \<le> meta_off b \<or> meta_off b + 28 \<le> meta_off a"
proof -
  have "a mod 146 \<noteq> b mod 146"
    using assms div_mult_mod_eq[of a 146] div_mult_mod_eq[of b 146]
    by (auto simp: BLK_META_BLK_LOC_def layout_defs)
  then show ?thesis by (auto simp: meta_off_def BLK_META_BLK_IDX_LOC_def layout_defs)
qed

lemma install_meta_slot:
  assumes "length blk = BLK_SZ" "length iv = 12" "length mac = 16"
  obtains blk' where "install_meta b (Some (Some iv)) (Some mac) blk = Inr blk'" "length blk' = BLK_SZ"
    "meta_iv b blk' = iv" "meta_tag b blk' = mac"
    "\<And>a. BLK_META_BLK_LOC a = BLK_META_BLK_LOC b \<Longrightarrow> a \<noteq> b \<Longrightarrow> meta_iv a blk' = meta_iv a blk \<and> meta_tag a blk' = meta_tag a blk"
proof -
  let ?blk = "blit (meta_off b) (iv @ mac) blk"
  have o: "meta_off a + 28 \<le> length blk" for a using meta_off_bound[of a] assms(1) by simp
  have "install_meta b (Some (Some iv)) (Some mac) blk = Inr (blit (meta_off b + 12) mac (blit (meta_off b) iv blk))"
    using assms by (simp add: install_meta_def first_bytes_def layout_defs)
  also have "\<dots> = Inr ?blk" using blit_blit[of "meta_off b" iv mac blk] o[of b] assms by simp
  finally have run: "install_meta b (Some (Some iv)) (Some mac) blk = Inr ?blk" .
  have len: "length ?blk = BLK_SZ" using o[of b] assms by simp
  have whole: "chunk (meta_off b) (12 + 16) ?blk = iv @ mac" using o[of b] assms by (subst chunk_blit_same) simp_all
  then have "chunk (meta_off b) 12 ?blk @ chunk (meta_off b + 12) 16 ?blk = iv @ mac" by (simp only: chunk_add)
  moreover have "length (chunk (meta_off b) 12 ?blk) = length iv" using o[of b] assms len by simp
  ultimately have own: "meta_iv b ?blk = iv" "meta_tag b ?blk = mac" by (simp_all add: meta_iv_def meta_tag_def)
  have other: "meta_iv a ?blk = meta_iv a blk \<and> meta_tag a ?blk = meta_tag a blk"
    if "BLK_META_BLK_LOC a = BLK_META_BLK_LOC b" "a \<noteq> b" for a
  proof -
    note dj = meta_off_disjoint[OF that]
    have "chunk (meta_off a) 12 ?blk = chunk (meta_off a) 12 blk"
      by (rule chunk_blit_disjoint) (use dj o[of a] o[of b] assms in auto)
    moreover have "chunk (meta_off a + 12) 16 ?blk = chunk (meta_off a + 12) 16 blk"
      by (rule chunk_blit_disjoint) (use dj o[of a] o[of b] assms in auto)
    ultimately show ?thesis by (simp add: meta_iv_def meta_tag_def)
  qed
  show thesis by (rule that[OF run len own other])
qed

lemma extract_meta_slot:
  assumes "length blk = BLK_SZ" "length iv = 12" "length mac = 16"
  shows "extract_meta b (Some (Some iv)) (Some mac) False blk = Inr (Some (meta_iv b blk), Some (meta_tag b blk))"
  using assms meta_off_bound[of b]
  by (simp add: extract_meta_def copy_into_def meta_iv_def meta_tag_def layout_defs blit_all)

section \<open>Metadata on the cluster\<close>

definition meta_loc :: "nat \<Rightarrow> nat" where
  "meta_loc v = METADATA_REL_START_BLK_NUM + BLK_META_BLK_LOC v"

lemma length_cluster_blk:
  assumes "cluster_ok c" "v < maxBlockID c"
  shows "length (cluster_blk c v) = BLK_SZ"
proof -
  obtain i b where a: "getPhyBlockAddr v c = Inr (i, b)" "i < length (devices c)" "b < numBlocks (devices c ! i)"
    using address_hit[of c v] assms by (auto simp: cluster_ok_def)
  then show ?thesis using assms(1) length_dev_blk by (auto simp: cluster_blk_def cluster_ok_def)
qed

abbreviation fresh_vbc :: "'z fs_layer_scheme \<Rightarrow> 'z fs_layer_scheme" where
  "fresh_vbc s \<equiv> s \<lparr> vbc := vbc s \<lparr> pb_fresh := Suc (pb_fresh (vbc s)) \<rparr> \<rparr>"

lemma read_block_helper_run:
  assumes "\<not> use_lwext4 E" "\<not> cache_enabled E" "cluster_ok (vbc s)" "v < maxBlockID (vbc s)"
  shows "read_block_helper E v s = (Inr (Some (cluster_blk (vbc s) v)), fresh_vbc s)"
  using assms
  by (simp add: read_block_helper_def catch_block_error_def catchE_def on_vbc_def readBlock_nocache bindE_def retE_def)

lemma read_blk_meta_run:
  assumes "\<not> use_lwext4 E" "\<not> cache_enabled E" "cluster_ok (vbc s)" "meta_loc v < maxBlockID (vbc s)" "fs_key s = Some k"
    and "length iv = 12" "length mac = 16"
  shows "read_blk_meta E v (Some (Some iv)) (Some mac) False s =
    (Inr (Some (Some (meta_iv v (cluster_blk (vbc s) (meta_loc v))), Some (meta_tag v (cluster_blk (vbc s) (meta_loc v))))),
     fresh_vbc s)"
  using assms read_block_helper_run[of E s "meta_loc v"] need_key_run[OF assms(5)]
    extract_meta_slot[OF length_cluster_blk[OF assms(3,4)] assms(6,7), of v]
  by (simp add: read_blk_meta_def meta_args_ok_def meta_blk_def meta_loc_def bindE_def seqE_def getE_def guardE_def retE_def liftS_def)

lemma write_block_helper_run:
  assumes "\<not> use_lwext4 E" "\<not> cache_enabled E" "cluster_ok (vbc s)" "v < maxBlockID (vbc s)" "length d = BLK_SZ"
  shows "\<exists>c'. write_block_helper E v d s = (Inr True, s \<lparr> vbc := c' \<rparr>) \<and> cluster_ok c' \<and> maxBlockID c' = maxBlockID (vbc s)
    \<and> (\<forall>u < maxBlockID (vbc s). cluster_blk c' u = (if u = v then d else cluster_blk (vbc s) u))"
proof -
  obtain c' where "writeBlock False v (Some d) True (vbc s) = (Inr BFS_SUCCESS, c')" "cluster_ok c'" "maxBlockID c' = maxBlockID (vbc s)"
      "\<forall>u < maxBlockID (vbc s). cluster_blk c' u = (if u = v then d else cluster_blk (vbc s) u)"
    using writeBlock_nocache[OF assms(3-5), of True] by blast
  then show ?thesis
    using assms(1,2)
    by (auto simp: write_block_helper_def catch_block_error_def catchE_def on_vbc_def bindE_def retE_def)
qed

lemma write_blk_meta_run:
  assumes "\<not> use_lwext4 E" "\<not> cache_enabled E" "cluster_ok (vbc s)" "meta_loc v < maxBlockID (vbc s)" "fs_key s = Some k"
    and "length iv = 12" "length mac = 16"
  obtains c' where "write_blk_meta E v (Some (Some iv)) (Some mac) False s = (Inr True, s \<lparr> vbc := c' \<rparr>)"
    "cluster_ok c'" "maxBlockID c' = maxBlockID (vbc s)"
    "\<And>u. u < maxBlockID (vbc s) \<Longrightarrow> u \<noteq> meta_loc v \<Longrightarrow> cluster_blk c' u = cluster_blk (vbc s) u"
    "meta_iv v (cluster_blk c' (meta_loc v)) = iv" "meta_tag v (cluster_blk c' (meta_loc v)) = mac"
    "\<And>a. meta_loc a < maxBlockID (vbc s) \<Longrightarrow> a \<noteq> v \<Longrightarrow>
       meta_iv a (cluster_blk c' (meta_loc a)) = meta_iv a (cluster_blk (vbc s) (meta_loc a)) \<and>
       meta_tag a (cluster_blk c' (meta_loc a)) = meta_tag a (cluster_blk (vbc s) (meta_loc a))"
proof -
  let ?m = "cluster_blk (vbc s) (meta_loc v)"
  obtain blk' where blk': "install_meta v (Some (Some iv)) (Some mac) ?m = Inr blk'" "length blk' = BLK_SZ"
      "meta_iv v blk' = iv" "meta_tag v blk' = mac"
      "\<And>a. BLK_META_BLK_LOC a = BLK_META_BLK_LOC v \<Longrightarrow> a \<noteq> v \<Longrightarrow> meta_iv a blk' = meta_iv a ?m \<and> meta_tag a blk' = meta_tag a ?m"
    using install_meta_slot[OF length_cluster_blk[OF assms(3,4)] assms(6,7), of v] by blast
  let ?s = "fresh_vbc s"
  obtain c' where c': "write_block_helper E (meta_loc v) blk' ?s = (Inr True, ?s \<lparr> vbc := c' \<rparr>)" "cluster_ok c'"
      "maxBlockID c' = maxBlockID (vbc s)"
      "\<forall>u < maxBlockID (vbc s). cluster_blk c' u = (if u = meta_loc v then blk' else cluster_blk (vbc s) u)"
    using write_block_helper_run[of E ?s "meta_loc v" blk'] assms blk'(2) by auto
  have run: "write_blk_meta E v (Some (Some iv)) (Some mac) False s = (Inr True, s \<lparr> vbc := c' \<rparr>)"
    using assms(1,2) read_block_helper_run[OF assms(1-4)] need_key_run[OF assms(5)] blk'(1) c'(1)
    by (simp add: write_blk_meta_def meta_args_ok_def meta_blk_def meta_loc_def bindE_def seqE_def getE_def guardE_def retE_def liftS_def)
  have others: "meta_iv a (cluster_blk c' (meta_loc a)) = meta_iv a (cluster_blk (vbc s) (meta_loc a)) \<and>
       meta_tag a (cluster_blk c' (meta_loc a)) = meta_tag a (cluster_blk (vbc s) (meta_loc a))"
    if "meta_loc a < maxBlockID (vbc s)" "a \<noteq> v" for a
  proof (cases "meta_loc a = meta_loc v")
    case True
    then have "BLK_META_BLK_LOC a = BLK_META_BLK_LOC v" by (simp add: meta_loc_def)
    with blk'(5) that(2) c'(4) that(1) True show ?thesis by simp
  qed (use c'(4) that in simp)
  show thesis by (rule that[OF run c'(2,3) _ _ _ others]) (use c'(4) assms(4) blk'(3,4) in simp_all)
qed

section \<open>The store of sealed blocks\<close>

definition data_ids :: "cluster \<Rightarrow> nat set" where
  "data_ids c = {v. v < maxBlockID c \<and> \<not> (METADATA_REL_START_BLK_NUM \<le> v \<and> v < DATA_REL_START_BLK_NUM (maxBlockID c))}"

abbreviation iv_at :: "cluster \<Rightarrow> nat \<Rightarrow> byte list" where
  "iv_at c v \<equiv> meta_iv v (cluster_blk c (meta_loc v))"

abbreviation tag_at :: "cluster \<Rightarrow> nat \<Rightarrow> byte list" where
  "tag_at c v \<equiv> meta_tag v (cluster_blk c (meta_loc v))"

text \<open>The tag and the plaintext that belong to what the cluster holds for a block.\<close>

definition gcm_tag :: "bfs_env \<Rightarrow> ckey \<Rightarrow> cluster \<Rightarrow> nat \<Rightarrow> byte list" where
  "gcm_tag E k c v = gcry_tag (env_gcrypt E) (take 16 (keydat k)) (iv_at c v) (vbid_aad v) (cluster_blk c v)"

definition opened :: "bfs_env \<Rightarrow> ckey \<Rightarrow> cluster \<Rightarrow> nat \<Rightarrow> byte list option" where
  "opened E k c v = gcry_decrypt (env_gcrypt E) (take 16 (keydat k)) (iv_at c v) (vbid_aad v) (cluster_blk c v)"

definition sealed :: "bfs_env \<Rightarrow> ckey \<Rightarrow> cluster \<Rightarrow> nat \<Rightarrow> bool" where
  "sealed E k c v \<longleftrightarrow> tag_at c v = gcm_tag E k c v \<and>
     (case opened E k c v of None \<Rightarrow> False | Some p \<Rightarrow> length p = BLK_SZ)"

text \<open>The cluster has room for the metadata, and the configuration is the native one without the block cache.\<close>

definition store_env :: "bfs_env \<Rightarrow> cluster \<Rightarrow> bool" where
  "store_env E c \<longleftrightarrow> \<not> use_lwext4 E \<and> \<not> cache_enabled E \<and> cluster_ok c \<and> DATA_REL_START_BLK_NUM (maxBlockID c) \<le> maxBlockID c"

definition mt_agrees :: "bfs_env \<Rightarrow> ckey \<Rightarrow> 'z fs_layer_scheme \<Rightarrow> bool" where
  "mt_agrees E k s \<longleftrightarrow> tree_ok E k (mt_height s) (mt_nodes s) \<and> 0 < mt_height s \<and> maxBlockID (vbc s) \<le> 2 ^ mt_height s \<and>
     hmac_len k = 32 \<and> hmac_ok (env_gcrypt E) \<and> par_alias s = [] \<and> (\<exists>p. curr_par s = Some p \<and> length p = 32) \<and>
     (\<forall>v \<in> data_ids (vbc s). mt_nodes s ! (v + leaf_base s) = Some (tag_at (vbc s) v))"

definition store_ok :: "bfs_env \<Rightarrow> ckey \<Rightarrow> 'z core_blk_scheme \<Rightarrow> bool" where
  "store_ok E k s \<longleftrightarrow> store_env E (vbc s) \<and> gcm_ok (env_gcrypt E) \<and> key_ok k \<and> (\<exists>h. fs_key s = Some (k \<lparr> handle := h \<rparr>)) \<and>
     status s = MOUNTED \<and> (\<forall>v \<in> data_ids (vbc s). sealed E k (vbc s) v) \<and> (use_mt E \<longrightarrow> mt_agrees E k s)"

definition plain :: "bfs_env \<Rightarrow> ckey \<Rightarrow> 'z fs_layer_scheme \<Rightarrow> nat \<Rightarrow> byte list" where
  "plain E k s v = the (opened E k (vbc s) v)"

lemma handle_irrelevant [simp]:
  "key_ok (k \<lparr> handle := h \<rparr>) = key_ok k" "keydat (k \<lparr> handle := h \<rparr>) = keydat k"
  "child_hash E (k \<lparr> handle := h \<rparr>) = child_hash E k" "tree_ok E (k \<lparr> handle := h \<rparr>) = tree_ok E k"
proof -
  show c: "child_hash E (k \<lparr> handle := h \<rparr>) = child_hash E k"
    by (intro ext) (simp add: child_hash_def key_hmacData_def)
  show "tree_ok E (k \<lparr> handle := h \<rparr>) = tree_ok E k"
    by (intro ext) (simp add: tree_ok_def tree_except_def c)
qed (simp_all add: key_ok_def)

lemma with_handle_sel [simp]:
  "vbc (with_handle k h s) = vbc s" "mt_nodes (with_handle k h s) = mt_nodes s" "mt_height (with_handle k h s) = mt_height s"
  "par_alias (with_handle k h s) = par_alias s" "curr_par (with_handle k h s) = curr_par s" "leaf_base (with_handle k h s) = leaf_base s"
  "status (with_handle k h t) = status t" "core_blk.more (with_handle k h t) = core_blk.more t"
  by (simp_all add: with_handle_def leaf_base_def)

lemma with_handle_key [simp]: "fs_key s \<noteq> None \<Longrightarrow> fs_key (with_handle k h s) = Some (k \<lparr> handle := h \<rparr>)"
  by (auto simp: with_handle_def fs_key_def Option.bind_eq_Some_conv split: option.splits)

lemma fs_key_vbc [simp]: "fs_key (s \<lparr> vbc := c \<rparr>) = fs_key s" "fs_key (s \<lparr> random_pos := n \<rparr>) = fs_key s" "fs_key (s \<lparr> curr_par := q \<rparr>) = fs_key s"
  by (simp_all add: fs_key_def)

lemma fs_key_sa: "fs_key s = Some k \<Longrightarrow> secContext s \<noteq> None"
  by (auto simp: fs_key_def Option.bind_eq_Some_conv)

lemma meta_loc_in:
  assumes "store_env E c" "v < maxBlockID c"
  shows "meta_loc v < maxBlockID c" "meta_loc v \<notin> data_ids c"
proof -
  have "v div 146 \<le> maxBlockID c div 146" using assms(2) by (simp add: div_le_mono)
  then have "meta_loc v < DATA_REL_START_BLK_NUM (maxBlockID c)"
    by (simp add: meta_loc_def BLK_META_BLK_LOC_def DATA_REL_START_BLK_NUM_def NUM_META_BLOCKS_def layout_defs)
  then show "meta_loc v < maxBlockID c" "meta_loc v \<notin> data_ids c"
    using assms(1) by (auto simp: store_env_def data_ids_def meta_loc_def)
qed

lemma in_meta_range_run:
  "fs_key s = Some k \<Longrightarrow> v \<in> data_ids (vbc s) \<Longrightarrow> in_meta_range v s = (Inr False, s)"
  by (auto simp: in_meta_range_def data_ids_def need_key_run bindE_def seqE_def getE_def retE_def)

section \<open>Runs of read\_blk and write\_blk\<close>

lemma read_blk_run:
  assumes env: "store_env E (vbc s)" and v: "v \<in> data_ids (vbc s)" and key: "fs_key s = Some k" "key_ok k"
    and st: "FORMATTED \<le> status s" and dec: "opened E k (vbc s) v = Some d" "length d = BLK_SZ"
  shows "read_blk E v s =
    (let s1 = with_handle k (Some (iv_at (vbc s) v, vbid_aad v, cluster_blk (vbc s) v)) (fresh_vbc (fresh_vbc s)) in
     if tag_at (vbc s) v = gcm_tag E k (vbc s) v
     then seqE (if use_mt E \<and> status s = MOUNTED then mt_read_blk E v (tag_at (vbc s) v) else retE ()) (retE d) s1
     else (Inl BfsServerError, s1))"
proof -
  let ?s2 = "fresh_vbc (fresh_vbc s)"
  have e: "\<not> use_lwext4 E" "\<not> cache_enabled E" "cluster_ok (vbc s)" using env by (simp_all add: store_env_def)
  have vlt: "v < maxBlockID (vbc s)" using v by (simp add: data_ids_def)
  have ml: "meta_loc v < maxBlockID (vbc s)" by (rule meta_loc_in(1)[OF env vlt])
  have rd: "read_blk_meta E v (Some (Some (replicate 12 0))) (Some (replicate 16 0)) False (fresh_vbc s) =
      (Inr (Some (Some (iv_at (vbc s) v), Some (tag_at (vbc s) v))), ?s2)"
    using read_blk_meta_run[of E "fresh_vbc s" v k "replicate 12 0" "replicate 16 0"] e ml key(1) by simp
  have dc: "decrypt_blk E (vbid_aad v) (Some (iv_at (vbc s) v)) (Some (tag_at (vbc s) v)) (cluster_blk (vbc s) v) ?s2 =
      ((if tag_at (vbc s) v = gcm_tag E k (vbc s) v then Inr d else Inl bfsCryptoError),
       with_handle k (Some (iv_at (vbc s) v, vbid_aad v, cluster_blk (vbc s) v)) ?s2)"
    using decrypt_blk_run[of ?s2 k "cluster_blk (vbc s) v" E "iv_at (vbc s) v" "vbid_aad v" d "tag_at (vbc s) v"]
      key dec length_cluster_blk[OF e(3) vlt] by (simp add: opened_def gcm_tag_def)
  have k: "ivlen k = 12" "maclen k = 16" using key(2) by (simp_all add: key_ok_def)
  have nk: "need_key (fresh_vbc s) = (Inr k, fresh_vbc s)" by (rule need_key_run) (simp add: key(1))
  have aad: "fst (fill_aad v flexbuf_new) = Inr (vbid_aad v)" by (simp add: fill_aad_new vbid_aad_def)
  show ?thesis
    using in_meta_range_run[OF key(1) v] readBlock_nocache[OF e(3) vlt] e(2) fs_key_sa[OF key(1)] st nk rd dc k aad dec(2)
    by (auto simp: read_blk_def catch_block_error_def catch_crypto_def catchE_def on_vbc_def Let_def
      bindE_def seqE_def getE_def guardE_def retE_def throwE_def liftS_def)
qed

text \<open>Checking the tag the tree already holds changes nothing but the scratch buffer.\<close>

lemma mt_read_same:
  assumes ag: "mt_agrees E k s" and key: "fs_key s = Some (k \<lparr> handle := h \<rparr>)" "key_ok k"
    and v: "v \<in> data_ids (vbc s)" and tag: "length (tag_at (vbc s) v) = 16"
  shows "\<exists>q. mt_read_blk E v (tag_at (vbc s) v) s = (Inr (), s \<lparr> curr_par := Some q \<rparr>) \<and> length q = 32"
proof -
  let ?k = "k \<lparr> handle := h \<rparr>" and ?l = "v + leaf_base s" and ?t = "tag_at (vbc s) v"
  obtain p where p: "curr_par s = Some p" "length p = 32" using ag by (auto simp: mt_agrees_def)
  have rdy: "mt_ready E ?k s" using ag key by (simp add: mt_agrees_def mt_ready_def)
  have tr: "tree_ok E k (mt_height s) (mt_nodes s)" "0 < mt_height s" using ag by (simp_all add: mt_agrees_def)
  have vlt: "v < 2 ^ mt_height s" using ag v by (auto simp: mt_agrees_def data_ids_def)
  have leaf: "mt_nodes s ! ?l = Some ?t" using ag v by (simp add: mt_agrees_def)
  then have same: "(mt_nodes s)[?l := Some ?t] = mt_nodes s" by (metis list_update_id)
  have sh: "tree_shape (mt_height s) (mt_nodes s)" using tr(1) by (simp add: tree_ok_def tree_except_def)
  note li = leaf_index[OF sh vlt tr(2), folded leaf_base_def]
  have par: "mt_nodes s ! parent ?l = Some (child_hash E k (mt_nodes s) (parent ?l))"
    using tr(1) li(2) by (simp add: tree_ok_def tree_except_def leaf_base_def)
  have "tag_hash E ?k s v ?t = the (mt_nodes s ! parent ?l)" by (simp add: tag_hash_def same par)
  moreover have "tree_ok E ?k (mt_height s) (mt_nodes s)" using tr(1) by simp
  ultimately have "mt_read_blk E v ?t s = (Inr (), s \<lparr> curr_par := mt_nodes s ! parent ?l, mt_nodes := mt_nodes s \<rparr>)"
    using mt_read_run[OF rdy _ tr(2) vlt tag p] by (simp add: same)
  moreover have "length (child_hash E k (mt_nodes s) (parent ?l)) = 32"
    using ag by (intro length_child_hash) (simp_all add: mt_agrees_def)
  ultimately show ?thesis using par by (intro exI[of _ "child_hash E k (mt_nodes s) (parent ?l)"]) simp
qed

text \<open>A write seals the block under a new IV and leaves the other blocks as they were.\<close>

lemma write_blk_run:
  assumes env: "store_env E (vbc s)" "gcm_ok (env_gcrypt E)" and v: "v \<in> data_ids (vbc s)"
    and key: "fs_key s = Some k" "key_ok k" and d: "length d = BLK_SZ"
  obtains c ct h where "cluster_ok c" "maxBlockID c = maxBlockID (vbc s)"
    "tag_at c v = gcm_tag E k c v" "opened E k c v = Some d" "length (tag_at c v) = 16"
    "\<And>u. u \<in> data_ids (vbc s) \<Longrightarrow> u \<noteq> v \<Longrightarrow>
       cluster_blk c u = cluster_blk (vbc s) u \<and> iv_at c u = iv_at (vbc s) u \<and> tag_at c u = tag_at (vbc s) u"
    "write_blk E v d sync s =
       seqE (if use_mt E \<and> status s \<noteq> CORRUPTED then mt_write_blk E v (tag_at c v) else retE ()) (retE ct)
         (with_handle k h (s \<lparr> random_pos := random_pos s + 12, vbc := c \<rparr>))"
    "cluster_blk c v = ct" "length ct = BLK_SZ"
proof -
  have e: "\<not> use_lwext4 E" "\<not> cache_enabled E" "cluster_ok (vbc s)" using env by (simp_all add: store_env_def)
  have vlt: "v < maxBlockID (vbc s)" using v by (simp add: data_ids_def)
  note ml = meta_loc_in[OF env(1)]
  obtain iv ct where ct: "encrypt_blk E (vbid_aad v) d s =
       (Inr ((iv, gcry_tag (env_gcrypt E) (take 16 (keydat k)) iv (vbid_aad v) ct), ct),
        with_handle k (Some (iv, vbid_aad v, ct)) (s \<lparr> random_pos := random_pos s + 12 \<rparr>))"
      "length iv = 12" "length ct = BLK_SZ" "gcry_decrypt (env_gcrypt E) (take 16 (keydat k)) iv (vbid_aad v) ct = Some d"
    using encrypt_blk_run[OF env(2) key d] by blast
  let ?h = "Some (iv, vbid_aad v, ct)" and ?tag = "gcry_tag (env_gcrypt E) (take 16 (keydat k)) iv (vbid_aad v) ct"
  let ?s1 = "with_handle k ?h (s \<lparr> random_pos := random_pos s + 12 \<rparr>)"
  have tag: "length ?tag = 16" using env(2) by (simp add: gcm_ok_def)
  have k1: "fs_key ?s1 = Some (k \<lparr> handle := ?h \<rparr>)" using key(1) by simp
  obtain c1 where c1: "write_blk_meta E v (Some (Some iv)) (Some ?tag) False ?s1 = (Inr True, ?s1 \<lparr> vbc := c1 \<rparr>)"
      "cluster_ok c1" "maxBlockID c1 = maxBlockID (vbc s)"
      "\<And>u. u < maxBlockID (vbc s) \<Longrightarrow> u \<noteq> meta_loc v \<Longrightarrow> cluster_blk c1 u = cluster_blk (vbc s) u"
      "iv_at c1 v = iv" "tag_at c1 v = ?tag"
      "\<And>a. meta_loc a < maxBlockID (vbc s) \<Longrightarrow> a \<noteq> v \<Longrightarrow> iv_at c1 a = iv_at (vbc s) a \<and> tag_at c1 a = tag_at (vbc s) a"
    using write_blk_meta_run[of E ?s1 v "k \<lparr> handle := ?h \<rparr>" iv ?tag] e ml(1)[OF vlt] k1 ct(2) tag by auto
  obtain c2 where c2: "writeBlock False v (Some ct) sync c1 = (Inr BFS_SUCCESS, c2)" "cluster_ok c2" "maxBlockID c2 = maxBlockID c1"
      "\<forall>u < maxBlockID c1. cluster_blk c2 u = (if u = v then ct else cluster_blk c1 u)"
    using writeBlock_nocache[OF c1(2) _ ct(3), of v sync] c1(3) vlt by auto
  have meta2: "cluster_blk c2 (meta_loc u) = cluster_blk c1 (meta_loc u)" if "u < maxBlockID (vbc s)" for u
    using c2(4) ml[OF that] v c1(3) by auto
  have own: "iv_at c2 v = iv" "tag_at c2 v = ?tag" "cluster_blk c2 v = ct"
    using meta2[OF vlt] c1(3,5,6) c2(4) vlt by simp_all
  have aad: "fst (fill_aad v flexbuf_new) = Inr (vbid_aad v)" by (simp add: fill_aad_new vbid_aad_def)
  have upd: "?s1 \<lparr> vbc := c2 \<rparr> = with_handle k ?h (s \<lparr> random_pos := random_pos s + 12, vbc := c2 \<rparr>)"
    by (simp add: with_handle_def)
  show thesis
  proof (rule that[of c2 ct ?h])
    show "write_blk E v d sync s =
       seqE (if use_mt E \<and> status s \<noteq> CORRUPTED then mt_write_blk E v (tag_at c2 v) else retE ()) (retE ct)
         (with_handle k ?h (s \<lparr> random_pos := random_pos s + 12, vbc := c2 \<rparr>))"
      using in_meta_range_run[OF key(1) v] fs_key_sa[OF key(1)] aad ct(1,3) c1(1) c2(1) e(2) unfolding own(2)
      by (simp add: write_blk_def catch_block_error_def catch_crypto_def catchE_def on_vbc_def upd
        bindE_def seqE_def getE_def guardE_def retE_def liftS_def split del: if_split)
    fix u assume u: "u \<in> data_ids (vbc s)" "u \<noteq> v"
    then have ult: "u < maxBlockID (vbc s)" by (simp add: data_ids_def)
    have "u \<noteq> meta_loc v" using u(1) ml(2)[OF vlt] by auto
    then show "cluster_blk c2 u = cluster_blk (vbc s) u \<and> iv_at c2 u = iv_at (vbc s) u \<and> tag_at c2 u = tag_at (vbc s) u"
      using c1(4)[OF ult] c1(7)[OF ml(1)[OF ult] u(2)] c2(4) c1(3) ult u(2) meta2[OF ult] by simp
  qed (use c2(2,3) c1(3) own tag ct(3,4) in \<open>simp_all add: gcm_tag_def opened_def\<close>)
qed

lemma handle_sealing [simp]:
  "opened E (k \<lparr> handle := h \<rparr>) = opened E k" "gcm_tag E (k \<lparr> handle := h \<rparr>) = gcm_tag E k"
  by (intro ext, simp add: opened_def gcm_tag_def)+

lemma data_ids_cong: "maxBlockID c = maxBlockID c' \<Longrightarrow> data_ids c = data_ids c'"
  by (simp add: data_ids_def)

lemma leaf_base_cong: "mt_height s = mt_height t \<Longrightarrow> leaf_base s = leaf_base t"
  by (simp add: leaf_base_def)

lemma tag_at_length: "cluster_ok c \<Longrightarrow> meta_loc v < maxBlockID c \<Longrightarrow> length (tag_at c v) = 16"
  using length_cluster_blk[of c "meta_loc v"] meta_off_bound[of v] by (simp add: meta_tag_def)

text \<open>What a read may change keeps the store.\<close>

lemma store_ok_frame:
  assumes "store_ok E k s" "fs_key t = Some (k \<lparr> handle := h \<rparr>)" "status t = status s" "cluster_ok (vbc t)"
    and "maxBlockID (vbc t) = maxBlockID (vbc s)" "\<And>u. cluster_blk (vbc t) u = cluster_blk (vbc s) u"
    and "mt_nodes t = mt_nodes s" "mt_height t = mt_height s" "par_alias t = par_alias s"
    and "use_mt E \<Longrightarrow> \<exists>q. curr_par t = Some q \<and> length q = 32"
  shows "store_ok E k t" "data_ids (vbc t) = data_ids (vbc s)" "plain E k t v = plain E k s v"
proof -
  note ids = data_ids_cong[OF assms(5)] and lb = leaf_base_cong[OF assms(8)]
  show "data_ids (vbc t) = data_ids (vbc s)" by (rule ids)
  have o: "opened E k (vbc t) u = opened E k (vbc s) u" "gcm_tag E k (vbc t) u = gcm_tag E k (vbc s) u" for u
    by (simp_all add: opened_def gcm_tag_def assms(6))
  then show "plain E k t v = plain E k s v" by (simp add: plain_def)
  show "store_ok E k t"
    using assms by (auto simp: store_ok_def store_env_def sealed_def mt_agrees_def ids lb o)
qed

lemma store_read:
  assumes ok: "store_ok E k s" and v: "v \<in> data_ids (vbc s)"
  shows "\<exists>t. read_blk E v s = (Inr (plain E k s v), t) \<and> store_ok E k t \<and> data_ids (vbc t) = data_ids (vbc s) \<and>
    (\<forall>u \<in> data_ids (vbc s). plain E k t u = plain E k s u) \<and> core_blk.more t = core_blk.more s \<and> maxBlockID (vbc t) = maxBlockID (vbc s)"
proof -
  obtain h where h: "fs_key s = Some (k \<lparr> handle := h \<rparr>)" using ok by (auto simp: store_ok_def)
  have b: "store_env E (vbc s)" "key_ok k" "status s = MOUNTED" "sealed E k (vbc s) v" "cluster_ok (vbc s)"
    using ok v by (auto simp: store_ok_def store_env_def)
  have p: "opened E k (vbc s) v = Some (plain E k s v)" "length (plain E k s v) = BLK_SZ" "tag_at (vbc s) v = gcm_tag E k (vbc s) v"
    using b(4) by (auto simp: sealed_def plain_def split: option.splits)
  let ?h = "Some (iv_at (vbc s) v, vbid_aad v, cluster_blk (vbc s) v)"
  let ?t = "with_handle (k \<lparr> handle := h \<rparr>) ?h (fresh_vbc (fresh_vbc s))"
  have kt: "fs_key ?t = Some (k \<lparr> handle := ?h \<rparr>)" using h by simp
  have run: "read_blk E v s =
      seqE (if use_mt E then mt_read_blk E v (tag_at (vbc s) v) else retE ()) (retE (plain E k s v)) ?t"
    using read_blk_run[OF b(1) v h _ _ _ p(2)] b(2,3) p(1,3) by (simp add: Let_def status_defs)
  have t: "store_ok E k ?t" using store_ok_frame(1)[OF ok kt] b(5) ok by (simp add: store_ok_def mt_agrees_def)
  show ?thesis
  proof (cases "use_mt E")
    case True
    have vt: "v \<in> data_ids (vbc ?t)" using v by (simp add: data_ids_def)
    have tg: "length (tag_at (vbc ?t) v) = 16"
      using tag_at_length[OF b(5)] meta_loc_in(1)[OF b(1)] v by (simp add: data_ids_def)
    obtain q where q: "mt_read_blk E v (tag_at (vbc ?t) v) ?t = (Inr (), ?t \<lparr> curr_par := Some q \<rparr>)" "length q = 32"
      using mt_read_same[OF _ kt b(2) vt tg] t True by (auto simp: store_ok_def)
    let ?u = "?t \<lparr> curr_par := Some q \<rparr>"
    have ku: "fs_key ?u = Some (k \<lparr> handle := ?h \<rparr>)" using kt by simp
    have "store_ok E k ?u" "data_ids (vbc ?u) = data_ids (vbc s)" "\<And>w. plain E k ?u w = plain E k s w"
      using store_ok_frame[OF ok ku] b(5) q(2) by simp_all
    then show ?thesis using run True q(1) by (simp add: seqE_def bindE_def retE_def)
  next
    case False
    have "data_ids (vbc ?t) = data_ids (vbc s)" "\<And>w. plain E k ?t w = plain E k s w"
      using store_ok_frame(2,3)[OF ok kt] b(5) False by simp_all
    then show ?thesis using run False t by (simp add: seqE_def bindE_def retE_def)
  qed
qed

lemma store_write:
  assumes ok: "store_ok E k s" and v: "v \<in> data_ids (vbc s)" and d: "length d = BLK_SZ"
  shows "\<exists>ct t. write_blk E v d sync s = (Inr ct, t) \<and> store_ok E k t \<and> data_ids (vbc t) = data_ids (vbc s) \<and>
    (\<forall>u \<in> data_ids (vbc s). plain E k t u = (if u = v then d else plain E k s u)) \<and> core_blk.more t = core_blk.more s \<and> maxBlockID (vbc t) = maxBlockID (vbc s)"
proof -
  obtain h where h: "fs_key s = Some (k \<lparr> handle := h \<rparr>)" using ok by (auto simp: store_ok_def)
  have b: "store_env E (vbc s)" "gcm_ok (env_gcrypt E)" "key_ok k" "status s = MOUNTED"
    using ok by (auto simp: store_ok_def)
  have kk: "key_ok (k \<lparr> handle := h \<rparr>)" using b(3) by simp
  obtain c ct h' where c: "cluster_ok c" "maxBlockID c = maxBlockID (vbc s)"
      "tag_at c v = gcm_tag E k c v" "opened E k c v = Some d" "length (tag_at c v) = 16"
      "\<And>u. u \<in> data_ids (vbc s) \<Longrightarrow> u \<noteq> v \<Longrightarrow>
         cluster_blk c u = cluster_blk (vbc s) u \<and> iv_at c u = iv_at (vbc s) u \<and> tag_at c u = tag_at (vbc s) u"
      "write_blk E v d sync s =
         seqE (if use_mt E \<and> status s \<noteq> CORRUPTED then mt_write_blk E v (tag_at c v) else retE ()) (retE ct)
           (with_handle (k \<lparr> handle := h \<rparr>) h' (s \<lparr> random_pos := random_pos s + 12, vbc := c \<rparr>))"
    by (rule write_blk_run[OF b(1,2) v h kk d, of sync, unfolded handle_sealing]) (rule that)
  let ?t = "with_handle (k \<lparr> handle := h \<rparr>) h' (s \<lparr> random_pos := random_pos s + 12, vbc := c \<rparr>)"
  have kt: "fs_key ?t = Some (k \<lparr> handle := h' \<rparr>)" using h by simp
  note ids = data_ids_cong[OF c(2)]
  have o: "opened E k c u = (if u = v then Some d else opened E k (vbc s) u)" if "u \<in> data_ids (vbc s)" for u
    using c(4) c(6)[OF that] by (simp add: opened_def)
  have sl: "\<forall>u \<in> data_ids c. sealed E k c u"
  proof
    fix u assume "u \<in> data_ids c"
    then have u: "u \<in> data_ids (vbc s)" by (simp add: ids)
    then have "sealed E k (vbc s) u" using ok by (simp add: store_ok_def)
    then show "sealed E k c u" using c(3,4,6) u d by (cases "u = v") (simp_all add: sealed_def opened_def gcm_tag_def)
  qed
  have env: "store_env E c" using b(1) c(1,2) by (simp add: store_env_def)
  have base: "store_ok E k t" if "fs_key t = Some (k \<lparr> handle := h' \<rparr>)" "vbc t = c" "status t = MOUNTED" "use_mt E \<Longrightarrow> mt_agrees E k t"
    for t :: "'a core_blk_scheme" using that b sl env by (auto simp: store_ok_def)
  show ?thesis
  proof (cases "use_mt E")
    case True
    let ?h = "mt_height s"
    have ag: "mt_agrees E k s" using ok True by (simp add: store_ok_def)
    then have tr: "tree_ok E (k \<lparr> handle := h' \<rparr>) (mt_height ?t) (mt_nodes ?t)" "0 < mt_height ?t"
      by (simp_all add: mt_agrees_def)
    have vlt: "v < 2 ^ mt_height ?t" using ag v by (auto simp: mt_agrees_def data_ids_def)
    have rdy: "mt_ready E (k \<lparr> handle := h' \<rparr>) ?t" using ag kt b(3) by (simp add: mt_ready_def mt_agrees_def)
    obtain ns where ns: "mt_write_blk E v (tag_at c v) ?t = (Inr (), ?t \<lparr> mt_nodes := ns \<rparr>)" "tree_ok E k ?h ns"
        "\<forall>u < 2 ^ ?h. ns ! (u + leaf_base s) = (if u = v then Some (tag_at c v) else mt_nodes s ! (u + leaf_base s))"
      using mt_write_ok[OF rdy tr vlt c(5)] by (auto simp: leaf_base_def)
    let ?u = "?t \<lparr> mt_nodes := ns \<rparr>"
    have leaves: "ns ! (u + leaf_base s) = Some (tag_at c u)" if u: "u \<in> data_ids c" for u
    proof -
      have us: "u \<in> data_ids (vbc s)" using u by (simp add: ids)
      moreover have "maxBlockID (vbc s) \<le> 2 ^ ?h" using ag by (simp add: mt_agrees_def)
      ultimately have "u < 2 ^ ?h" by (simp add: data_ids_def)
      then show ?thesis using ns(3) ag c(6)[OF us] us by (auto simp: mt_agrees_def)
    qed
    have "mt_agrees E k ?u" using ag ns(2) leaves c(2) by (simp add: mt_agrees_def leaf_base_def)
    then have "store_ok E k ?u" by (intro base) (use kt b(4) in simp_all)
    then show ?thesis
      using c(2,7) True b(4) ns(1) o by (auto simp: status_defs seqE_def bindE_def retE_def plain_def ids)
  next
    case False
    have "store_ok E k ?t" by (rule base) (use kt b(4) False in simp_all)
    then show ?thesis using c(2,7) False o by (auto simp: seqE_def bindE_def retE_def plain_def ids)
  qed
qed

definition seal_wr :: "bfs_env \<Rightarrow> bool \<Rightarrow> nat \<Rightarrow> byte list \<Rightarrow> ('z core_blk_scheme, unit) comp" where
  "seal_wr E sync v d = seqE (write_blk E v d sync) (retE ())"

interpretation sealed: block_store "store_ok E k" "\<lambda>s. data_ids (vbc s)" "plain E k" "read_blk E" "seal_wr E sync"
  for E k sync
proof unfold_locales
  fix s :: "'a core_blk_scheme" and v
  assume "store_ok E k s" "v \<in> data_ids (vbc s)"
  then show "\<exists>s'. read_blk E v s = (Inr (plain E k s v), s') \<and> store_ok E k s' \<and> data_ids (vbc s') = data_ids (vbc s)
      \<and> (\<forall>u \<in> data_ids (vbc s). plain E k s' u = plain E k s u)" using store_read by blast
next
  fix s :: "'a core_blk_scheme" and v and d :: "byte list"
  assume a: "store_ok E k s" "v \<in> data_ids (vbc s)" "length d = BLK_SZ"
  show "\<exists>s'. seal_wr E sync v d s = (Inr (), s') \<and> store_ok E k s' \<and> data_ids (vbc s') = data_ids (vbc s)
      \<and> (\<forall>u \<in> data_ids (vbc s). plain E k s' u = (if u = v then d else plain E k s u))"
    using store_write[OF a, of sync] by (auto simp: seal_wr_def seqE_def bindE_def retE_def)
qed

section \<open>Properties\<close>

text \<open>Decryption is documented to keep the length.\<close>

definition gcm_length :: "gcrypt \<Rightarrow> bool" where
  "gcm_length G \<longleftrightarrow> (\<forall>key iv aad c p. gcry_decrypt G key iv aad c = Some p \<longrightarrow> length p = length c)"

lemma decrypt_blk_none:
  assumes key: "fs_key s = Some k" "key_ok k" and dec: "gcry_decrypt (env_gcrypt E) (take 16 (keydat k)) iv aad ct = None"
  shows "\<exists>e t. decrypt_blk E aad (Some iv) mac ct s = (Inl e, t)"
proof -
  obtain sa where sa: "secContext s = Some sa" "saKey sa = Some k"
    using key(1) by (auto simp: fs_key_def Option.bind_eq_Some_conv)
  have "fb_data (vblock ct) = ct" by (rule vblock_ok)
  then show ?thesis
    using sa key(2) dec
    by (auto simp: decrypt_blk_def on_sa_def decryptData2_def sa_key_def on_buf_def on_key_def key_decryptData_def key_ok_def
      bindE_def seqE_def getE_def guardE_def retE_def throwE_def modE_def split: prod.splits sum.splits)
qed

lemma read_blk_opens:
  assumes env: "store_env E (vbc s)" and v: "v \<in> data_ids (vbc s)" and key: "fs_key s = Some k" "key_ok k"
    and st: "FORMATTED \<le> status s" and run: "fst (read_blk E v s) = Inr p"
  shows "opened E k (vbc s) v \<noteq> None"
proof
  assume none: "opened E k (vbc s) v = None"
  have e: "\<not> use_lwext4 E" "\<not> cache_enabled E" "cluster_ok (vbc s)" using env by (simp_all add: store_env_def)
  have vlt: "v < maxBlockID (vbc s)" using v by (simp add: data_ids_def)
  let ?s2 = "fresh_vbc (fresh_vbc s)"
  have rd: "read_blk_meta E v (Some (Some (replicate 12 0))) (Some (replicate 16 0)) False (fresh_vbc s) =
      (Inr (Some (Some (iv_at (vbc s) v), Some (tag_at (vbc s) v))), ?s2)"
    using read_blk_meta_run[of E "fresh_vbc s" v k "replicate 12 0" "replicate 16 0"] e meta_loc_in(1)[OF env vlt] key(1) by simp
  obtain x t where dc: "decrypt_blk E (vbid_aad v) (Some (iv_at (vbc s) v)) (Some (tag_at (vbc s) v)) (cluster_blk (vbc s) v) ?s2 = (Inl x, t)"
    using decrypt_blk_none[of ?s2 k E] key none by (fastforce simp: opened_def)
  have k: "ivlen k = 12" "maclen k = 16" using key(2) by (simp_all add: key_ok_def)
  have nk: "need_key (fresh_vbc s) = (Inr k, fresh_vbc s)" by (rule need_key_run) (simp add: key(1))
  have aad: "fst (fill_aad v flexbuf_new) = Inr (vbid_aad v)" by (simp add: fill_aad_new vbid_aad_def)
  have "fst (read_blk E v s) = Inl (if x = bfsCryptoError then BfsServerError else x)"
    using in_meta_range_run[OF key(1) v] readBlock_nocache[OF e(3) vlt] e(2) fs_key_sa[OF key(1)] st nk rd dc k aad
    by (auto simp: read_blk_def catch_block_error_def catch_crypto_def catchE_def on_vbc_def Let_def
      bindE_def seqE_def getE_def guardE_def retE_def throwE_def liftS_def)
  with run show False by simp
qed

text \<open>C2: After any sequence of encrypted writes to a mounted file system, a read decrypts to the last block written
  there, or to the old contents where nothing was written; reads and writes leave every other block alone (native
  build, block cache off).\<close>
lemma blk_reads_last_write:
  assumes "store_ok E k s" "\<forall>p\<in>set ps. fst p \<in> data_ids (vbc s) \<and> length (snd p) = BLK_SZ" "v \<in> data_ids (vbc s)"
  shows "fst (seqE (write_seq (\<lambda>u d. seqE (write_blk E u d sync) (retE ())) ps) (read_blk E v) s)
    = Inr (case map_of (rev ps) v of None \<Rightarrow> plain E k s v | Some d \<Rightarrow> d)"
proof -
  have wr: "(\<lambda>u d. seqE (write_blk E u d sync) (retE ())) = seal_wr E sync" by (intro ext) (simp add: seal_wr_def)
  obtain t where t: "write_seq (seal_wr E sync) ps s = (Inr (), t)" "store_ok E k t" "data_ids (vbc t) = data_ids (vbc s)"
      "\<forall>u \<in> data_ids (vbc s). plain E k t u = (case map_of (rev ps) u of None \<Rightarrow> plain E k s u | Some d \<Rightarrow> d)"
    using sealed.writes_last[OF assms(1,2)] by blast
  obtain t' where "read_blk E v t = (Inr (plain E k t v), t')" using store_read[OF t(2), of v] t(3) assms(3) by auto
  with t assms(3) show ?thesis by (simp add: wr seqE_Inr)
qed

text \<open>C3: Suppose everything on the devices is replaced while the file system is mounted.  A read that succeeds still
  returns the block as it was last written, unless the replaced data exhibits an HMAC collision at the parent of the
  block's leaf or a GCM tag collision between the two ciphertexts of the block.\<close>
lemma read_blk_authentic:
  assumes ok: "store_ok E k s" "use_mt E" "gcm_length (env_gcrypt E)" and v: "v \<in> data_ids (vbc s)"
    and c: "cluster_ok c" "maxBlockID c = maxBlockID (vbc s)"
    and run: "fst (read_blk E v (s \<lparr> vbc := c \<rparr>)) = Inr p"
  shows "p = plain E k s v
    \<or> tag_at c v \<noteq> tag_at (vbc s) v \<and> tag_hash E k s v (tag_at c v) = tag_hash E k s v (tag_at (vbc s) v)
    \<or> (iv_at c v, cluster_blk c v) \<noteq> (iv_at (vbc s) v, cluster_blk (vbc s) v) \<and> gcm_tag E k c v = gcm_tag E k (vbc s) v"
proof -
  let ?s = "s \<lparr> vbc := c \<rparr>"
  obtain h where h: "fs_key s = Some (k \<lparr> handle := h \<rparr>)" using ok by (auto simp: store_ok_def)
  have b: "store_env E (vbc s)" "key_ok k" "status s = MOUNTED" "sealed E k (vbc s) v" "mt_agrees E k s"
    using ok v by (auto simp: store_ok_def)
  have env: "store_env E (vbc ?s)" using b(1) c by (simp add: store_env_def)
  have v': "v \<in> data_ids (vbc ?s)" using v data_ids_cong[OF c(2)] by simp
  have h': "fs_key ?s = Some (k \<lparr> handle := h \<rparr>)" using h by simp
  have kk: "key_ok (k \<lparr> handle := h \<rparr>)" using b(2) by simp
  have st: "FORMATTED \<le> status ?s" using b(3) by (simp add: status_defs)
  obtain d where d: "opened E k c v = Some d" using read_blk_opens[OF env v' h' kk st run] by auto
  have vlt: "v < maxBlockID c" using v' by (simp add: data_ids_def)
  have len: "length d = BLK_SZ"
    using ok(3) d length_cluster_blk[OF c(1) vlt] by (auto simp: gcm_length_def opened_def)
  have d': "opened E (k \<lparr> handle := h \<rparr>) (vbc ?s) v = Some d" using d by simp
  let ?h = "Some (iv_at c v, vbid_aad v, cluster_blk c v)"
  let ?t = "with_handle (k \<lparr> handle := h \<rparr>) ?h (fresh_vbc (fresh_vbc ?s))"
  have tag: "tag_at c v = gcm_tag E k c v" and mt: "fst (mt_read_blk E v (tag_at c v) ?t) = Inr ()" and p: "p = d"
    using run read_blk_run[OF env v' h' kk st d' len] ok(2) b(3)
    by (auto simp: Let_def seqE_def bindE_def retE_def split: if_splits prod.splits sum.splits)
  let ?k = "k \<lparr> handle := ?h \<rparr>"
  obtain q where q: "curr_par ?t = Some q" "length q = 32" using b(5) by (auto simp: mt_agrees_def)
  have kt: "fs_key ?t = Some ?k" using h by simp
  have rdy: "mt_ready E ?k ?t" using b(2,5) kt by (simp add: mt_ready_def mt_agrees_def)
  have tr: "tree_ok E ?k (mt_height ?t) (mt_nodes ?t)" "0 < mt_height ?t" using b(5) by (simp_all add: mt_agrees_def)
  have vh: "v < 2 ^ mt_height ?t" using b(5) v by (auto simp: mt_agrees_def data_ids_def)
  have tl: "length (tag_at c v) = 16" using tag_at_length[OF c(1)] meta_loc_in(1)[OF env] vlt by simp
  let ?i = "parent (v + leaf_base s)"
  have "tag_hash E ?k ?t v (tag_at c v) = the (mt_nodes s ! ?i)"
    using mt mt_read_run[OF rdy tr vh tl q] by (auto simp: leaf_base_def split: if_splits)
  then have new: "tag_hash E k s v (tag_at c v) = the (mt_nodes s ! ?i)" by (simp add: tag_hash_def leaf_base_def)
  have leaf: "mt_nodes s ! (v + leaf_base s) = Some (tag_at (vbc s) v)" using b(5) v by (simp add: mt_agrees_def)
  have sh: "tree_shape (mt_height s) (mt_nodes s)" using tr(1) by (simp add: tree_ok_def tree_except_def)
  have "?i < 2 ^ mt_height s - 1"
    using leaf_index(2)[OF sh, of v] vh tr(2) by (simp add: leaf_base_def)
  then have "mt_nodes s ! ?i = Some (child_hash E k (mt_nodes s) ?i)"
    using tr(1) by (simp add: tree_ok_def tree_except_def)
  then have old: "tag_hash E k s v (tag_at (vbc s) v) = the (mt_nodes s ! ?i)"
    using leaf by (simp add: tag_hash_def) (metis list_update_id)
  have "tag_at (vbc s) v = gcm_tag E k (vbc s) v" using b(4) by (simp add: sealed_def)
  moreover have "p = plain E k s v"
    if "(iv_at c v, cluster_blk c v) = (iv_at (vbc s) v, cluster_blk (vbc s) v)"
  proof -
    have "opened E k (vbc s) v = opened E k c v" using that by (simp add: opened_def)
    then show ?thesis using d p by (simp add: plain_def)
  qed
  ultimately show ?thesis using new old tag by metis
qed

section \<open>The root hash in the metadata\<close>





section \<open>A concrete store\<close>

definition zero_cluster :: cluster where
  "zero_cluster = fold addBlockDevice [demo_device 0 4096, demo_device 1 4096] (bfsVertBlockCluster 10)"

definition zero_tree :: "nat \<Rightarrow> byte list option list" where
  "zero_tree h = map (\<lambda>i. Some (replicate (node_size h i) 0)) [0..<2 ^ (h + 1) - 1]"

definition zero_store :: core_blk where
  "zero_store = \<lparr> vbc = zero_cluster, num_blocks = 8192, blk_dev = None, secContext = Some demo_sa, random_pos = 0, mt_status = 1,
     mt_n = 8192, mt_height = 13, mt_num_nodes = 16383, mt_nodes = zero_tree 13,
     curr_par = Some (replicate 32 0), par_alias = [], status = MOUNTED \<rparr>"

lemma zero_cluster_ok: "cluster_ok zero_cluster" "maxBlockID zero_cluster = 8192"
    "devices zero_cluster = [demo_device 0 4096, demo_device 1 4096]"
  by (simp_all add: zero_cluster_def demo_device_def addBlockDevice_def bfsVertBlockCluster_def Let_def cluster_ok_def dev_ok_def
    total_blocks_def u64_def)

lemma numBlocks_demo [simp]: "numBlocks (demo_device i n) = n"
  by (simp add: demo_device_def)

lemma dev_blk_demo: "b < n \<Longrightarrow> dev_blk (demo_device i n) b = replicate BLK_SZ 0"
  using block_in_storage[of b n] by (simp add: dev_blk_def demo_device_def chunk_def)

lemma zero_cluster_blk:
  assumes "v < 8192"
  shows "cluster_blk zero_cluster v = replicate BLK_SZ 0"
proof -
  obtain i b where a: "getPhyBlockAddr v zero_cluster = Inr (i, b)" "i < length (devices zero_cluster)" "b < numBlocks (devices zero_cluster ! i)"
    using address_hit[of zero_cluster v] zero_cluster_ok(1,2) assms by (auto simp: cluster_ok_def)
  then have "i = 0 \<or> i = 1" by (auto simp: zero_cluster_ok(3))
  then show ?thesis using a dev_blk_demo[of b 4096] by (auto simp: cluster_blk_def zero_cluster_ok(3))
qed

lemma zero_env: "store_env demo_env zero_cluster"
  by (simp add: store_env_def demo_env_def zero_cluster_ok DATA_REL_START_BLK_NUM_def NUM_META_BLOCKS_def layout_defs)

lemma zero_meta:
  assumes "v \<in> data_ids zero_cluster"
  shows "iv_at zero_cluster v = replicate 12 0" "tag_at zero_cluster v = replicate 16 0" "cluster_blk zero_cluster v = replicate BLK_SZ 0"
proof -
  have v: "v < maxBlockID zero_cluster" using assms by (simp add: data_ids_def)
  have m: "cluster_blk zero_cluster (meta_loc v) = replicate BLK_SZ 0"
    using zero_cluster_blk meta_loc_in(1)[OF zero_env v] by (simp add: zero_cluster_ok)
  show "iv_at zero_cluster v = replicate 12 0" "tag_at zero_cluster v = replicate 16 0"
    using meta_off_bound[of v] by (simp_all add: m meta_iv_def meta_tag_def chunk_def min_def)
  show "cluster_blk zero_cluster v = replicate BLK_SZ 0" using zero_cluster_blk v by (simp add: zero_cluster_ok)
qed

lemma zero_tree_ok: "tree_ok demo_env demo_key h (zero_tree h)"
proof -
  have len: "length (zero_tree h) = 2 ^ (h + 1) - 1" by (simp add: zero_tree_def)
  have nth: "zero_tree h ! i = Some (replicate (node_size h i) 0)" if "i < 2 ^ (h + 1) - 1" for i
    using that unfolding zero_tree_def by (subst nth_map) (simp_all del: upt_Suc)
  have "tree_shape h (zero_tree h)" using len nth by (auto simp: tree_shape_def)
  moreover have "zero_tree h ! i = Some (child_hash demo_env demo_key (zero_tree h) i)" if i: "i < 2 ^ h - 1" for i
  proof -
    have "i < 2 ^ (h + 1) - 1" using i by simp
    then have "zero_tree h ! i = Some (replicate 32 0)" using nth i by (simp add: node_size_def)
    then show ?thesis by (simp add: child_hash_def key_hmacData_def demo_env_def demo_gcrypt_def setKeyData_def)
  qed
  ultimately show ?thesis by (simp add: tree_ok_def tree_except_def)
qed

lemma zero_leaf: "v < 2 ^ h \<Longrightarrow> zero_tree h ! (v + (2 ^ h - 1)) = Some (replicate 16 0)"
proof -
  assume v: "v < 2 ^ h"
  have "v + (2 ^ h - 1) < 2 ^ (h + 1) - 1" using v by simp
  then show ?thesis unfolding zero_tree_def by (subst nth_map) (simp_all add: node_size_def del: upt_Suc)
qed

lemma zero_store_ok: "store_ok demo_env demo_key zero_store"
proof -
  have sel: "vbc zero_store = zero_cluster" "mt_nodes zero_store = zero_tree 13" "mt_height zero_store = 13" "status zero_store = MOUNTED"
      "par_alias zero_store = []" "curr_par zero_store = Some (replicate 32 0)" "leaf_base zero_store = 2 ^ 13 - 1"
    by (simp_all add: zero_store_def leaf_base_def)
  have key: "fs_key zero_store = Some demo_key" by (simp add: zero_store_def fs_key_def demo_sa_def)
  then have ex: "\<exists>h. fs_key zero_store = Some (demo_key \<lparr> handle := h \<rparr>)"
    by (intro exI[of _ "handle demo_key"]) (simp add: setKeyData_def)
  have sl: "sealed demo_env demo_key zero_cluster v" if "v \<in> data_ids zero_cluster" for v
    using zero_meta[OF that] by (simp add: sealed_def gcm_tag_def opened_def demo_env_def demo_gcrypt_def)
  have "zero_tree 13 ! (v + leaf_base zero_store) = Some (tag_at zero_cluster v)" if v: "v \<in> data_ids zero_cluster" for v
  proof -
    have "v < 2 ^ 13" using v by (simp add: data_ids_def zero_cluster_ok)
    from zero_leaf[OF this] show ?thesis by (simp only: sel(7) zero_meta(2)[OF v])
  qed
  then have "mt_agrees demo_env demo_key zero_store"
    using zero_tree_ok[of 13]
    by (simp add: mt_agrees_def sel zero_cluster_ok hmac_ok_def demo_env_def[THEN arg_cong[of _ _ env_gcrypt]] demo_gcrypt_def)
      (simp add: setKeyData_def)
  then show ?thesis using sl ex zero_env demo_sa_ok by (simp add: store_ok_def sel demo_env_def)
qed

lemma zero_ids: "0 \<in> data_ids zero_cluster" "7000 \<in> data_ids zero_cluster"
  by (simp_all add: data_ids_def zero_cluster_ok DATA_REL_START_BLK_NUM_def NUM_META_BLOCKS_def layout_defs)

lemma vbc_zero_store [simp]: "vbc zero_store = zero_cluster"
  by (simp add: zero_store_def)

lemma gcm_length_demo: "gcm_length (env_gcrypt demo_env)"
  by (simp add: gcm_length_def demo_env_def demo_gcrypt_def)

theorem blk_reads_last_write_witness:
  "fst (seqE (write_seq (\<lambda>u d. seqE (write_blk demo_env u d True) (retE ()))
      [(7000, replicate BLK_SZ 1), (0, replicate BLK_SZ 2), (7000, replicate BLK_SZ 3)]) (read_blk demo_env 7000) zero_store)
    = Inr (replicate BLK_SZ 3)"
  using blk_reads_last_write[OF zero_store_ok, of "[(7000, replicate BLK_SZ 1), (0, replicate BLK_SZ 2), (7000, replicate BLK_SZ 3)]" 7000 True]
  by (simp add: zero_ids)



text \<open>The devices after someone overwrote the first block behind the file system's back.\<close>

definition tampered :: cluster where
  "tampered = snd (cluster_wr 0 (replicate BLK_SZ 9) zero_cluster)"

lemma tampered_ok: "cluster_ok tampered" "maxBlockID tampered = 8192"
    "\<And>u. u < 8192 \<Longrightarrow> cluster_blk tampered u = (if u = 0 then replicate BLK_SZ 9 else cluster_blk zero_cluster u)"
proof -
  obtain c where "writeBlock False 0 (Some (replicate BLK_SZ 9)) False zero_cluster = (Inr BFS_SUCCESS, c)" "cluster_ok c"
      "maxBlockID c = maxBlockID zero_cluster"
      "\<forall>u < maxBlockID zero_cluster. cluster_blk c u = (if u = 0 then replicate BLK_SZ 9 else cluster_blk zero_cluster u)"
    using writeBlock_nocache[OF zero_cluster_ok(1), of 0 "replicate BLK_SZ 9" False] by (auto simp: zero_cluster_ok)
  then show "cluster_ok tampered" "maxBlockID tampered = 8192"
      "\<And>u. u < 8192 \<Longrightarrow> cluster_blk tampered u = (if u = 0 then replicate BLK_SZ 9 else cluster_blk zero_cluster u)"
    by (simp_all add: tampered_def cluster_wr_def bindE_def retE_def zero_cluster_ok)
qed

lemma tampered_7000:
  "iv_at tampered 7000 = iv_at zero_cluster 7000" "tag_at tampered 7000 = tag_at zero_cluster 7000"
  "cluster_blk tampered 7000 = cluster_blk zero_cluster 7000"
  using tampered_ok(3)[of "meta_loc 7000"] tampered_ok(3)[of 7000]
  by (simp_all add: meta_loc_def BLK_META_BLK_LOC_def layout_defs)

lemma tampered_read: "\<exists>p. fst (read_blk demo_env 7000 (zero_store \<lparr> vbc := tampered \<rparr>)) = Inr p"
proof -
  let ?t = "zero_store \<lparr> vbc := tampered \<rparr>"
  have ids: "data_ids tampered = data_ids zero_cluster" by (rule data_ids_cong) (simp add: tampered_ok zero_cluster_ok)
  have tags: "tag_at tampered v = tag_at zero_cluster v" if "v \<in> data_ids zero_cluster" for v
    using tampered_ok(3)[of "meta_loc v"] meta_loc_in(1)[OF zero_env, of v] that
    by (simp add: data_ids_def zero_cluster_ok meta_loc_def layout_defs)
  have len: "length (cluster_blk tampered v) = BLK_SZ" if "v \<in> data_ids zero_cluster" for v
    using length_cluster_blk[OF tampered_ok(1), of v] that by (simp add: data_ids_def zero_cluster_ok tampered_ok)
  have sl: "sealed demo_env demo_key tampered v" if "v \<in> data_ids zero_cluster" for v
    using tags[OF that] zero_meta(2)[OF that] len[OF that]
    by (simp add: sealed_def gcm_tag_def opened_def demo_env_def demo_gcrypt_def)
  have "store_ok demo_env demo_key ?t"
    using zero_store_ok tampered_ok(1,2) sl tags
    by (auto simp: store_ok_def store_env_def mt_agrees_def ids zero_cluster_ok leaf_base_def fs_key_def)
  then obtain t' where "read_blk demo_env 7000 ?t = (Inr (plain demo_env demo_key ?t 7000), t')"
    using store_read[of demo_env demo_key ?t 7000] zero_ids(2) by (auto simp: ids)
  then show ?thesis by simp
qed

theorem read_blk_authentic_witness:
  "fst (read_blk demo_env 7000 (zero_store \<lparr> vbc := tampered \<rparr>)) = Inr (replicate BLK_SZ 0)
    \<and> cluster_blk tampered 0 = replicate BLK_SZ 9"
proof -
  obtain p where p: "fst (read_blk demo_env 7000 (zero_store \<lparr> vbc := tampered \<rparr>)) = Inr p" using tampered_read by blast
  have mt: "use_mt demo_env" by (simp add: demo_env_def)
  have "p = plain demo_env demo_key zero_store 7000"
    using read_blk_authentic[OF zero_store_ok mt gcm_length_demo, of 7000 tampered p] zero_ids(2) tampered_ok(1,2) p tampered_7000
    by (simp add: zero_cluster_ok)
  also have "\<dots> = replicate BLK_SZ 0"
    using zero_meta(3)[OF zero_ids(2)] by (simp add: plain_def opened_def demo_env_def demo_gcrypt_def)
  finally show ?thesis using p tampered_ok(3)[of 0] by simp
qed

section \<open>Blocks lwext4 has not written\<close>

lemma bread_one_unseen:
  assumes "FORMATTING \<le> ext4_status s" "u64 (blk_id + j) \<notin> set (the (seen s))" "BLK_SZ \<le> length buf"
  shows "bread_one E blk_id j buf aadb s = (Inr (Some (blit 0 (replicate BLK_SZ 0) buf, None, aadb)), s)"
  using assms by (simp add: bread_one_def mem_set_def Let_def bindE_def getE_def retE_def liftS_def)

lemma blit_zero_twice: "length z \<le> length b \<Longrightarrow> blit 0 z (blit 0 z b) = blit 0 z b"
  by (simp add: blit_def)

lemma bread_loop_unseen:
  assumes "FORMATTING \<le> ext4_status s" "\<forall>j < cnt. u64 (blk_id + j) \<notin> set (the (seen s))" "BLK_SZ \<le> length buf"
    and "n \<le> cnt" "0 < n"
  shows "bread_loop E blk_id cnt n buf macs aadb s = (Inr (True, blit 0 (replicate BLK_SZ 0) buf), s)"
  using assms(3-5)
proof (induction n arbitrary: buf macs aadb)
  case (Suc n)
  let ?b = "blit 0 (replicate BLK_SZ 0) buf"
  have "cnt - Suc n < cnt" using Suc.prems by simp
  then have "bread_one E blk_id (cnt - Suc n) buf aadb s = (Inr (Some (?b, None, aadb)), s)"
    using assms(1,2) Suc.prems(1) by (intro bread_one_unseen) blast+
  then have "bread_loop E blk_id cnt (Suc n) buf macs aadb s = bread_loop E blk_id cnt n ?b (macs @ [None]) aadb s"
    by (simp add: Let_def bindE_def getE_def retE_def)
  also have "\<dots> = (Inr (True, ?b), s)"
    using Suc.IH[of ?b "macs @ [None]" aadb] Suc.prems by (cases n) (simp_all add: retE_def blit_zero_twice)
  finally show ?case .
qed simp

text \<open>C37: A read of blocks that lwext4 has not written yet succeeds, but clears the first block of the caller's
  buffer only: the blocks after it keep whatever bytes were there, and nothing is checked against the Merkle tree.\<close>
lemma bread_unseen_stale:
  assumes "blk_dev s \<noteq> None" "secContext s \<noteq> None" "seen s = Some xs" "FORMATTING \<le> ext4_status s"
    and "\<forall>j < cnt. u64 (blk_id + j) \<notin> set xs" "0 < cnt" "length buf = cnt * BLK_SZ"
  shows "file_dev_bread E buf blk_id cnt s = (Inr (True, replicate BLK_SZ 0 @ drop BLK_SZ buf), log_access False blk_id s)"
proof -
  have "BLK_SZ \<le> length buf" using assms(6,7) by (cases cnt) simp_all
  moreover have "ext4_status (log_access False blk_id s) = ext4_status s" "seen (log_access False blk_id s) = Some xs"
    using assms(3) by (simp_all add: log_access_def)
  ultimately have "bread_loop E blk_id cnt cnt buf [] flexbuf_new (log_access False blk_id s) =
      (Inr (True, blit 0 (replicate BLK_SZ 0) buf), log_access False blk_id s)"
    using assms(4-6) by (intro bread_loop_unseen) simp_all
  then show ?thesis
    using assms(1-3,6) by (auto simp: file_dev_bread_def bindE_def seqE_def getE_def modE_def blit_def)
qed

definition ext4_demo :: ext4_layer where
  "ext4_demo = \<lparr> vbc = zero_cluster, num_blocks = 8192, blk_dev = Some (demo_device 0 4096), secContext = Some demo_sa, random_pos = 0,
     mt_status = 0, mt_n = 0, mt_height = 0, mt_num_nodes = 0, mt_nodes = [], curr_par = None, par_alias = [],
     ext4_status = MOUNTED, ext4_curr_par = None, seen = Some [7], blk_accesses = None \<rparr>"

theorem bread_unseen_stale_witness:
  "fst (file_dev_bread demo_env (replicate (2 * BLK_SZ) 5) 10 2 ext4_demo) = Inr (True, replicate BLK_SZ 0 @ replicate BLK_SZ 5)"
proof -
  have "\<forall>j < 2. u64 (10 + j) \<notin> set [7 :: nat]" by (auto simp: u64_def)
  from bread_unseen_stale[of ext4_demo "[7]" 2 10 "replicate (2 * BLK_SZ) 5" demo_env, OF _ _ _ _ this]
  show ?thesis by (simp add: ext4_demo_def status_defs)
qed

end
