(* ===== verification/Bfs_Inodes.thy ===== *)
theory Bfs_Inodes
  imports Bfs_BlkIO Bfs_Acl
begin

text \<open>
  The file system handle of \<^verbatim>\<open>src/src/bfs_fs/bfs_core.cpp\<close> and its inode table: allocation of file handles and
  inode numbers, reading and writing inodes, releasing the blocks of an inode.

  The definitions are those of a handle with caching switched off.  Every insertion into \<^verbatim>\<open>ino_cache\<close> and
  \<^verbatim>\<open>dentry_cache\<close> is guarded by \<^verbatim>\<open>cache_enabled()\<close>, so both caches stay empty and every lookup in them misses;
  inodes and directory entries are then values read from blocks.  The locks of the objects are left out.
\<close>

section \<open>The handle\<close>

record bfs_handle = core_blk +
  sb :: superblock
  open_file_tab :: "(nat \<times> openfile) list"
  next_fd :: nat
  acl_layer :: acl

definition data_start :: "('z fs_layer_scheme, nat) comp" where
  "data_start = seqE need_key (getE (\<lambda>s. DATA_REL_START_BLK_NUM (maxBlockID (vbc s))))"

text \<open>\<^verbatim>\<open>sb.alloc_blk()\<close>; 0 means that there is no block.\<close>

definition sb_alloc :: "('z bfs_handle_scheme, nat) comp" where
  "sb_alloc = (\<lambda>s. case alloc_blk (sb s) of (b, sb') \<Rightarrow> (Inr b, s \<lparr> sb := sb' \<rparr>))"

definition sb_dealloc :: "nat \<Rightarrow> ('z bfs_handle_scheme, bool) comp" where
  "sb_dealloc b = bindE (getE (\<lambda>s. maxBlockID (vbc s))) (\<lambda>n. (\<lambda>s.
     case dealloc_blk n b (sb s) of (ok, sb') \<Rightarrow> (Inr ok, s \<lparr> sb := sb' \<rparr>)))"

definition alloc_fd :: "('z bfs_handle_scheme, nat) comp" where
  "alloc_fd = bindE (getE (\<lambda>s. (length (open_file_tab s), next_fd s))) (\<lambda>(n, fd).
     if n = MAX_OPEN_FILES then retE 0
     else seqE (modE (\<lambda>s. s \<lparr> next_fd := u32 (fd + 1) \<rparr>)) (retE fd))"

section \<open>Inode numbers\<close>

primrec read_blks :: "bfs_env \<Rightarrow> nat list \<Rightarrow> ('z core_blk_scheme, byte list list) comp" where
  "read_blks E [] = retE []"
| "read_blks E (v # vs) = bindE (read_blk E v) (\<lambda>b. bindE (read_blks E vs) (\<lambda>bs. retE (b # bs)))"

text \<open>The search for a clear bit, block by block.\<close>

primrec free_bit :: "byte list \<Rightarrow> nat list \<Rightarrow> bfs_error + nat option" where
  "free_bit blk [] = Inr None"
| "free_bit blk (b # bs) = bindS (bfs_test_bit b blk) (\<lambda>x. if x then free_bit blk bs else Inr (Some b))"

primrec free_ino :: "ibitmap \<Rightarrow> nat list \<Rightarrow> bfs_error + (nat \<times> nat) option" where
  "free_ino ibm [] = Inr None"
| "free_ino ibm (ibmb # rest) = bindS (free_bit (ibm ! ibmb) [0..<BLK_SZ_BITS]) (\<lambda>r.
     case r of Some b \<Rightarrow> Inr (Some (ibmb, b)) | None \<Rightarrow> free_ino ibm rest)"

definition alloc_ino :: "bfs_env \<Rightarrow> ('z bfs_handle_scheme, nat) comp" where
  "alloc_ino E =
     bindE (getE (\<lambda>s. no_inodes_free (sb s))) (\<lambda>no_free.
     if no_free = 0 then retE NULL_INO
     else bindE (read_blks E (map ((+) IBM_REL_START_BLK_NUM) [0..<NUM_IBITMAP_BLOCKS])) (\<lambda>ibm.
       bindE (liftS (free_ino ibm [0..<length ibm])) (\<lambda>r. case r of
         None \<Rightarrow> throwE BfsServerError
       | Some (ibmb, b) \<Rightarrow>
           let new_ino = ibmb * BLK_SZ_BITS + b in
           bindE (liftS (ibm_set_bit new_ino ibm)) (\<lambda>ibm'.
           seqE (write_blk E (IBM_REL_START_BLK_NUM + ibmb) (ibm' ! ibmb) True)
           (seqE (modE (\<lambda>s. s \<lparr> sb := set_no_inodes_free (no_free - 1) (sb s) \<rparr>))
           (retE new_ino))))))"

section \<open>Inodes\<close>

definition read_inode :: "bfs_env \<Rightarrow> nat \<Rightarrow> ('z core_blk_scheme, inode) comp" where
  "read_inode E ino =
     bindE (read_blk E (ITAB_ABSOLUTE_BLK_LOC ino)) (\<lambda>blk.
     bindE (liftS (inode_deserialize (ITAB_ABSOLUTE_BLK_OFF ino) blk)) (\<lambda>(i, len).
     seqE (guardE (len \<le> INODE_SZ) BfsAbort)
     (seqE (guardE (i_no i \<noteq> NULL_INO) BfsServerError) (retE i))))"

definition write_inode :: "bfs_env \<Rightarrow> inode \<Rightarrow> bool \<Rightarrow> nat \<Rightarrow> bool \<Rightarrow> ('z core_blk_scheme, unit) comp" where
  "write_inode E i sync del_ino put_cache =
     (let ino_loc = if \<not> put_cache \<and> 0 < del_ino then del_ino else i_no i in
      if sync then
        bindE (read_blk E (ITAB_ABSOLUTE_BLK_LOC ino_loc)) (\<lambda>blk.
        bindE (liftS (inode_serialize i (ITAB_ABSOLUTE_BLK_OFF ino_loc) blk)) (\<lambda>(len, blk').
        seqE (guardE (len \<le> INODE_SZ) BfsAbort)
        (seqE (write_blk E (ITAB_ABSOLUTE_BLK_LOC ino_loc) blk' sync) (retE ()))))
      else retE ())"

definition at_blk :: "nat list \<Rightarrow> nat \<Rightarrow> ('s, nat) comp" where
  "at_blk bs i = (if i < length bs then retE (bs ! i) else throwE StdOutOfRange)"

text \<open>Releasing blocks in order; \<^const>\<open>True\<close> means that a block number ended the list.\<close>

primrec dealloc_until :: "nat list \<Rightarrow> ('z bfs_handle_scheme, bool) comp" where
  "dealloc_until [] = retE False"
| "dealloc_until (b # bs) = bindE data_start (\<lambda>d.
     if b \<le> d then retE True
     else bindE (sb_dealloc b) (\<lambda>ok. seqE (guardE ok BfsServerError) (dealloc_until bs)))"

definition delete_inode_iblks :: "bfs_env \<Rightarrow> inode \<Rightarrow> ('z bfs_handle_scheme, unit) comp" where
  "delete_inode_iblks E i =
     bindE (dealloc_until (take NUM_DIRECT_BLOCKS (i_blks i))) (\<lambda>done.
     if done then retE ()
     else bindE (at_blk (i_blks i) NUM_DIRECT_BLOCKS) (\<lambda>ind. bindE data_start (\<lambda>d.
       if ind \<le> d then retE ()
       else bindE (read_blk E ind) (\<lambda>blk.
         bindE (liftS (ib_deserialize 0 blk)) (\<lambda>(locs, len).
         seqE (guardE (len \<le> BLK_SZ) BfsAbort)
         (bindE (dealloc_until locs) (\<lambda>done2.
          if done2 then retE ()
          else bindE (sb_dealloc ind) (\<lambda>ok. guardE ok BfsServerError))))))))"

definition dealloc_ino :: "bfs_env \<Rightarrow> inode \<Rightarrow> ('z bfs_handle_scheme, unit) comp" where
  "dealloc_ino E i =
     seqE (guardE (i_no i \<noteq> ROOT_INO) BfsServerError)
     (bindE (getE (\<lambda>s. no_inodes_free (sb s))) (\<lambda>no_free.
      bindE (read_blk E (IBM_ABSOLUTE_BLK_LOC (i_no i))) (\<lambda>blk.
      bindE (liftS (ibm_clear_bit (i_no i) [blk])) (\<lambda>ibm.
      seqE (write_blk E (IBM_ABSOLUTE_BLK_LOC (i_no i)) (ibm ! 0) True)
      (seqE (delete_inode_iblks E i)
      (seqE (write_inode E (set_i_no NULL_INO i) True (i_no i) False)
      (modE (\<lambda>s. s \<lparr> sb := set_no_inodes_free (u64 (no_free + 1)) (sb s) \<rparr>))))))))"

section \<open>The inode table\<close>

lemma chunk_split_eq:
  assumes "chunk off (m + n) b = chunk off (m + n) b'" "length b = length b'" "off + m \<le> length b"
  shows "chunk off m b = chunk off m b'" "chunk (off + m) n b = chunk (off + m) n b'"
  using assms by (simp_all add: chunk_add append_eq_append_conv)

text \<open>Decoding looks at the bytes of its fields only.\<close>

lemma get_fields_local:
  assumes "length b = length b'" "chunk off (sum_list ns) b = chunk off (sum_list ns) b'" "off + sum_list ns \<le> length b"
  shows "get_fields ns off b = get_fields ns off b'"
  using assms
proof (induction ns arbitrary: off)
  case (Cons n ns)
  have "chunk off (n + sum_list ns) b = chunk off (n + sum_list ns) b'" using Cons.prems(2) by simp
  note c = chunk_split_eq[OF this Cons.prems(1)]
  have "chunk off n b = chunk off n b'" "chunk (off + n) (sum_list ns) b = chunk (off + n) (sum_list ns) b'"
    using c Cons.prems(3) by simp_all
  then show ?case using Cons.IH[of "off + n"] Cons.prems by simp
qed simp

lemma inode_deserialize_local:
  assumes "length b = length b'" "chunk off 168 b = chunk off 168 b'" "off + 168 \<le> length b"
  shows "inode_deserialize off b = inode_deserialize off b'"
proof -
  have "chunk off (64 + 104) b = chunk off (64 + 104) b'" using assms(2) by simp
  note c = chunk_split_eq[OF this assms(1)]
  have h: "get_fields [8, 4, 4, 8, 8, 8, 8, 8, 8] off b = get_fields [8, 4, 4, 8, 8, 8, 8, 8, 8] off b'"
    by (rule get_fields_local) (use assms c in simp_all)
  have t: "get_fields (replicate NUM_INODE_IBLKS 8) (off + 64) b = get_fields (replicate NUM_INODE_IBLKS 8) (off + 64) b'"
    by (rule get_fields_local) (use assms c in \<open>simp_all add: layout_vals sum_list_replicate\<close>)
  obtain vs where vs: "get_fields [8, 4, 4, 8, 8, 8, 8, 8, 8] off b' = Inr (vs, off + 64)"
    using assms(1,3) by simp
  show ?thesis unfolding inode_deserialize_def h vs using t by simp
qed

lemma get_fields_shape:
  "get_fields ns off b = Inr (vs, off') \<Longrightarrow>
     off' = off + sum_list ns \<and> length vs = length ns \<and> (\<forall>j < length ns. vs ! j < 256 ^ (ns ! j))"
proof (induction ns arbitrary: off vs)
  case (Cons n ns)
  then obtain ws where ws: "off + n \<le> length b" "get_fields ns (off + n) b = Inr (ws, off')" "vs = le_val (chunk off n b) # ws"
    by (auto simp: bindS_def split: sum.splits prod.splits if_splits)
  have "le_val (chunk off n b) < 256 ^ n" using le_val_less[of "chunk off n b"] ws(1) by simp
  then show ?case using Cons.IH[OF ws(2)] ws(3) by (auto simp: nth_Cons split: nat.splits)
qed simp

text \<open>Whatever the bytes, a decoded inode has values of the machine types and 13 block numbers.\<close>

lemma inode_deserialize_shape:
  assumes "inode_deserialize off b = Inr (i, len)"
  shows "inode_wf i" "len = 168" "i_dirty i = False"
proof -
  obtain vs o1 bs o2 where g: "get_fields [8, 4, 4, 8, 8, 8, 8, 8, 8] off b = Inr (vs, o1)"
      "get_fields (replicate NUM_INODE_IBLKS 8) o1 b = Inr (bs, o2)"
      "i = \<lparr> i_no = vs ! 0, i_uid = vs ! 1, i_mode = vs ! 2, ref_cnt = vs ! 3, atime = vs ! 4, mtime = vs ! 5,
            ctime = vs ! 6, i_size = vs ! 7, i_links_count = vs ! 8, i_blks = bs, i_dirty = False \<rparr>" "len = o2 - off"
    using assms by (auto simp: inode_deserialize_def bindS_def split: sum.splits prod.splits)
  have a: "o1 = off + 64" "\<forall>j < 9. vs ! j < 256 ^ ([8, 4, 4, 8, 8, 8, 8, 8, 8] ! j)" using get_fields_shape[OF g(1)] by simp_all
  have c: "o2 = o1 + 104" "length bs = 13" "\<forall>j < 13. bs ! j < 256 ^ 8"
    using get_fields_shape[OF g(2)] by (simp_all add: layout_vals sum_list_replicate)
  have "vs ! 0 < 2 ^ 64" "vs ! 1 < 2 ^ 32" "vs ! 2 < 2 ^ 32" "vs ! 3 < 2 ^ 64" "vs ! 4 < 2 ^ 64" "vs ! 5 < 2 ^ 64" "vs ! 6 < 2 ^ 64"
      "vs ! 7 < 2 ^ 64" "vs ! 8 < 2 ^ 64" using spec[OF a(2), of 0] spec[OF a(2), of 1] spec[OF a(2), of 2] spec[OF a(2), of 3] spec[OF a(2), of 4]
      spec[OF a(2), of 5] spec[OF a(2), of 6] spec[OF a(2), of 7] spec[OF a(2), of 8] by simp_all
  moreover have "\<forall>v \<in> set bs. v < 2 ^ 64" using c(2,3) by (auto simp: in_set_conv_nth)
  ultimately show "inode_wf i" using g(3) c(2) by (simp add: inode_wf_def layout_vals)
  show "len = 168" "i_dirty i = False" using g(3,4) a(1) c(1) by simp_all
qed

lemma itab_slot:
  "ITAB_ABSOLUTE_BLK_OFF a + 256 \<le> BLK_SZ"
  "ITAB_ABSOLUTE_BLK_LOC a = ITAB_ABSOLUTE_BLK_LOC c \<Longrightarrow> a \<noteq> c \<Longrightarrow>
    ITAB_ABSOLUTE_BLK_OFF a + 256 \<le> ITAB_ABSOLUTE_BLK_OFF c \<or> ITAB_ABSOLUTE_BLK_OFF c + 256 \<le> ITAB_ABSOLUTE_BLK_OFF a"
proof -
  have "a mod 16 \<le> 15" using mod_less_divisor[of 16 a] by linarith
  then show "ITAB_ABSOLUTE_BLK_OFF a + 256 \<le> BLK_SZ" by (simp add: ITAB_ABSOLUTE_BLK_OFF_def layout_vals)
  assume "ITAB_ABSOLUTE_BLK_LOC a = ITAB_ABSOLUTE_BLK_LOC c" "a \<noteq> c"
  then have "a mod 16 \<noteq> c mod 16"
    using div_mult_mod_eq[of a 16] div_mult_mod_eq[of c 16] by (auto simp: ITAB_ABSOLUTE_BLK_LOC_def layout_vals)
  then show "ITAB_ABSOLUTE_BLK_OFF a + 256 \<le> ITAB_ABSOLUTE_BLK_OFF c \<or> ITAB_ABSOLUTE_BLK_OFF c + 256 \<le> ITAB_ABSOLUTE_BLK_OFF a"
    by (auto simp: ITAB_ABSOLUTE_BLK_OFF_def layout_vals)
qed

lemma itab_in_ids:
  assumes "store_env E c" "ino < NUM_INODES"
  shows "ITAB_ABSOLUTE_BLK_LOC ino \<in> data_ids c"
proof -
  have "ino div 16 < 6250" using assms(2) by (simp add: NUM_INODES_def less_mult_imp_div_less)
  then have "ITAB_ABSOLUTE_BLK_LOC ino < METADATA_REL_START_BLK_NUM" by (simp add: ITAB_ABSOLUTE_BLK_LOC_def layout_vals)
  then show ?thesis using assms(1) by (auto simp: store_env_def data_ids_def DATA_REL_START_BLK_NUM_def)
qed

text \<open>What the table holds for an inode number.\<close>

definition inode_at :: "bfs_env \<Rightarrow> ckey \<Rightarrow> 'z fs_layer_scheme \<Rightarrow> nat \<Rightarrow> bfs_error + (inode \<times> nat)" where
  "inode_at E k s ino = inode_deserialize (ITAB_ABSOLUTE_BLK_OFF ino) (plain E k s (ITAB_ABSOLUTE_BLK_LOC ino))"

lemma plain_length: "store_ok E k s \<Longrightarrow> v \<in> data_ids (vbc s) \<Longrightarrow> length (plain E k s v) = BLK_SZ"
  by (auto simp: store_ok_def sealed_def plain_def split: option.splits)

lemma write_inode_ok:
  assumes ok: "store_ok E k s" and i: "inode_wf i" "i_no i < NUM_INODES"
  shows "\<exists>t. write_inode E i True 0 True s = (Inr (), t) \<and> store_ok E k t \<and> data_ids (vbc t) = data_ids (vbc s) \<and>
    inode_at E k t (i_no i) = Inr (i \<lparr> i_dirty := False \<rparr>, 168) \<and>
    (\<forall>j. j \<noteq> i_no i \<longrightarrow> j < NUM_INODES \<longrightarrow> inode_at E k t j = inode_at E k s j) \<and>
    (\<forall>u \<in> data_ids (vbc s). u \<noteq> ITAB_ABSOLUTE_BLK_LOC (i_no i) \<longrightarrow> plain E k t u = plain E k s u) \<and>
    core_blk.more t = core_blk.more s \<and> maxBlockID (vbc t) = maxBlockID (vbc s)"
proof -
  let ?v = "ITAB_ABSOLUTE_BLK_LOC (i_no i)" and ?o = "ITAB_ABSOLUTE_BLK_OFF (i_no i)"
  have env: "store_env E (vbc s)" using ok by (simp add: store_ok_def)
  have v: "?v \<in> data_ids (vbc s)" by (rule itab_in_ids[OF env i(2)])
  let ?b = "plain E k s ?v"
  have len: "length ?b = BLK_SZ" by (rule plain_length[OF ok v])
  have fit: "?o + 168 \<le> length ?b" using itab_slot(1)[of "i_no i"] len by simp
  let ?b' = "blit ?o (inode_enc i) ?b"
  have el: "length (inode_enc i) = 168" by (rule inc.len[OF i(1)])
  have len': "length ?b' = BLK_SZ" using fit len el by simp
  obtain s1 where s1: "read_blk E ?v s = (Inr ?b, s1)" "store_ok E k s1" "data_ids (vbc s1) = data_ids (vbc s)"
      "\<forall>u \<in> data_ids (vbc s). plain E k s1 u = plain E k s u" "core_blk.more s1 = core_blk.more s" "maxBlockID (vbc s1) = maxBlockID (vbc s)"
    using store_read[OF ok v] by blast
  obtain ct t where t: "write_blk E ?v ?b' True s1 = (Inr ct, t)" "store_ok E k t" "data_ids (vbc t) = data_ids (vbc s1)"
      "\<forall>u \<in> data_ids (vbc s1). plain E k t u = (if u = ?v then ?b' else plain E k s1 u)"
      "core_blk.more t = core_blk.more s1" "maxBlockID (vbc t) = maxBlockID (vbc s1)"
    using store_write[OF s1(2) _ len', of ?v True] s1(3) v by auto
  have pt: "plain E k t u = (if u = ?v then ?b' else plain E k s u)" if "u \<in> data_ids (vbc s)" for u
    using t(4) s1(3,4) that by simp
  have run: "write_inode E i True 0 True s = (Inr (), t)"
    using s1(1) t(1) inc.ser[OF i(1) fit]
    by (simp add: write_inode_def Let_def bindE_def seqE_def liftS_def guardE_def retE_def layout_vals)
  have own: "inode_at E k t (i_no i) = Inr (i \<lparr> i_dirty := False \<rparr>, 168)"
    using pt[OF v] inc.des[OF i(1), of ?o ?b'] fit len' len el by (simp add: inode_at_def buf_simps)
  have others: "inode_at E k t j = inode_at E k s j" if j: "j \<noteq> i_no i" "j < NUM_INODES" for j
  proof (cases "ITAB_ABSOLUTE_BLK_LOC j = ?v")
    case True
    have "chunk (ITAB_ABSOLUTE_BLK_OFF j) 168 ?b' = chunk (ITAB_ABSOLUTE_BLK_OFF j) 168 ?b"
      by (rule chunk_blit_disjoint) (use itab_slot(1)[of j] itab_slot(2)[OF True j(1)] fit len el in auto)
    then have "inode_deserialize (ITAB_ABSOLUTE_BLK_OFF j) ?b' = inode_deserialize (ITAB_ABSOLUTE_BLK_OFF j) ?b"
      by (intro inode_deserialize_local) (use itab_slot(1)[of j] len len' in auto)
    then show ?thesis using pt[OF v] True by (simp add: inode_at_def)
  next
    case False
    then show ?thesis using pt[OF itab_in_ids[OF env j(2)]] by (simp add: inode_at_def)
  qed
  show ?thesis
    using run t(2,3,5,6) s1(3,5,6) own others pt by (intro exI[of _ t]) auto
qed

lemma read_inode_ok:
  assumes ok: "store_ok E k s" and j: "j < NUM_INODES"
  shows "fst (read_inode E j s) = (case inode_at E k s j of Inl e \<Rightarrow> Inl e | Inr (i, len) \<Rightarrow>
      if \<not> len \<le> INODE_SZ then Inl BfsAbort else if i_no i = NULL_INO then Inl BfsServerError else Inr i)"
    "\<exists>t. snd (read_inode E j s) = t \<and> store_ok E k t \<and> data_ids (vbc t) = data_ids (vbc s) \<and>
      (\<forall>u \<in> data_ids (vbc s). plain E k t u = plain E k s u)"
proof -
  have v: "ITAB_ABSOLUTE_BLK_LOC j \<in> data_ids (vbc s)" using itab_in_ids j ok by (auto simp: store_ok_def)
  from store_read[OF ok v] obtain t where t: "read_blk E (ITAB_ABSOLUTE_BLK_LOC j) s = (Inr (plain E k s (ITAB_ABSOLUTE_BLK_LOC j)), t)"
      "store_ok E k t" "data_ids (vbc t) = data_ids (vbc s)" "\<forall>u \<in> data_ids (vbc s). plain E k t u = plain E k s u" by blast
  then show "fst (read_inode E j s) = (case inode_at E k s j of Inl e \<Rightarrow> Inl e | Inr (i, len) \<Rightarrow>
      if \<not> len \<le> INODE_SZ then Inl BfsAbort else if i_no i = NULL_INO then Inl BfsServerError else Inr i)"
    by (auto simp: read_inode_def inode_at_def bindE_def seqE_def liftS_def guardE_def retE_def throwE_def split: sum.splits)
  have "snd (read_inode E j s) = t"
    using t(1) by (auto simp: read_inode_def bindE_def seqE_def liftS_def guardE_def retE_def throwE_def split: sum.splits prod.splits)
  then show "\<exists>t. snd (read_inode E j s) = t \<and> store_ok E k t \<and> data_ids (vbc t) = data_ids (vbc s) \<and>
      (\<forall>u \<in> data_ids (vbc s). plain E k t u = plain E k s u)" using t by simp
qed

section \<open>Properties\<close>

text \<open>C15: An inode written to the encrypted inode table is read back with all its fields, and every other inode reads
  as before.\<close>
lemma inode_write_read:
  assumes "store_ok E k s" "inode_wf i" "i_no i < NUM_INODES" "i_no i \<noteq> NULL_INO" "j < NUM_INODES"
  shows "fst (seqE (write_inode E i True 0 True) (read_inode E j) s)
    = (if j = i_no i then Inr (i \<lparr> i_dirty := False \<rparr>) else fst (read_inode E j s))"
proof -
  obtain t where t: "write_inode E i True 0 True s = (Inr (), t)" "store_ok E k t"
      "inode_at E k t (i_no i) = Inr (i \<lparr> i_dirty := False \<rparr>, 168)"
      "\<forall>j. j \<noteq> i_no i \<longrightarrow> j < NUM_INODES \<longrightarrow> inode_at E k t j = inode_at E k s j"
    using write_inode_ok[OF assms(1-3)] by blast
  then show ?thesis
    using read_inode_ok(1)[OF t(2) assms(5)] read_inode_ok(1)[OF assms(1,5)] assms(4,5)
    by (simp add: seqE_def bindE_def layout_vals)
qed

section \<open>Allocation\<close>

lemma handle_frame:
  "core_blk.more t = core_blk.more s \<Longrightarrow> sb t = sb s \<and> open_file_tab t = open_file_tab s \<and> next_fd t = next_fd s \<and> acl_layer t = acl_layer s"
  for s t :: "'z bfs_handle_scheme"
  by (cases s; cases t) simp

lemma read_blks_ok:
  assumes "store_ok E k s" "set vs \<subseteq> data_ids (vbc s)"
  shows "\<exists>t. read_blks E vs s = (Inr (map (plain E k s) vs), t) \<and> store_ok E k t \<and> data_ids (vbc t) = data_ids (vbc s) \<and>
    (\<forall>u \<in> data_ids (vbc s). plain E k t u = plain E k s u) \<and> core_blk.more t = core_blk.more s"
  using assms
proof (induction vs arbitrary: s)
  case (Cons v vs)
  obtain s1 where s1: "read_blk E v s = (Inr (plain E k s v), s1)" "store_ok E k s1" "data_ids (vbc s1) = data_ids (vbc s)"
      "\<forall>u \<in> data_ids (vbc s). plain E k s1 u = plain E k s u" "core_blk.more s1 = core_blk.more s" using store_read[OF Cons.prems(1), of v] Cons.prems(2) by auto
  obtain t where t: "read_blks E vs s1 = (Inr (map (plain E k s1) vs), t)" "store_ok E k t" "data_ids (vbc t) = data_ids (vbc s1)"
      "\<forall>u \<in> data_ids (vbc s1). plain E k t u = plain E k s1 u" "core_blk.more t = core_blk.more s1" using Cons.IH[OF s1(2)] Cons.prems(2) s1(3) by auto
  have "map (plain E k s1) vs = map (plain E k s) vs" using s1(4) Cons.prems(2) by auto
  then show ?case using s1 t by (simp add: bindE_def retE_def)
qed (simp add: retE_def)

lemma free_bit_find:
  "\<forall>b \<in> set bs. b < nbits blk \<Longrightarrow> free_bit blk bs = Inr (find (\<lambda>b. \<not> bit_at blk b) bs)"
  by (induction bs) (simp_all add: bfs_test_bit_eq)

lemma free_ino_sound:
  assumes "\<forall>b \<in> set ibm. length b = BLK_SZ" "set is \<subseteq> {..<length ibm}"
  shows "\<exists>r. free_ino ibm is = Inr r \<and> (case r of
      Some (i, b) \<Rightarrow> i \<in> set is \<and> b < BLK_SZ_BITS \<and> \<not> bit_at (ibm ! i) b
    | None \<Rightarrow> \<forall>i \<in> set is. \<forall>b < BLK_SZ_BITS. bit_at (ibm ! i) b)"
  using assms(2)
proof (induction "is")
  case (Cons i js)
  have "length (ibm ! i) = BLK_SZ" using assms(1) Cons.prems by simp
  then have nb: "nbits (ibm ! i) = BLK_SZ_BITS" by (simp add: nbits_def layout_vals)
  then have f: "free_bit (ibm ! i) [0..<BLK_SZ_BITS] = Inr (find (\<lambda>b. \<not> bit_at (ibm ! i) b) [0..<BLK_SZ_BITS])"
    by (intro free_bit_find) simp
  show ?case
  proof (cases "find (\<lambda>b. \<not> bit_at (ibm ! i) b) [0..<BLK_SZ_BITS]")
    case None
    then have "\<forall>b < BLK_SZ_BITS. bit_at (ibm ! i) b" by (auto simp: find_None_iff)
    moreover obtain r where "free_ino ibm js = Inr r" "case r of
        Some (i, b) \<Rightarrow> i \<in> set js \<and> b < BLK_SZ_BITS \<and> \<not> bit_at (ibm ! i) b
      | None \<Rightarrow> \<forall>i \<in> set js. \<forall>b < BLK_SZ_BITS. bit_at (ibm ! i) b" using Cons.IH Cons.prems by auto
    ultimately show ?thesis using f None by (intro exI[of _ r]) (auto split: option.splits)
  next
    case (Some b)
    then have "b < BLK_SZ_BITS" "\<not> bit_at (ibm ! i) b" by (auto simp: find_Some_iff)
    then show ?thesis using f Some by simp
  qed
qed simp

definition ibm_blks :: "bfs_env \<Rightarrow> ckey \<Rightarrow> 'z fs_layer_scheme \<Rightarrow> ibitmap" where
  "ibm_blks E k s = map (plain E k s) (map ((+) IBM_REL_START_BLK_NUM) [0..<NUM_IBITMAP_BLOCKS])"

lemma ibm_in_ids: "store_env E c \<Longrightarrow> i < NUM_IBITMAP_BLOCKS \<Longrightarrow> IBM_REL_START_BLK_NUM + i \<in> data_ids c"
  by (auto simp: store_env_def data_ids_def DATA_REL_START_BLK_NUM_def layout_vals)

lemma store_ok_sb [simp]:
  "store_ok E k (s \<lparr> sb := x \<rparr>) = store_ok E k s" "plain E k (s \<lparr> sb := x \<rparr>) = plain E k s"
  by (simp_all add: store_ok_def mt_agrees_def fs_key_def leaf_base_def plain_def fun_eq_iff)

text \<open>C16: As long as the counter is positive and some bit is clear, allocation returns an inode number that was free,
  marks exactly that number as used on the encrypted bitmap, lowers the counter by one and leaves every block outside
  the bitmap as it was.\<close>
lemma alloc_ino_fresh:
  assumes ok: "store_ok E k s" and free: "0 < no_inodes_free (sb s)" "free_bits ibm_test ibm_size (ibm_blks E k s) \<noteq> {}"
  shows "\<exists>n t. alloc_ino E s = (Inr n, t) \<and> store_ok E k t \<and> n \<in> free_bits ibm_test ibm_size (ibm_blks E k s) \<and>
    free_bits ibm_test ibm_size (ibm_blks E k t) = free_bits ibm_test ibm_size (ibm_blks E k s) - {n} \<and>
    no_inodes_free (sb t) = no_inodes_free (sb s) - 1 \<and>
    (\<forall>u \<in> data_ids (vbc s). u \<notin> {IBM_REL_START_BLK_NUM..<IBM_REL_START_BLK_NUM + NUM_IBITMAP_BLOCKS} \<longrightarrow> plain E k t u = plain E k s u)"
proof -
  let ?vs = "map ((+) IBM_REL_START_BLK_NUM) [0..<NUM_IBITMAP_BLOCKS]" and ?ibm = "ibm_blks E k s"
  have env: "store_env E (vbc s)" using ok by (simp add: store_ok_def)
  have vs: "set ?vs \<subseteq> data_ids (vbc s)"
  proof
    fix u assume "u \<in> set ?vs"
    then have "u = IBM_REL_START_BLK_NUM + (u - IBM_REL_START_BLK_NUM)" "u - IBM_REL_START_BLK_NUM < NUM_IBITMAP_BLOCKS" by auto
    then show "u \<in> data_ids (vbc s)" using ibm_in_ids[OF env] by metis
  qed
  have len: "length ?ibm = NUM_IBITMAP_BLOCKS" by (simp add: ibm_blks_def)
  have bl: "\<forall>b \<in> set ?ibm. length b = BLK_SZ" using plain_length[OF ok ibm_in_ids[OF env]] by (auto simp: ibm_blks_def)
  have size: "ibm_size ?ibm = BLK_SZ_BITS * length ?ibm" using bl by (simp add: ibm_size_def)
  obtain s1 where s1: "read_blks E ?vs s = (Inr ?ibm, s1)" "store_ok E k s1" "data_ids (vbc s1) = data_ids (vbc s)"
      "\<forall>u \<in> data_ids (vbc s). plain E k s1 u = plain E k s u" "core_blk.more s1 = core_blk.more s"
    using read_blks_ok[OF ok vs] by (auto simp: ibm_blks_def)
  have sub: "set [0..<length ?ibm] \<subseteq> {..<length ?ibm}" by auto
  from free_ino_sound[OF bl sub] obtain r where r: "free_ino ?ibm [0..<length ?ibm] = Inr r" "case r of
      Some (i, b) \<Rightarrow> i \<in> set [0..<length ?ibm] \<and> b < BLK_SZ_BITS \<and> \<not> bit_at (?ibm ! i) b
    | None \<Rightarrow> \<forall>i \<in> set [0..<length ?ibm]. \<forall>b < BLK_SZ_BITS. bit_at (?ibm ! i) b"
    by (elim exE conjE)
  have "r \<noteq> None"
  proof
    assume "r = None"
    moreover obtain n where n: "n < ibm_size ?ibm" "\<not> ibm_test ?ibm n" using free(2) by (auto simp: free_bits_def)
    ultimately show False using r(2) ibm_pos(1)[OF n(1)] by (auto simp: ibm_test_def layout_vals)
  qed
  then obtain i b where ib: "r = Some (i, b)" "i < length ?ibm" "b < BLK_SZ_BITS" "\<not> bit_at (?ibm ! i) b" using r(2) by auto
  let ?n = "i * BLK_SZ_BITS + b"
  have dm: "?n div BLK_SZ_BITS = i" "?n mod BLK_SZ_BITS = b" using ib(3) by simp_all
  have n: "?n \<in> free_bits ibm_test ibm_size ?ibm"
  proof -
    have "?n < Suc i * BLK_SZ_BITS" using ib(3) by simp
    also have "\<dots> \<le> BLK_SZ_BITS * length ?ibm" using ib(2) by (metis Suc_leI mult.commute mult_le_mono2)
    finally show ?thesis using ib(4) size dm by (simp add: free_bits_def ibm_test_def)
  qed
  obtain ibm' where i': "ibm_set_bit ?n ?ibm = Inr ibm'" "free_bits ibm_test ibm_size ibm' = free_bits ibm_test ibm_size ?ibm - {?n}"
    using ibm.set_free[OF n] by blast
  have "b < nbits (?ibm ! i)" using bl ib(2,3) by (simp add: nbits_def layout_vals)
  then obtain blk where set: "bfs_set_bit b (?ibm ! i) = Inr blk" "length blk = length (?ibm ! i)"
    by (rule bfs_set_bit_ok)
  have blk: "ibm' = ?ibm[i := blk]" "length blk = BLK_SZ"
    using i'(1) set bl ib(2) dm by (simp_all add: ibm_set_bit_def)
  let ?v = "IBM_REL_START_BLK_NUM + i"
  have v: "?v \<in> data_ids (vbc s1)" using ibm_in_ids[OF env] ib(2) len s1(3) by simp
  obtain ct t where t: "write_blk E ?v blk True s1 = (Inr ct, t)" "store_ok E k t" "data_ids (vbc t) = data_ids (vbc s1)"
      "\<forall>u \<in> data_ids (vbc s1). plain E k t u = (if u = ?v then blk else plain E k s1 u)" "core_blk.more t = core_blk.more s1"
    using store_write[OF s1(2) v blk(2), of True] by blast
  let ?t = "t \<lparr> sb := set_no_inodes_free (no_inodes_free (sb s) - 1) (sb t) \<rparr>"
  have run: "alloc_ino E s = (Inr ?n, ?t)"
    using free(1) s1(1) r(1) ib(1,2) i'(1) blk(1) t(1)
    by (simp add: alloc_ino_def Let_def bindE_def seqE_def getE_def modE_def liftS_def retE_def)
  have pt: "plain E k t u = (if u = ?v then blk else plain E k s u)" if "u \<in> data_ids (vbc s)" for u
    using t(4) s1(3,4) that by simp
  have "ibm_blks E k ?t = ibm'"
  proof (rule nth_equalityI)
    show "length (ibm_blks E k ?t) = length ibm'" by (simp add: blk(1) ibm_blks_def)
    fix j assume "j < length (ibm_blks E k ?t)"
    then have j: "j < NUM_IBITMAP_BLOCKS" by (simp add: ibm_blks_def)
    then show "ibm_blks E k ?t ! j = ibm' ! j"
      using pt[OF ibm_in_ids[OF env j]] ib(2) len by (simp add: ibm_blks_def blk(1) nth_list_update)
  qed
  moreover have "plain E k ?t u = plain E k s u"
    if "u \<in> data_ids (vbc s)" "u \<notin> {IBM_REL_START_BLK_NUM..<IBM_REL_START_BLK_NUM + NUM_IBITMAP_BLOCKS}" for u
    using pt[OF that(1)] that(2) ib(2) len by auto
  ultimately show ?thesis
    using run t(2) n i'(2) by (intro exI[of _ ?n] exI[of _ ?t]) (auto simp: set_no_inodes_free_def)
qed

theorem inode_write_read_witness:
  "fst (seqE (write_inode demo_env (demo_inode 9) True 0 True) (read_inode demo_env 9) zero_store) = Inr (demo_inode 9 \<lparr> i_dirty := False \<rparr>)"
proof -
  have i: "inode_wf (demo_inode 9)" by (simp add: demo_inode_wf)
  have n: "i_no (demo_inode 9) = 9" by (simp add: demo_inode_def Inode_def)
  show ?thesis using inode_write_read[OF zero_store_ok i, of 9] n by (simp add: layout_defs)
qed

text \<open>A handle on the store of zero blocks.\<close>

definition zero_handle :: bfs_handle where
  "zero_handle = core_blk.extend zero_store
     (bfs_handle.fields (set_no_inodes_free 5 (SuperBlock 0)) [] START_FD demo_acl)"

lemma zero_handle_sel [simp]:
  "vbc zero_handle = zero_cluster" "sb zero_handle = set_no_inodes_free 5 (SuperBlock 0)" "open_file_tab zero_handle = []"
  "acl_layer zero_handle = demo_acl" "plain E k zero_handle = plain E k zero_store"
  by (simp_all add: zero_handle_def core_blk.defs bfs_handle.defs plain_def fun_eq_iff)

lemma zero_handle_ok: "store_ok demo_env demo_key zero_handle"
  using zero_store_ok
  by (simp add: zero_handle_def core_blk.defs bfs_handle.defs store_ok_def mt_agrees_def fs_key_def leaf_base_def)

lemma zero_plain: "v \<in> data_ids zero_cluster \<Longrightarrow> plain demo_env demo_key zero_store v = replicate BLK_SZ 0"
  using zero_meta(3) by (simp add: plain_def opened_def demo_env_def demo_gcrypt_def)

theorem alloc_ino_fresh_witness:
  "\<exists>n t. alloc_ino demo_env zero_handle = (Inr n, t) \<and> n \<in> free_bits ibm_test ibm_size (ibm_blks demo_env demo_key zero_handle) \<and>
     n \<notin> free_bits ibm_test ibm_size (ibm_blks demo_env demo_key t) \<and> no_inodes_free (sb t) = 4"
proof -
  have b: "ibm_blks demo_env demo_key zero_handle ! 0 = replicate BLK_SZ 0"
    using zero_plain[OF ibm_in_ids[OF zero_env, of 0]] by (simp add: ibm_blks_def layout_vals)
  have l: "\<forall>b \<in> set (ibm_blks demo_env demo_key zero_handle). length b = BLK_SZ"
    using zero_plain[OF ibm_in_ids[OF zero_env]] by (auto simp: ibm_blks_def)
  have "0 \<in> free_bits ibm_test ibm_size (ibm_blks demo_env demo_key zero_handle)"
    using b l by (simp add: free_bits_def ibm_size_def ibm_test_def bit_at_def) (simp add: ibm_blks_def layout_vals)
  then have "free_bits ibm_test ibm_size (ibm_blks demo_env demo_key zero_handle) \<noteq> {}" by blast
  from alloc_ino_fresh[OF zero_handle_ok _ this] show ?thesis
    by (auto simp: set_no_inodes_free_def)
qed

end
