(* ===== verification/Bfs_Dirs.thy ===== *)
theory Bfs_Dirs
  imports Bfs_Inodes
begin

text \<open>
  Directories of the native file system, \<^verbatim>\<open>src/src/bfs_fs/bfs_core.cpp\<close>: searching the blocks of a directory, path
  lookup, adding entries, and the handlers that take a path.  As in the theory of inodes, the caches are off and the
  object locks are left out.  Directory entries hold the absolute path of the object they name.
\<close>

section \<open>File types\<close>

definition BFS__S_IFMT :: nat where "BFS__S_IFMT = 61440"
definition BFS__S_IFDIR :: nat where "BFS__S_IFDIR = 16384"
definition BFS__S_IFREG :: nat where "BFS__S_IFREG = 32768"

unbundle bit_operations_syntax

definition BFS__S_ISDIR :: "nat \<Rightarrow> bool" where "BFS__S_ISDIR mode \<longleftrightarrow> mode AND BFS__S_IFMT = BFS__S_IFDIR"
definition BFS__S_ISREG :: "nat \<Rightarrow> bool" where "BFS__S_ISREG mode \<longleftrightarrow> mode AND BFS__S_IFMT = BFS__S_IFREG"

text \<open>The permission test every handler makes on an inode.\<close>

definition check_access :: "user_ctx option \<Rightarrow> inode \<Rightarrow> ('z bfs_handle_scheme, unit) comp" where
  "check_access usr i = bindE (getE acl_layer) (\<lambda>a.
     guardE (\<not> access_denied a usr (i_uid i) (i_mode i)) BfsAccessDeniedError)"

definition check_name_len :: "string \<Rightarrow> ('s, unit) comp" where
  "check_name_len path = guardE (\<not> length path + 1 > MAX_FILE_NAME_LEN) BfsClientRequestFailedError"

section \<open>Searching blocks of entries\<close>

text \<open>The search codes: 1 looks for a name, 2 lists, 3 looks for an empty slot.  The record holds the output
  arguments of a search.\<close>

record de_scan =
  sc_de :: "direntry option"
  all_searched :: bool
  de_tested :: nat
  sc_ents :: "direntry list"

definition scan_done :: "nat \<Rightarrow> inode \<Rightarrow> de_scan \<Rightarrow> bool" where
  "scan_done handler i sc \<longleftrightarrow> handler \<noteq> 3 \<and> de_tested sc = i_links_count i"

primrec each_dentry :: "nat \<Rightarrow> string \<Rightarrow> nat \<Rightarrow> byte list \<Rightarrow> inode \<Rightarrow> nat list \<Rightarrow> de_scan \<Rightarrow> bfs_error + (bool \<times> de_scan)" where
  "each_dentry handler search vbid blk i [] sc = Inr (\<not> (handler = 1 \<or> handler = 3), sc)"
| "each_dentry handler search vbid blk i (idx # rest) sc =
     bindS (de_deserialize (DENTRY_ABSOLUTE_BLK_OFF idx) blk) (\<lambda>((nm, ino), len).
     if len \<noteq> DIRENT_SZ then Inl BfsAbort
     else if handler \<noteq> 3 \<and> (nm = [] \<or> ino < ROOT_INO) then each_dentry handler search vbid blk i rest sc
     else
       (let de = DirEntry nm ino vbid idx in
        if handler = 1 \<and> nm = search \<and> ROOT_INO \<le> ino then Inr (True, sc \<lparr> sc_de := Some de \<rparr>)
        else if handler = 3 \<and> nm = search then Inr (True, sc \<lparr> sc_de := Some de \<rparr>)
        else
          (let sc1 = (if handler = 2 \<and> nm \<noteq> [] \<and> ROOT_INO \<le> ino then sc \<lparr> sc_ents := sc_ents sc @ [de] \<rparr> else sc);
               sc2 = sc1 \<lparr> de_tested := u32 (de_tested sc1 + 1) \<rparr>
           in if scan_done handler i sc2 then Inr (handler \<noteq> 1, sc2 \<lparr> all_searched := True \<rparr>)
              else each_dentry handler search vbid blk i rest sc2)))"

definition check_each_dentry :: "nat \<Rightarrow> string \<Rightarrow> nat \<Rightarrow> byte list \<Rightarrow> inode \<Rightarrow> de_scan \<Rightarrow> bfs_error + (bool \<times> de_scan)" where
  "check_each_dentry handler search vbid blk i sc =
     (if scan_done handler i sc then Inr (handler \<noteq> 1, sc \<lparr> all_searched := True \<rparr>)
      else each_dentry handler search vbid blk i [0..<NUM_DIRENTS_PER_BLOCK] sc)"

text \<open>Reading the directory that is searched.\<close>

definition dir_inode :: "bfs_env \<Rightarrow> user_ctx option \<Rightarrow> nat \<Rightarrow> ('z bfs_handle_scheme, inode) comp" where
  "dir_inode E usr ino =
     bindE (read_inode E ino) (\<lambda>i.
     seqE (guardE (i_no i = ino) BfsAbort)
     (seqE (check_access usr i)
     (seqE (guardE (BFS__S_ISDIR (i_mode i)) BfsClientRequestFailedError) (retE i))))"

text \<open>The result of searching the blocks in order: \<^term>\<open>Some (ret, sc)\<close> if the search ended in one of them.\<close>

primrec check_blks :: "bfs_env \<Rightarrow> nat \<Rightarrow> string \<Rightarrow> inode \<Rightarrow> nat list \<Rightarrow> de_scan \<Rightarrow>
    ('z bfs_handle_scheme, bool option \<times> de_scan) comp" where
  "check_blks E handler search i [] sc = retE (None, sc)"
| "check_blks E handler search i (v # vs) sc =
     bindE data_start (\<lambda>d.
     if v < d then retE (Some (handler \<noteq> 1), sc \<lparr> all_searched := True \<rparr>)
     else bindE (read_blk E v) (\<lambda>blk.
       bindE (liftS (check_each_dentry handler search v blk i sc)) (\<lambda>(found, sc1).
       if found \<and> handler = 1 then retE (Some True, sc1)
       else if all_searched sc1 then retE (Some (handler \<noteq> 1), sc1)
       else check_blks E handler search i vs sc1)))"

text \<open>Both functions also return the inode number to go on with: that of the entry found.\<close>

definition next_parent :: "nat \<Rightarrow> nat \<Rightarrow> bool \<Rightarrow> de_scan \<Rightarrow> nat" where
  "next_parent handler ino ret sc = (if handler = 1 \<and> ret then de_ino (the (sc_de sc)) else ino)"

definition check_direct_blks :: "bfs_env \<Rightarrow> user_ctx option \<Rightarrow> string \<Rightarrow> nat \<Rightarrow> nat \<Rightarrow> de_scan \<Rightarrow>
    ('z bfs_handle_scheme, bool \<times> nat \<times> de_scan) comp" where
  "check_direct_blks E usr search ino handler sc =
     bindE (dir_inode E usr ino) (\<lambda>i.
     bindE (check_blks E handler search i (take NUM_DIRECT_BLOCKS (i_blks i)) sc) (\<lambda>(r, sc1).
     case r of
       Some ret \<Rightarrow> retE (ret, next_parent handler ino ret sc1, sc1)
     | None \<Rightarrow> seqE (guardE (de_tested sc1 \<le> i_links_count i) BfsAbort) (retE (handler \<noteq> 1, ino, sc1))))"

definition check_indirect_blks :: "bfs_env \<Rightarrow> user_ctx option \<Rightarrow> string \<Rightarrow> nat \<Rightarrow> nat \<Rightarrow> de_scan \<Rightarrow>
    ('z bfs_handle_scheme, bool \<times> nat \<times> de_scan) comp" where
  "check_indirect_blks E usr search ino handler sc =
     bindE (dir_inode E usr ino) (\<lambda>i.
     bindE (at_blk (i_blks i) NUM_DIRECT_BLOCKS) (\<lambda>ind.
     bindE (read_blk E ind) (\<lambda>blk.
     bindE (liftS (ib_deserialize 0 blk)) (\<lambda>(locs, len).
     seqE (guardE (len \<le> BLK_SZ) BfsAbort)
     (bindE (check_blks E handler search i locs sc) (\<lambda>(r, sc1).
     case r of
       Some ret \<Rightarrow> retE (ret, next_parent handler ino ret sc1, sc1)
     | None \<Rightarrow> seqE (guardE (de_tested sc1 = i_links_count i) BfsAbort)
         (retE (handler \<noteq> 1, ino, sc1 \<lparr> all_searched := True \<rparr>))))))))"

section \<open>Path lookup\<close>

text \<open>The prefixes of the path that the loop looks up in turn: up to each slash after the first character, then the
  whole path.\<close>

fun slash_from :: "string \<Rightarrow> nat \<Rightarrow> nat option" where
  "slash_from [] n = None"
| "slash_from (c # cs) n = (if c = CHR ''/'' then Some n else slash_from cs (Suc n))"

primrec prefixes_from :: "nat \<Rightarrow> string \<Rightarrow> nat \<Rightarrow> string list" where
  "prefixes_from 0 path start = [path]"
| "prefixes_from (Suc fuel) path start =
     (case slash_from (drop start path) start of
        None \<Rightarrow> [path]
      | Some e \<Rightarrow> take e path # prefixes_from fuel path (e + 1))"

definition path_prefixes :: "string \<Rightarrow> string list" where
  "path_prefixes path = prefixes_from (length path) path 1"

primrec get_de_loop :: "bfs_env \<Rightarrow> user_ctx option \<Rightarrow> string list \<Rightarrow> nat \<Rightarrow> direntry option \<Rightarrow> bool \<Rightarrow>
    ('z bfs_handle_scheme, direntry option option) comp" where
  "get_de_loop E usr [] ino de al = retE (Some de)"
| "get_de_loop E usr (p # ps) ino de al =
     bindE (check_direct_blks E usr p ino 1 \<lparr> sc_de = None, all_searched = al, de_tested = 0, sc_ents = [] \<rparr>) (\<lambda>(found, ino1, sc1).
     if found then get_de_loop E usr ps ino1 (sc_de sc1) (all_searched sc1)
     else if all_searched sc1 then retE None
     else bindE (check_indirect_blks E usr p ino1 1 sc1) (\<lambda>(found2, ino2, sc2).
       if found2 then get_de_loop E usr ps ino2 (sc_de sc2) (all_searched sc2)
       else if all_searched sc2 then retE None
       else throwE BfsAbort))"

text \<open>\<^const>\<open>None\<close> is \<^verbatim>\<open>BFS_FAILURE\<close>.\<close>

definition get_de :: "bfs_env \<Rightarrow> user_ctx option \<Rightarrow> string \<Rightarrow> ('z bfs_handle_scheme, direntry option) comp" where
  "get_de E usr path =
     (if path = [] \<or> hd path \<noteq> CHR ''/'' then retE None
      else bindE (getE (\<lambda>s. root_ino (sb s))) (\<lambda>rt.
        if path = ''/'' then bindE data_start (\<lambda>d. retE (Some (DirEntry ''/'' rt d 0)))
        else bindE (get_de_loop E usr (path_prefixes path) rt None False) (\<lambda>r.
          retE (case r of
            Some (Some de) \<Rightarrow> if de_name de = path then Some de else None
          | _ \<Rightarrow> None))))"

section \<open>Adding entries\<close>

definition empty_scan :: de_scan where
  "empty_scan = \<lparr> sc_de = None, all_searched = False, de_tested = 0, sc_ents = [] \<rparr>"

text \<open>Filling the empty slot that was found: the new block and the parent with one more link.\<close>

definition fill_slot :: "bfs_env \<Rightarrow> direntry \<Rightarrow> nat \<Rightarrow> string \<Rightarrow> nat \<Rightarrow> byte list \<Rightarrow> inode \<Rightarrow> ('z bfs_handle_scheme, inode) comp" where
  "fill_slot E de new_ino path v blk par =
     (let de1 = set_blk_loc v (set_ino new_ino (set_de_name path de)) in
      bindE (liftS (de_serialize de1 (DENTRY_ABSOLUTE_BLK_OFF (blk_idx_loc de1)) blk)) (\<lambda>(len, blk').
      seqE (guardE (len = DIRENT_SZ) BfsAbort)
      (seqE (write_blk E v blk' True)
      (let par1 = set_i_links (u64 (i_links_count par + 1)) par in
       seqE (write_inode E par1 True 0 True) (retE par1)))))"

text \<open>The result of both functions is whether they succeeded, and the parent inode as they leave it.\<close>

primrec add_direct_loop :: "bfs_env \<Rightarrow> nat \<Rightarrow> string \<Rightarrow> nat list \<Rightarrow> inode \<Rightarrow> bool \<Rightarrow> de_scan \<Rightarrow>
    ('z bfs_handle_scheme, bool \<times> inode) comp" where
  "add_direct_loop E new_ino path [] par skip sc = retE (False, par)"
| "add_direct_loop E new_ino path (idx # rest) par skip sc =
     bindE (at_blk (i_blks par) idx) (\<lambda>b.
     bindE data_start (\<lambda>d.
     bindE (if b < d then
         bindE sb_alloc (\<lambda>nb.
         if nb = 0 then retE None
         else bindE (liftS (set_i_blk idx nb par)) (\<lambda>par1.
           seqE (write_inode E par1 True 0 True) (retE (Some (nb, par1, True)))))
       else retE (Some (b, par, skip))) (\<lambda>r. case r of
       None \<Rightarrow> retE (False, par)
     | Some (v, par1, skip1) \<Rightarrow>
         bindE (if skip1 then retE (replicate BLK_SZ 0) else read_blk E v) (\<lambda>blk.
         bindE (liftS (check_each_dentry 3 [] v blk par1 sc)) (\<lambda>(found, sc1).
         if found then bindE (fill_slot E (the (sc_de sc1)) new_ino path v blk par1) (\<lambda>par2. retE (True, par2))
         else add_direct_loop E new_ino path rest par1 skip1 sc1)))))"

definition add_dentry_to_direct_blks :: "bfs_env \<Rightarrow> inode \<Rightarrow> inode \<Rightarrow> string \<Rightarrow> ('z bfs_handle_scheme, bool \<times> inode) comp" where
  "add_dentry_to_direct_blks E par new path = add_direct_loop E (i_no new) path [0..<NUM_DIRECT_BLOCKS] par False empty_scan"

text \<open>\<^verbatim>\<open>ibuf\<close> is the buffer of the indirect block, which a write leaves encrypted.\<close>

primrec add_indirect_loop :: "bfs_env \<Rightarrow> nat \<Rightarrow> string \<Rightarrow> nat list \<Rightarrow> nat \<Rightarrow> byte list \<Rightarrow> indirect \<Rightarrow> inode \<Rightarrow> bool \<Rightarrow> de_scan \<Rightarrow>
    ('z bfs_handle_scheme, bool \<times> inode) comp" where
  "add_indirect_loop E new_ino path [] ind ibuf locs par skip sc = retE (False, par)"
| "add_indirect_loop E new_ino path (idx # rest) ind ibuf locs par skip sc =
     bindE (at_blk locs idx) (\<lambda>b.
     bindE data_start (\<lambda>d.
     bindE (if b < d then
         bindE sb_alloc (\<lambda>nb.
         if nb = 0 then retE None
         else bindE (liftS (set_indirect_loc idx nb locs)) (\<lambda>locs1.
           bindE (liftS (ib_serialize locs1 0 ibuf)) (\<lambda>(len, ibuf1).
           seqE (guardE (len \<le> BLK_SZ) BfsAbort)
           (bindE (write_blk E ind ibuf1 True) (\<lambda>ct. retE (Some (nb, locs1, ct, True)))))))
       else retE (Some (b, locs, ibuf, skip))) (\<lambda>r. case r of
       None \<Rightarrow> retE (False, par)
     | Some (v, locs1, ibuf1, skip1) \<Rightarrow>
         bindE (if skip1 then retE (replicate BLK_SZ 0) else read_blk E v) (\<lambda>blk.
         bindE (liftS (check_each_dentry 3 [] v blk par sc)) (\<lambda>(found, sc1).
         if found then bindE (fill_slot E (the (sc_de sc1)) new_ino path v blk par) (\<lambda>par2. retE (True, par2))
         else add_indirect_loop E new_ino path rest ind ibuf1 locs1 par skip1 sc1)))))"

definition add_dentry_to_indirect_blks :: "bfs_env \<Rightarrow> inode \<Rightarrow> inode \<Rightarrow> string \<Rightarrow> ('z bfs_handle_scheme, bool \<times> inode) comp" where
  "add_dentry_to_indirect_blks E par new path =
     bindE (at_blk (i_blks par) NUM_DIRECT_BLOCKS) (\<lambda>b.
     bindE data_start (\<lambda>d.
     if b < d then
       bindE sb_alloc (\<lambda>nb.
       if nb = 0 then retE (False, par)
       else bindE (liftS (set_i_blk NUM_DIRECT_BLOCKS nb par)) (\<lambda>par1.
         add_indirect_loop E (i_no new) path [0..<length IndirectBlock] nb (replicate BLK_SZ 0) IndirectBlock par1 True empty_scan))
     else
       bindE (read_blk E b) (\<lambda>blk.
       bindE (liftS (ib_deserialize 0 blk)) (\<lambda>(locs, len).
       seqE (guardE (len \<le> BLK_SZ) BfsAbort)
       (add_indirect_loop E (i_no new) path [0..<length locs] b blk locs par False empty_scan)))))"

text \<open>First the direct blocks, then the indirect ones; the handlers fail if both fail.\<close>

definition add_dentry :: "bfs_env \<Rightarrow> inode \<Rightarrow> inode \<Rightarrow> string \<Rightarrow> ('z bfs_handle_scheme, inode) comp" where
  "add_dentry E par new path =
     bindE (add_dentry_to_direct_blks E par new path) (\<lambda>(ok, par1).
     if ok then retE par1
     else bindE (add_dentry_to_indirect_blks E par1 new path) (\<lambda>(ok2, par2).
       seqE (guardE ok2 BfsServerError) (retE par2)))"

section \<open>Handlers\<close>

text \<open>The object a path names; a missing one is the client's error.\<close>

definition path_inode :: "bfs_env \<Rightarrow> user_ctx option \<Rightarrow> string \<Rightarrow> ('z bfs_handle_scheme, direntry \<times> inode) comp" where
  "path_inode E usr path =
     seqE (check_name_len path)
     (bindE (get_de E usr path) (\<lambda>r. case r of
        None \<Rightarrow> throwE BfsClientRequestFailedError
      | Some de \<Rightarrow> bindE (read_inode E (de_ino de)) (\<lambda>i. seqE (check_access usr i) (retE (de, i)))))"

definition parent_inode :: "bfs_env \<Rightarrow> user_ctx option \<Rightarrow> string \<Rightarrow> ('z bfs_handle_scheme, inode) comp" where
  "parent_inode E usr path =
     bindE (get_de E usr (fst (bfs_dirname (bfs_strdup path)))) (\<lambda>r. case r of
        None \<Rightarrow> throwE BfsServerError
      | Some de \<Rightarrow> bindE (read_inode E (de_ino de)) (\<lambda>i.
          seqE (check_access usr i)
          (seqE (guardE (BFS__S_ISDIR (i_mode i)) BfsServerError) (retE i))))"

text \<open>Writing an entry back to its slot.\<close>

definition store_dentry :: "bfs_env \<Rightarrow> direntry \<Rightarrow> ('z bfs_handle_scheme, unit) comp" where
  "store_dentry E de =
     bindE (read_blk E (blk_loc de)) (\<lambda>blk.
     bindE (liftS (de_serialize de (DENTRY_ABSOLUTE_BLK_OFF (blk_idx_loc de)) blk)) (\<lambda>(len, blk').
     seqE (guardE (len = DIRENT_SZ) BfsAbort)
     (seqE (write_blk E (blk_loc de) blk' True) (retE ()))))"

definition drop_link :: "bfs_env \<Rightarrow> inode \<Rightarrow> ('z bfs_handle_scheme, unit) comp" where
  "drop_link E par = write_inode E (set_i_links (sub64 (i_links_count par) 1) par) True 0 True"

definition bfs_getattr :: "bfs_env \<Rightarrow> user_ctx option \<Rightarrow> string \<Rightarrow> ('z bfs_handle_scheme, nat \<times> nat \<times> nat \<times> nat) comp" where
  "bfs_getattr E usr path = bindE (path_inode E usr path) (\<lambda>(de, i). retE (i_uid i, i_no i, i_mode i, i_size i))"

definition open_insert :: "nat \<Rightarrow> openfile \<Rightarrow> ('z bfs_handle_scheme, unit) comp" where
  "open_insert fh f = modE (\<lambda>s. if fh \<in> fst ` set (open_file_tab s) then s
     else s \<lparr> open_file_tab := (fh, f) # open_file_tab s \<rparr>)"

definition open_at :: "nat \<Rightarrow> ('z bfs_handle_scheme, openfile) comp" where
  "open_at fh = bindE (getE (\<lambda>s. map_of (open_file_tab s) fh)) (\<lambda>r. case r of
     None \<Rightarrow> throwE StdOutOfRange
   | Some f \<Rightarrow> seqE (guardE (\<not> of_ino f < ROOT_INO) BfsServerError) (retE f))"

definition bfs_opendir :: "bfs_env \<Rightarrow> user_ctx option \<Rightarrow> string \<Rightarrow> ('z bfs_handle_scheme, nat) comp" where
  "bfs_opendir E usr path =
     bindE (path_inode E usr path) (\<lambda>(de, i).
     seqE (guardE (BFS__S_ISDIR (i_mode i)) BfsClientRequestFailedError)
     (bindE alloc_fd (\<lambda>fh.
      seqE (guardE (\<not> fh < START_FD) BfsServerError)
      (seqE (write_inode E (set_ref_cnt (u64 (ref_cnt i + 1)) i) True 0 True)
      (seqE (open_insert fh (OpenFile (i_no i) 0)) (retE fh))))))"

definition bfs_readdir :: "bfs_env \<Rightarrow> user_ctx option \<Rightarrow> nat \<Rightarrow> ('z bfs_handle_scheme, direntry list) comp" where
  "bfs_readdir E usr fh =
     bindE (open_at fh) (\<lambda>f.
     bindE (check_direct_blks E usr [] (of_ino f) 2 empty_scan) (\<lambda>(ret, ino1, sc1).
     seqE (guardE ret BfsServerError)
     (if all_searched sc1 then retE (sc_ents sc1)
      else bindE (check_indirect_blks E usr [] ino1 2 sc1) (\<lambda>(ret2, _, sc2).
        seqE (guardE ret2 BfsServerError) (retE (sc_ents sc2))))))"

definition usr_id :: "user_ctx option \<Rightarrow> ('s, nat) comp" where
  "usr_id usr = (case usr of None \<Rightarrow> throwE BfsBadPointer | Some u \<Rightarrow> retE (usr_uid u))"

text \<open>What \<^verbatim>\<open>bfs_mkdir\<close> and \<^verbatim>\<open>bfs_create\<close> start with: the path is new, the parent is a directory, and there is a free
  inode number.\<close>

definition new_entry :: "bfs_env \<Rightarrow> user_ctx option \<Rightarrow> string \<Rightarrow> ('z bfs_handle_scheme, inode \<times> nat) comp" where
  "new_entry E usr path =
     seqE (check_name_len path)
     (bindE (get_de E usr path) (\<lambda>r.
      seqE (guardE (r = None) BfsClientRequestFailedError)
      (bindE (parent_inode E usr path) (\<lambda>par.
       bindE (alloc_ino E) (\<lambda>ino.
       seqE (guardE (\<not> ino < FIRST_UNRESERVED_INO) BfsClientRequestFailedError) (retE (par, ino)))))))"

definition bfs_mkdir :: "bfs_env \<Rightarrow> user_ctx option \<Rightarrow> string \<Rightarrow> nat \<Rightarrow> ('z bfs_handle_scheme, unit) comp" where
  "bfs_mkdir E usr path mode =
     bindE (new_entry E usr path) (\<lambda>(par, ino).
     bindE (usr_id usr) (\<lambda>uid.
     let new = Inode ino uid (BFS__S_IFDIR OR mode) 0 0 0 0 0 2 in
     bindE (liftS (de_serialize (DirEntry ''.'' ino 0 0) (DENTRY_ABSOLUTE_BLK_OFF 0) (replicate BLK_SZ 0))) (\<lambda>(len0, b0).
     seqE (guardE (len0 = DIRENT_SZ) BfsAbort)
     (bindE (liftS (de_serialize (DirEntry ''..'' (i_no par) 0 0) (DENTRY_ABSOLUTE_BLK_OFF 1) b0)) (\<lambda>(len1, b1).
      seqE (guardE (len1 = DIRENT_SZ) BfsAbort)
      (bindE sb_alloc (\<lambda>v.
       seqE (guardE (v \<noteq> 0) BfsServerError)
       (bindE (liftS (set_i_blk 0 v new)) (\<lambda>new1.
        seqE (write_blk E v b1 True)
        (seqE (add_dentry E par new1 path)
        (write_inode E new1 True 0 True)))))))))))"

definition bfs_rmdir :: "bfs_env \<Rightarrow> user_ctx option \<Rightarrow> string \<Rightarrow> ('z bfs_handle_scheme, unit) comp" where
  "bfs_rmdir E usr path =
     bindE (path_inode E usr path) (\<lambda>(de, i).
     seqE (guardE (BFS__S_ISDIR (i_mode i)) BfsClientRequestFailedError)
     (seqE (guardE (\<not> i_links_count i > 2) BfsClientRequestFailedError)
     (seqE (guardE (\<not> (path \<noteq> ''/'' \<and> ref_cnt i > 0)) BfsClientRequestFailedError)
     (seqE (dealloc_ino E i)
     (bindE (parent_inode E usr path) (\<lambda>par.
      seqE (store_dentry E (set_ino 0 (set_de_name [] de)))
      (drop_link E par)))))))"

definition bfs_unlink :: "bfs_env \<Rightarrow> user_ctx option \<Rightarrow> string \<Rightarrow> ('z bfs_handle_scheme, unit) comp" where
  "bfs_unlink E usr path =
     bindE (path_inode E usr path) (\<lambda>(de, i).
     seqE (guardE (BFS__S_ISREG (i_mode i)) BfsClientRequestFailedError)
     (seqE (guardE (\<not> i_links_count i > 0) BfsServerError)
     (seqE (guardE (\<not> (path \<noteq> ''/'' \<and> ref_cnt i > 0)) BfsClientRequestFailedError)
     (seqE (dealloc_ino E i)
     (bindE (parent_inode E usr path) (\<lambda>par.
      seqE (store_dentry E (set_ino 0 (set_de_name [] de)))
      (drop_link E par)))))))"

text \<open>The source entry is removed before the target is looked at.\<close>

definition bfs_rename :: "bfs_env \<Rightarrow> user_ctx option \<Rightarrow> string \<Rightarrow> string \<Rightarrow> ('z bfs_handle_scheme, unit) comp" where
  "bfs_rename E usr fr_path to_path =
     seqE (check_name_len fr_path)
     (bindE (parent_inode E usr fr_path) (\<lambda>fr_par.
      bindE (get_de E usr fr_path) (\<lambda>r. case r of
        None \<Rightarrow> throwE BfsClientRequestFailedError
      | Some de \<Rightarrow>
          bindE (read_inode E (de_ino de)) (\<lambda>fr.
          seqE (check_access usr fr)
          (seqE (guardE (BFS__S_ISREG (i_mode fr)) BfsClientRequestFailedError)
          (seqE (store_dentry E (set_ino 0 (set_de_name [] de)))
          (seqE (drop_link E fr_par)
          (bindE (get_de E usr to_path) (\<lambda>r2. case r2 of
             Some to_de \<Rightarrow>
               bindE (read_inode E (de_ino to_de)) (\<lambda>to.
               seqE (check_access usr to)
               (seqE (dealloc_ino E to)
               (store_dentry E (set_ino (i_no fr) to_de))))
           | None \<Rightarrow>
               bindE (parent_inode E usr to_path) (\<lambda>to_par.
               seqE (add_dentry E to_par fr to_path) (retE ())))))))))))"

primrec prealloc_list :: "nat \<Rightarrow> ('z bfs_handle_scheme, nat list) comp" where
  "prealloc_list 0 = retE []"
| "prealloc_list (Suc n) = bindE sb_alloc (\<lambda>b. seqE (guardE (b \<noteq> 0) BfsServerError)
     (bindE (prealloc_list n) (\<lambda>bs. retE (b # bs))))"

text \<open>Blocks for a whole file of maximal size, the indirect block in between.\<close>

definition prealloc_blks :: "bfs_env \<Rightarrow> inode \<Rightarrow> ('z bfs_handle_scheme, inode) comp" where
  "prealloc_blks E i =
     bindE (prealloc_list NUM_DIRECT_BLOCKS) (\<lambda>ds.
     bindE sb_alloc (\<lambda>ind.
     seqE (guardE (ind \<noteq> 0) BfsServerError)
     (bindE (prealloc_list NUM_BLKS_PER_IB) (\<lambda>locs.
      bindE (liftS (ib_serialize locs 0 (replicate BLK_SZ 0))) (\<lambda>(len, blk).
      seqE (guardE (len \<le> BLK_SZ) BfsAbort)
      (seqE (write_blk E ind blk True)
      (retE (i \<lparr> i_blks := ds @ ind # drop (Suc NUM_DIRECT_BLOCKS) (i_blks i), i_dirty := True \<rparr>))))))))"

definition bfs_create :: "bfs_env \<Rightarrow> user_ctx option \<Rightarrow> string \<Rightarrow> nat \<Rightarrow> ('z bfs_handle_scheme, nat) comp" where
  "bfs_create E usr path mode =
     bindE (new_entry E usr path) (\<lambda>(par, ino).
     bindE (usr_id usr) (\<lambda>uid.
     let new = Inode ino uid (BFS__S_IFREG OR mode) 1 0 0 0 0 0 in
     seqE (add_dentry E par new path)
     (bindE alloc_fd (\<lambda>fh.
      seqE (guardE (\<not> fh < START_FD) BfsServerError)
      (seqE (open_insert fh (OpenFile ino 0))
      (bindE (prealloc_blks E new) (\<lambda>new1.
       seqE (write_inode E new1 True 0 True) (retE fh))))))))"

text \<open>The mode is set on the inode in memory, which is then released without being written.  With the inode
  cache off, as in the shipped configuration, that inode is gone with the request; with the cache on it would be
  the cached object, in which later lookups find the new mode.\<close>

definition bfs_chmod :: "bfs_env \<Rightarrow> user_ctx option \<Rightarrow> string \<Rightarrow> nat \<Rightarrow> ('z bfs_handle_scheme, inode) comp" where
  "bfs_chmod E usr path new_mode = bindE (path_inode E usr path) (\<lambda>(de, i). retE (set_mode new_mode i))"

text \<open>\<^verbatim>\<open>_bfs__O_APPEND\<close> is 0.\<close>

definition bfs_O_APPEND :: nat where "bfs_O_APPEND = 0"

definition bfs_open :: "bfs_env \<Rightarrow> user_ctx option \<Rightarrow> string \<Rightarrow> nat \<Rightarrow> ('z bfs_handle_scheme, nat) comp" where
  "bfs_open E usr path flags =
     bindE (path_inode E usr path) (\<lambda>(de, i).
     seqE (guardE (BFS__S_ISREG (i_mode i)) BfsClientRequestFailedError)
     (bindE alloc_fd (\<lambda>fh.
      seqE (guardE (\<not> fh < START_FD) BfsServerError)
      (let off = (if flags AND bfs_O_APPEND \<noteq> 0 then i_size i else 0) in
       seqE (write_inode E (set_ref_cnt (u64 (ref_cnt i + 1)) i) True 0 True)
       (seqE (open_insert fh (OpenFile (i_no i) off)) (retE fh))))))"

text \<open>The inode of an open file.\<close>

definition open_inode :: "bfs_env \<Rightarrow> user_ctx option \<Rightarrow> nat \<Rightarrow> ('z bfs_handle_scheme, inode) comp" where
  "open_inode E usr fh =
     bindE (open_at fh) (\<lambda>f. bindE (read_inode E (of_ino f)) (\<lambda>i. seqE (check_access usr i) (retE i)))"

definition bfs_fsync :: "bfs_env \<Rightarrow> user_ctx option \<Rightarrow> nat \<Rightarrow> ('z bfs_handle_scheme, unit) comp" where
  "bfs_fsync E usr fh = bindE (open_inode E usr fh) (\<lambda>i. write_inode E i True 0 True)"

definition bfs_release :: "bfs_env \<Rightarrow> user_ctx option \<Rightarrow> nat \<Rightarrow> ('z bfs_handle_scheme, unit) comp" where
  "bfs_release E usr fh =
     bindE (open_inode E usr fh) (\<lambda>i.
     seqE (write_inode E (set_ref_cnt (sub64 (ref_cnt i) 1) i) True 0 True)
     (modE (\<lambda>s. s \<lparr> open_file_tab := filter (\<lambda>(h, f). h \<noteq> fh) (open_file_tab s) \<rparr>)))"

section \<open>Operations that only look\<close>

text \<open>Two handles with the same contents: a lookup cannot tell them apart.\<close>

definition same_view :: "bfs_env \<Rightarrow> ckey \<Rightarrow> 'z bfs_handle_scheme \<Rightarrow> 'z bfs_handle_scheme \<Rightarrow> bool" where
  "same_view E k s t \<longleftrightarrow> store_ok E k s \<and> store_ok E k t \<and> maxBlockID (vbc t) = maxBlockID (vbc s) \<and>
     (\<forall>u \<in> data_ids (vbc s). plain E k t u = plain E k s u) \<and> core_blk.more t = core_blk.more s"

definition observer :: "bfs_env \<Rightarrow> ckey \<Rightarrow> ('z bfs_handle_scheme, 'a) comp \<Rightarrow> bool" where
  "observer E k m \<longleftrightarrow> (\<forall>s t. same_view E k s t \<longrightarrow> fst (m s) = fst (m t) \<and> same_view E k s (snd (m s)))"

lemma same_view_refl: "store_ok E k s \<Longrightarrow> same_view E k s s"
  by (simp add: same_view_def)

lemma same_view_sym: "same_view E k s t \<Longrightarrow> same_view E k t s"
  using data_ids_cong[of "vbc t" "vbc s"] by (auto simp: same_view_def)

lemma same_view_trans: "same_view E k s t \<Longrightarrow> same_view E k t u \<Longrightarrow> same_view E k s u"
  using data_ids_cong[of "vbc t" "vbc s"] by (auto simp: same_view_def)

lemma same_view_store: "same_view E k s t \<Longrightarrow> store_ok E k s" "same_view E k s t \<Longrightarrow> store_ok E k t"
  by (simp_all add: same_view_def)

lemma same_view_fields:
  "same_view E k s t \<Longrightarrow> maxBlockID (vbc t) = maxBlockID (vbc s) \<and> sb t = sb s \<and> open_file_tab t = open_file_tab s \<and>
     next_fd t = next_fd s \<and> acl_layer t = acl_layer s"
  using handle_frame[of t s] by (simp add: same_view_def)

lemma observerD: "observer E k m \<Longrightarrow> same_view E k s t \<Longrightarrow> fst (m s) = fst (m t) \<and> same_view E k s (snd (m s))"
  unfolding observer_def by blast

lemma observerI:
  "(\<And>s t. same_view E k s t \<Longrightarrow> fst (m s) = fst (m t)) \<Longrightarrow> (\<And>s. store_ok E k s \<Longrightarrow> same_view E k s (snd (m s))) \<Longrightarrow> observer E k m"
  unfolding observer_def using same_view_store(1) by blast

named_theorems observers \<open>operations that only look\<close>

lemma observer_bind [observers]:
  fixes m :: "('z bfs_handle_scheme, 'a) comp"
  assumes m: "observer E k m" and f: "\<And>x. observer E k (f x)"
  shows "observer E k (bindE m f)"
  unfolding observer_def
proof (intro allI impI)
  fix s t :: "'z bfs_handle_scheme" assume v: "same_view E k s t"
  have 1: "fst (m s) = fst (m t)" "same_view E k s (snd (m s))" using observerD[OF m v] by blast+
  have 2: "same_view E k t (snd (m t))" using observerD[OF m same_view_refl[OF same_view_store(2)[OF v]]] by blast
  have 3: "same_view E k (snd (m s)) (snd (m t))"
    by (rule same_view_trans[OF same_view_sym[OF 1(2)] same_view_trans[OF v 2]])
  show "fst (bindE m f s) = fst (bindE m f t) \<and> same_view E k s (snd (bindE m f s))"
  proof (cases "fst (m s)")
    case (Inl e)
    then have "bindE m f s = (Inl e, snd (m s))" "bindE m f t = (Inl e, snd (m t))"
      using 1(1) by (simp_all add: bindE_def case_prod_unfold)
    then show ?thesis using 1(2) by simp
  next
    case (Inr x)
    then have "bindE m f s = f x (snd (m s))" "bindE m f t = f x (snd (m t))"
      using 1(1) by (simp_all add: bindE_def case_prod_unfold)
    then show ?thesis using observerD[OF f 3] same_view_trans[OF 1(2)] by simp
  qed
qed

lemma observer_seq [observers]: "observer E k m \<Longrightarrow> observer E k n \<Longrightarrow> observer E k (seqE m n)"
  unfolding seqE_def by (rule observer_bind)

lemma observer_pure [observers]:
  "observer E k (retE x)" "observer E k (throwE e)" "observer E k (guardE b e)" "observer E k (liftS r)"
  by (rule observerI; simp add: comp_simps same_view_refl)+

lemma observer_get: "(\<And>s t. same_view E k s t \<Longrightarrow> g s = g t) \<Longrightarrow> observer E k (getE g)"
  by (rule observerI) (simp_all add: comp_simps same_view_refl)

lemma observer_handle [observers]:
  "observer E k (getE acl_layer)" "observer E k (getE (\<lambda>s. root_ino (sb s)))" "observer E k (getE (\<lambda>s. map_of (open_file_tab s) fh))"
  by (rule observer_get; use same_view_fields in force)+

lemma observer_if [observers]: "observer E k m \<Longrightarrow> observer E k n \<Longrightarrow> observer E k (if b then m else n)"
  by simp

lemma observer_option [observers]:
  "observer E k m \<Longrightarrow> (\<And>x. observer E k (n x)) \<Longrightarrow> observer E k (case r of None \<Rightarrow> m | Some x \<Rightarrow> n x)"
  by (cases r) simp_all

lemma observer_prod [observers]: "(\<And>x y. observer E k (n x y)) \<Longrightarrow> observer E k (case r of (x, y) \<Rightarrow> n x y)"
  by (cases r) simp

lemma data_start_run: "store_ok E k s \<Longrightarrow> data_start s = (Inr (DATA_REL_START_BLK_NUM (maxBlockID (vbc s))), s)"
  using need_key_run[of s] by (auto simp: store_ok_def data_start_def comp_simps)

lemma observer_data_start [observers]: "observer E k data_start"
proof (rule observerI)
  fix s t :: "'a bfs_handle_scheme" assume v: "same_view E k s t"
  show "fst (data_start s) = fst (data_start t)"
    using data_start_run[OF same_view_store(1)[OF v]] data_start_run[OF same_view_store(2)[OF v]] same_view_fields[OF v] by simp
next
  fix s :: "'a bfs_handle_scheme" assume "store_ok E k s"
  then show "same_view E k s (snd (data_start s))" by (simp add: data_start_run same_view_refl)
qed

lemma read_blk_outside:
  assumes ok: "store_ok E k s" and v: "v \<notin> data_ids (vbc s)"
  shows "read_blk E v s = (Inl BfsServerError, s)"
proof -
  obtain k' where key: "fs_key s = Some k'" using ok by (auto simp: store_ok_def)
  have c: "cluster_ok (vbc s)" "\<not> cache_enabled E" using ok by (auto simp: store_ok_def store_env_def)
  show ?thesis
  proof (cases "METADATA_REL_START_BLK_NUM \<le> v \<and> v < DATA_REL_START_BLK_NUM (maxBlockID (vbc s))")
    case True
    then show ?thesis
      using need_key_run[OF key] by (simp add: read_blk_def in_meta_range_def bindE_def seqE_def getE_def guardE_def retE_def throwE_def)
  next
    case False
    then have big: "maxBlockID (vbc s) \<le> v" using v by (auto simp: data_ids_def)
    have "getPhyBlockAddr v (vbc s) = Inl bfsBlockError"
      using addr_loop_miss[of 0 "devices (vbc s)" v 0] c(1) big by (simp add: getPhyBlockAddr_def cluster_ok_def)
    moreover have "in_meta_range v s = (Inr False, s)"
      using need_key_run[OF key] False by (auto simp: in_meta_range_def bindE_def seqE_def getE_def retE_def)
    ultimately show ?thesis
      by (simp add: read_blk_def catch_block_error_def catchE_def on_vbc_def readBlock_def readBlock_helper_def
        bindE_def seqE_def getE_def guardE_def retE_def throwE_def liftS_def)
  qed
qed

lemma observer_read_blk [observers]: "observer E k (read_blk E v :: ('a bfs_handle_scheme, byte list) comp)"
proof (rule observerI)
  fix s t :: "'a bfs_handle_scheme" assume v: "same_view E k s t"
  then have ids: "data_ids (vbc t) = data_ids (vbc s)" using data_ids_cong same_view_fields by blast
  show "fst (read_blk E v s) = fst (read_blk E v t)"
  proof (cases "v \<in> data_ids (vbc s)")
    case True
    then show ?thesis
      using store_read[OF same_view_store(1)[OF v] True] store_read[OF same_view_store(2)[OF v], of v] ids v
      by (auto simp: same_view_def)
  next
    case False
    then show ?thesis
      using read_blk_outside[OF same_view_store(1)[OF v] False] read_blk_outside[OF same_view_store(2)[OF v], of v] ids by simp
  qed
next
  fix s :: "'a bfs_handle_scheme" assume ok: "store_ok E k s"
  show "same_view E k s (snd (read_blk E v s))"
  proof (cases "v \<in> data_ids (vbc s)")
    case True
    then show ?thesis using store_read[OF ok True] ok by (auto simp: same_view_def)
  qed (use read_blk_outside[OF ok] same_view_refl[OF ok] in simp)
qed


lemma observer_read_inode [observers]: "observer E k (read_inode E ino :: ('a bfs_handle_scheme, inode) comp)"
  unfolding read_inode_def by (intro observers)

lemma observer_check_access [observers]: "observer E k (check_access usr i)"
  unfolding check_access_def by (intro observers)

lemma observer_dir_inode [observers]: "observer E k (dir_inode E usr ino)"
  unfolding dir_inode_def by (intro observers)

lemma observer_check_blks [observers]: "observer E k (check_blks E handler search i vs sc)"
  by (induction vs arbitrary: sc) (simp only: check_blks.simps, intro observers; assumption?)+

lemma observer_at_blk [observers]: "observer E k (at_blk bs i)"
  unfolding at_blk_def by (intro observers)

lemma observer_check_direct_blks [observers]: "observer E k (check_direct_blks E usr search ino handler sc)"
  unfolding check_direct_blks_def by (intro observers)

lemma observer_check_indirect_blks [observers]: "observer E k (check_indirect_blks E usr search ino handler sc)"
  unfolding check_indirect_blks_def by (intro observers)

lemma observer_get_de_loop [observers]: "observer E k (get_de_loop E usr ps ino de al)"
  by (induction ps arbitrary: ino de al) (simp only: get_de_loop.simps, intro observers; assumption?)+

lemma observer_get_de [observers]: "observer E k (get_de E usr path)"
  unfolding get_de_def by (intro observers)

lemma observer_path_inode [observers]: "observer E k (path_inode E usr path)"
  unfolding path_inode_def check_name_len_def by (intro observers)

lemma observer_getattr: "observer E k (bfs_getattr E usr path)"
  unfolding bfs_getattr_def by (intro observers)

lemma observer_chmod: "observer E k (bfs_chmod E usr path mode)"
  unfolding bfs_chmod_def by (intro observers)

lemma observer_readdir: "observer E k (bfs_readdir E usr fh)"
  unfolding bfs_readdir_def open_at_def by (intro observers)

text \<open>An operation after one that only looks and succeeds gives the answer it would have given before.\<close>

lemma observer_then:
  assumes "observer E k m" "observer E k n" "store_ok E k s" "fst (m s) = Inr x"
  shows "fst (seqE m n s) = fst (n s)"
proof -
  have "same_view E k s (snd (m s))" using observerD[OF assms(1) same_view_refl[OF assms(3)]] by blast
  then have "fst (n (snd (m s))) = fst (n s)" using observerD[OF assms(2)] by simp
  moreover have "seqE m n s = n (snd (m s))" using assms(4) by (simp add: seqE_def bindE_def case_prod_unfold)
  ultimately show ?thesis by simp
qed

section \<open>Properties\<close>

text \<open>C31: With the inode cache off (\<^verbatim>\<open>cache_enabled : false\<close>, the shipped configuration), a successful change of mode
  is lost: the answer to every later request for attributes, of the same path or any other, is the one that would
  have been given before it.\<close>
lemma chmod_lost:
  assumes "\<not> cache_enabled E" "store_ok E k s" "fst (bfs_chmod E usr path mode s) = Inr i"
  shows "fst (seqE (bfs_chmod E usr path mode) (bfs_getattr E usr2 path2) s) = fst (bfs_getattr E usr2 path2 s)"
  by (rule observer_then[OF observer_chmod observer_getattr assms(2,3)])

text \<open>What a handler sees of the object a path names.\<close>

lemma path_inode_found:
  assumes ok: "store_ok E k s" and len: "length path + 1 \<le> MAX_FILE_NAME_LEN"
    and de: "fst (get_de E usr path s) = Inr (Some de)" and i: "fst (read_inode E (de_ino de) s) = Inr i"
  shows "fst (path_inode E usr path s) =
    (if access_denied (acl_layer s) usr (i_uid i) (i_mode i) then Inl BfsAccessDeniedError else Inr (de, i))"
proof -
  obtain s1 where s1: "get_de E usr path s = (Inr (Some de), s1)" using de by (metis prod.collapse)
  then have v1: "same_view E k s s1" using observerD[OF observer_get_de same_view_refl[OF ok], of usr path] by simp
  obtain s2 where s2: "read_inode E (de_ino de) s1 = (Inr i, s2)"
    using observerD[OF observer_read_inode v1, of "de_ino de"] i by (metis prod.collapse)
  then have "same_view E k s1 s2"
    using observerD[OF observer_read_inode same_view_refl[OF same_view_store(2)[OF v1]], of "de_ino de"] by simp
  then have "acl_layer s2 = acl_layer s" using same_view_fields v1 by metis
  with s1 s2 len show ?thesis
    by (simp add: path_inode_def check_name_len_def check_access_def comp_simps)
qed

lemma path_inode_denied:
  assumes "fst (path_inode E usr path s) = Inl e"
  shows "fst (bfs_getattr E usr path s) = Inl e" "fst (bfs_opendir E usr path s) = Inl e" "fst (bfs_open E usr path flags s) = Inl e"
    "fst (bfs_chmod E usr path mode s) = Inl e" "fst (bfs_unlink E usr path s) = Inl e" "fst (bfs_rmdir E usr path s) = Inl e"
proof -
  obtain t where "path_inode E usr path s = (Inl e, t)" using assms by (metis prod.collapse)
  then show "fst (bfs_getattr E usr path s) = Inl e" "fst (bfs_opendir E usr path s) = Inl e" "fst (bfs_open E usr path flags s) = Inl e"
    "fst (bfs_chmod E usr path mode s) = Inl e" "fst (bfs_unlink E usr path s) = Inl e" "fst (bfs_rmdir E usr path s) = Inl e"
    by (simp_all add: bfs_getattr_def bfs_opendir_def bfs_open_def bfs_chmod_def bfs_unlink_def bfs_rmdir_def bindE_def)
qed

text \<open>C30: Owners are locked out of their private files.  For a path that leads to an object of the user, the handlers
  answer by the mode: with a right for the owner and one for others the attributes are reported, but when the mode
  has no right for others (for instance 0700), the owner is denied the attributes, opening, changing the mode back,
  and removal, because the rights of others are required of the owner as well.\<close>
lemma owner_locked_out:
  assumes ok: "store_ok E k s" "ACLayerInitialized (acl_layer s)" and len: "length path + 1 \<le> MAX_FILE_NAME_LEN"
    and de: "fst (get_de E (Some u) path s) = Inr (Some de)" and i: "fst (read_inode E (de_ino de) s) = Inr i"
    and own: "usr_uid u = i_uid i"
  shows "fst (bfs_getattr E (Some u) path s) =
      (if i_mode i AND BFS__S_IRWXU = 0 \<or> i_mode i AND BFS__S_IRWXO = 0 then Inl BfsAccessDeniedError
       else Inr (i_uid i, i_no i, i_mode i, i_size i)) \<and>
    (i_mode i AND BFS__S_IRWXO = 0 \<longrightarrow>
      fst (bfs_open E (Some u) path flags s) = Inl BfsAccessDeniedError \<and> fst (bfs_opendir E (Some u) path s) = Inl BfsAccessDeniedError \<and>
      fst (bfs_chmod E (Some u) path mode s) = Inl BfsAccessDeniedError \<and> fst (bfs_unlink E (Some u) path s) = Inl BfsAccessDeniedError \<and>
      fst (bfs_rmdir E (Some u) path s) = Inl BfsAccessDeniedError)"
proof -
  let ?no = "i_mode i AND BFS__S_IRWXU = 0 \<or> i_mode i AND BFS__S_IRWXO = 0"
  have p: "fst (path_inode E (Some u) path s) = (if ?no then Inl BfsAccessDeniedError else Inr (de, i))"
    using path_inode_found[OF ok(1) len de i] ok(2) own
    by (auto simp: access_denied_def is_owner_def owner_access_ok_def world_access_ok_def)
  show ?thesis
  proof (cases ?no)
    case True
    then show ?thesis using path_inode_denied[of E "Some u" path s BfsAccessDeniedError] p by simp
  next
    case False
    then obtain t where "path_inode E (Some u) path s = (Inr (de, i), t)" using p by (metis prod.collapse)
    with False show ?thesis by (simp add: bfs_getattr_def comp_simps)
  qed
qed

text \<open>A handle whose root directory is an empty one.\<close>

definition demo_root :: inode where
  "demo_root = Inode ROOT_INO 0 16877 0 0 0 0 0 2"

definition root_handle :: bfs_handle where
  "root_handle = snd (write_inode demo_env demo_root True 0 True zero_handle) \<lparr> sb := (SuperBlock 0) \<lparr> root_ino := ROOT_INO \<rparr> \<rparr>"

lemma demo_root_sel:
  "inode_wf demo_root" "i_no demo_root = ROOT_INO" "ROOT_INO < NUM_INODES" "ROOT_INO \<noteq> NULL_INO"
  by (simp_all add: demo_root_def Inode_def inode_wf_def layout_defs)

lemma root_handle_ok:
  "store_ok demo_env demo_key root_handle" "inode_at demo_env demo_key root_handle ROOT_INO = Inr (demo_root \<lparr> i_dirty := False \<rparr>, 168)"
  "acl_layer root_handle = demo_acl" "root_ino (sb root_handle) = ROOT_INO"
proof -
  have n: "i_no demo_root < NUM_INODES" by (simp add: demo_root_sel)
  obtain t where t: "write_inode demo_env demo_root True 0 True zero_handle = (Inr (), t)" "store_ok demo_env demo_key t"
      "inode_at demo_env demo_key t ROOT_INO = Inr (demo_root \<lparr> i_dirty := False \<rparr>, 168)" "core_blk.more t = core_blk.more zero_handle"
    using write_inode_ok[OF zero_handle_ok demo_root_sel(1) n] demo_root_sel(2) by auto
  have "acl_layer t = demo_acl" using handle_frame[OF t(4)] by simp
  then show "store_ok demo_env demo_key root_handle" "acl_layer root_handle = demo_acl" "root_ino (sb root_handle) = ROOT_INO"
    "inode_at demo_env demo_key root_handle ROOT_INO = Inr (demo_root \<lparr> i_dirty := False \<rparr>, 168)"
    using t by (simp_all add: root_handle_def inode_at_def)
qed

text \<open>Lookup of the root.\<close>

lemma path_inode_root:
  assumes ok: "store_ok E k s" and i: "inode_at E k s (root_ino (sb s)) = Inr (i, len)" "len \<le> INODE_SZ" "i_no i \<noteq> NULL_INO"
    "root_ino (sb s) < NUM_INODES" and acc: "\<not> access_denied (acl_layer s) usr (i_uid i) (i_mode i)"
  shows "\<exists>de. fst (path_inode E usr ''/'' s) = Inr (de, i)"
proof -
  have r: "fst (read_inode E (root_ino (sb s)) s) = Inr i" using read_inode_ok(1)[OF ok i(4)] i by simp
  have "same_view E k s (snd (read_inode E (root_ino (sb s)) s))"
    using observerD[OF observer_read_inode same_view_refl[OF ok]] by blast
  then have "acl_layer (snd (read_inode E (root_ino (sb s)) s)) = acl_layer s" using same_view_fields by blast
  then show ?thesis
    using r acc data_start_run[OF ok]
    by (cases "read_inode E (root_ino (sb s)) s")
      (simp add: path_inode_def check_name_len_def get_de_def check_access_def DirEntry_def comp_simps bindE_def seqE_def layout_vals)
qed

theorem chmod_lost_witness:
  "\<exists>i. fst (bfs_chmod demo_env (Some (BfsUserContext 7)) ''/'' 16895 root_handle) = Inr i \<and> i_mode i = 16895 \<and>
     fst (seqE (bfs_chmod demo_env (Some (BfsUserContext 7)) ''/'' 16895) (bfs_getattr demo_env (Some (BfsUserContext 7)) ''/'') root_handle)
       = Inr (0, ROOT_INO, 16877, 0)"
proof -
  let ?u = "Some (BfsUserContext 7)" and ?i = "demo_root \<lparr> i_dirty := False \<rparr>"
  have acc: "\<not> access_denied (acl_layer root_handle) ?u (i_uid ?i) (i_mode ?i)"
    by (simp add: root_handle_ok(3) demo_acl_def access_denied_def is_owner_def owner_access_ok_def world_access_ok_def
      BfsUserContext_def demo_root_def Inode_def BFS__S_IRWXO_def)
  obtain de where p: "fst (path_inode demo_env ?u ''/'' root_handle) = Inr (de, ?i)"
    using path_inode_root[OF root_handle_ok(1), of ?i 168 ?u] acc root_handle_ok(2,4) demo_root_sel by (auto simp: layout_vals)
  then have c: "fst (bfs_chmod demo_env ?u ''/'' 16895 root_handle) = Inr (set_mode 16895 ?i)"
    by (cases "path_inode demo_env ?u ''/'' root_handle") (simp add: bfs_chmod_def comp_simps)
  have g: "fst (bfs_getattr demo_env ?u ''/'' root_handle) = Inr (0, ROOT_INO, 16877, 0)"
    using p by (cases "path_inode demo_env ?u ''/'' root_handle") (simp add: bfs_getattr_def comp_simps demo_root_def Inode_def)
  show ?thesis
    using chmod_lost[OF _ root_handle_ok(1) c, of ?u "''/''"] c g by (simp add: set_mode_def demo_env_def)
qed

text \<open>A handle whose root directory belongs to user 7 and grants rights to that user only.\<close>

definition private_root :: inode where
  "private_root = Inode ROOT_INO 7 16832 0 0 0 0 0 2"

definition private_handle :: bfs_handle where
  "private_handle = snd (write_inode demo_env private_root True 0 True zero_handle) \<lparr> sb := (SuperBlock 0) \<lparr> root_ino := ROOT_INO \<rparr> \<rparr>"

lemma private_handle_ok:
  "store_ok demo_env demo_key private_handle" "fst (read_inode demo_env ROOT_INO private_handle) = Inr (private_root \<lparr> i_dirty := False \<rparr>)"
  "acl_layer private_handle = demo_acl" "root_ino (sb private_handle) = ROOT_INO"
proof -
  have w: "inode_wf private_root" "i_no private_root = ROOT_INO" "i_no private_root < NUM_INODES"
    by (simp_all add: private_root_def Inode_def inode_wf_def layout_defs)
  obtain t where t: "write_inode demo_env private_root True 0 True zero_handle = (Inr (), t)" "store_ok demo_env demo_key t"
      "inode_at demo_env demo_key t ROOT_INO = Inr (private_root \<lparr> i_dirty := False \<rparr>, 168)" "core_blk.more t = core_blk.more zero_handle"
    using write_inode_ok[OF zero_handle_ok w(1,3)] w(2) by auto
  have "acl_layer t = demo_acl" using handle_frame[OF t(4)] by simp
  then show ok: "store_ok demo_env demo_key private_handle" "acl_layer private_handle = demo_acl" "root_ino (sb private_handle) = ROOT_INO"
    using t by (simp_all add: private_handle_def)
  have "inode_at demo_env demo_key private_handle ROOT_INO = Inr (private_root \<lparr> i_dirty := False \<rparr>, 168)"
    using t by (simp add: private_handle_def inode_at_def)
  then show "fst (read_inode demo_env ROOT_INO private_handle) = Inr (private_root \<lparr> i_dirty := False \<rparr>)"
    using read_inode_ok(1)[OF ok(1), of ROOT_INO] demo_root_sel w(2) by (simp add: layout_vals)
qed

theorem owner_locked_out_witness:
  "fst (bfs_getattr demo_env (Some (BfsUserContext 7)) ''/'' private_handle) = Inl BfsAccessDeniedError \<and>
   fst (bfs_chmod demo_env (Some (BfsUserContext 7)) ''/'' 16895 private_handle) = Inl BfsAccessDeniedError"
proof -
  let ?u = "BfsUserContext 7" and ?i = "private_root \<lparr> i_dirty := False \<rparr>"
  have a: "ACLayerInitialized (acl_layer private_handle)" by (simp add: private_handle_ok(3) demo_acl_def)
  have l: "length ''/'' + 1 \<le> MAX_FILE_NAME_LEN" by (simp add: layout_vals)
  obtain de where de: "fst (get_de demo_env (Some ?u) ''/'' private_handle) = Inr (Some de)" "de_ino de = ROOT_INO"
    using data_start_run[OF private_handle_ok(1)] private_handle_ok(4)
    by (simp add: get_de_def DirEntry_def comp_simps bindE_def seqE_def)
  have i: "fst (read_inode demo_env (de_ino de) private_handle) = Inr ?i" using private_handle_ok(2) de(2) by simp
  have o: "usr_uid ?u = i_uid ?i" by (simp add: BfsUserContext_def private_root_def Inode_def)
  have m: "i_mode ?i AND BFS__S_IRWXO = 0" by (simp add: private_root_def Inode_def BFS__S_IRWXO_def)
  show ?thesis using owner_locked_out[OF private_handle_ok(1) a l de(1) i o, of 0 16895] m by simp
qed

end
