(* ===== verification/Bfs_Files.thy ===== *)
theory Bfs_Files
  imports Bfs_Dirs
begin

text \<open>
  Reading and writing open files, \<^verbatim>\<open>bfs_read\<close> and \<^verbatim>\<open>bfs_write\<close> of \<^verbatim>\<open>src/src/bfs_fs/bfs_core.cpp\<close>.  A file has 12
  direct blocks and one indirect block that names 512 more.  The caller's buffer is the byte list given to the
  operation and the \<^verbatim>\<open>size\<close> argument is its length.  The loops carry fuel; one unit for each byte that is left is
  enough, which the theory proves.  As in the theory of inodes, the caches are off and the object locks are left out.
\<close>

section \<open>Reading\<close>

text \<open>Where the next piece of the file is: a block, or one of the two ways in which the loop ends.  The block comes
  with the positions of the next one and with the indirect block once it has been read.\<close>

datatype file_pos =
    FP_break
  | FP_full
  | FP_blk nat nat "indirect option" nat

definition read_pos :: "bfs_env \<Rightarrow> inode \<Rightarrow> nat \<Rightarrow> nat \<Rightarrow> indirect option \<Rightarrow> nat \<Rightarrow> ('z bfs_handle_scheme, file_pos) comp" where
  "read_pos E i off idx ib iidx =
     bindE data_start (\<lambda>d.
     if idx < NUM_DIRECT_BLOCKS then
       bindE (at_blk (i_blks i) idx) (\<lambda>v.
       retE (if v < d then FP_break else FP_blk v (idx + 1) ib iidx))
     else
       bindE (case ib of
           Some locs \<Rightarrow> retE (locs, iidx)
         | None \<Rightarrow>
             seqE (guardE (off \<ge> BLK_SZ * NUM_DIRECT_BLOCKS) BfsAbort)
             (bindE (at_blk (i_blks i) NUM_DIRECT_BLOCKS) (\<lambda>ind.
              bindE (read_blk E ind) (\<lambda>blk.
              bindE (liftS (ib_deserialize 0 blk)) (\<lambda>(locs, len).
              seqE (guardE (len \<le> BLK_SZ) BfsAbort) (retE (locs, idx - NUM_DIRECT_BLOCKS)))))))
         (\<lambda>(locs, j).
         if j \<ge> length locs then retE FP_full
         else if locs ! j < d then retE FP_break
         else retE (FP_blk (locs ! j) idx (Some locs) (j + 1))))"

text \<open>How many bytes one turn reads.\<close>

definition read_len :: "inode \<Rightarrow> nat \<Rightarrow> nat \<Rightarrow> nat" where
  "read_len i num off =
     (let pos = off mod BLK_SZ;
          max_sz = (if num < BLK_SZ - pos then num else BLK_SZ - pos)
      in if u64 (off + max_sz) > i_size i then i_size i - off else max_sz)"

text \<open>The loop; the flag tells that it ended by returning from the function.\<close>

primrec read_loop :: "bfs_env \<Rightarrow> inode \<Rightarrow> nat \<Rightarrow> nat \<Rightarrow> nat \<Rightarrow> nat \<Rightarrow> nat \<Rightarrow> indirect option \<Rightarrow> nat \<Rightarrow> byte list \<Rightarrow>
    ('z bfs_handle_scheme, bool \<times> nat \<times> nat \<times> byte list) comp" where
  "read_loop E i sz 0 num off idx ib iidx buf = retE (False, num, off, buf)"
| "read_loop E i sz (Suc fuel) num off idx ib iidx buf =
     (if \<not> num > 0 then retE (False, num, off, buf)
      else if off \<ge> i_size i then retE (False, num, off, buf)
      else bindE (read_pos E i off idx ib iidx) (\<lambda>p. case p of
        FP_break \<Rightarrow> retE (False, num, off, buf)
      | FP_full \<Rightarrow> retE (True, num, off, buf)
      | FP_blk v idx1 ib1 iidx1 \<Rightarrow>
          (let n = read_len i num off in
           bindE (read_blk E v) (\<lambda>blk.
           bindE (liftS (mem_set (sz - num) (chunk (off mod BLK_SZ) n blk) buf)) (\<lambda>buf1.
           read_loop E i sz fuel (num - n) (u64 (off + n)) idx1 ib1 iidx1 buf1)))))"

definition of_set_offset :: "nat \<Rightarrow> nat \<Rightarrow> ('z bfs_handle_scheme, unit) comp" where
  "of_set_offset fh off = modE (\<lambda>s. s \<lparr> open_file_tab := map (\<lambda>(h, f). (h, if h = fh then set_offset off f else f)) (open_file_tab s) \<rparr>)"

text \<open>The number of bytes read and the buffer.\<close>

definition bfs_read :: "bfs_env \<Rightarrow> user_ctx option \<Rightarrow> nat \<Rightarrow> byte list \<Rightarrow> nat \<Rightarrow> ('z bfs_handle_scheme, nat \<times> byte list) comp" where
  "bfs_read E usr fh buf off =
     bindE (open_inode E usr fh) (\<lambda>i.
     let sz = length buf in
     if off > i_size i then retE (0, buf)
     else bindE (read_loop E i sz sz sz off (off div BLK_SZ) None 0 buf) (\<lambda>(early, num, off1, buf1).
       if early then retE (sz - num, buf1)
       else seqE (guardE (\<not> off1 > i_size i) BfsServerError)
         (seqE (of_set_offset fh off1) (retE (sz - num, buf1)))))"

section \<open>Writing\<close>

text \<open>The block for the next piece, allocated if there is none: its number, whether it is new, whether new blocks
  were used so far, the inode and the positions.  \<^const>\<open>None\<close> is the end of the largest file.\<close>

definition write_pos :: "bfs_env \<Rightarrow> inode \<Rightarrow> nat \<Rightarrow> indirect option \<Rightarrow> nat \<Rightarrow> bool \<Rightarrow>
    ('z bfs_handle_scheme, (nat \<times> bool \<times> bool \<times> inode \<times> nat \<times> indirect option \<times> nat) option) comp" where
  "write_pos E i idx ib iidx usedn =
     bindE data_start (\<lambda>d.
     if idx < NUM_DIRECT_BLOCKS then
       bindE (at_blk (i_blks i) idx) (\<lambda>b.
       if b < d then
         bindE sb_alloc (\<lambda>v.
         seqE (guardE (v \<noteq> 0) BfsServerError)
         (bindE (liftS (set_i_blk idx v i)) (\<lambda>i1. retE (Some (v, True, True, i1, idx + 1, ib, iidx)))))
       else retE (Some (b, False, usedn, i, idx + 1, ib, iidx)))
     else
       bindE (case ib of
           Some locs \<Rightarrow> retE (False, i, locs, iidx)
         | None \<Rightarrow>
             bindE (at_blk (i_blks i) NUM_DIRECT_BLOCKS) (\<lambda>b.
             if b < d then
               bindE sb_alloc (\<lambda>nb.
               seqE (guardE (nb \<noteq> 0) BfsServerError)
               (bindE (liftS (set_i_blk NUM_DIRECT_BLOCKS nb i)) (\<lambda>i1.
                seqE (write_blk E nb (replicate BLK_SZ 0) True)
                (retE (True, i1, IndirectBlock, idx - NUM_DIRECT_BLOCKS)))))
             else
               bindE (read_blk E b) (\<lambda>blk.
               bindE (liftS (ib_deserialize 0 blk)) (\<lambda>(locs, len).
               seqE (guardE (len \<le> BLK_SZ) BfsAbort) (retE (False, i, locs, idx - NUM_DIRECT_BLOCKS))))))
         (\<lambda>(new, i1, locs, j).
         if j \<ge> length locs then retE None
         else if locs ! j < d then
           bindE sb_alloc (\<lambda>v.
           seqE (guardE (v \<noteq> 0) BfsServerError)
           (bindE (liftS (set_indirect_loc j v locs)) (\<lambda>locs1.
            bindE (liftS (ib_serialize locs1 0 (replicate BLK_SZ 0))) (\<lambda>(len, ibuf).
            seqE (guardE (len \<le> BLK_SZ) BfsAbort)
            (bindE (at_blk (i_blks i1) NUM_DIRECT_BLOCKS) (\<lambda>ind.
             seqE (write_blk E ind ibuf True)
             (retE (Some (v, True, True, i1, idx, Some locs1, j + 1)))))))))
         else retE (Some (locs ! j, new, usedn, i1, idx, Some locs, j + 1))))"

definition write_len :: "nat \<Rightarrow> nat \<Rightarrow> nat" where
  "write_len num off = (if num \<ge> BLK_SZ - off mod BLK_SZ then BLK_SZ - off mod BLK_SZ else num)"

primrec write_loop :: "bfs_env \<Rightarrow> byte list \<Rightarrow> nat \<Rightarrow> nat \<Rightarrow> inode \<Rightarrow> nat \<Rightarrow> nat \<Rightarrow> indirect option \<Rightarrow> nat \<Rightarrow> bool \<Rightarrow>
    ('z bfs_handle_scheme, bool \<times> nat \<times> inode \<times> nat \<times> bool) comp" where
  "write_loop E wbuf 0 num i off idx ib iidx usedn = retE (False, num, i, off, usedn)"
| "write_loop E wbuf (Suc fuel) num i off idx ib iidx usedn =
     (if \<not> num > 0 then retE (False, num, i, off, usedn)
      else bindE (write_pos E i idx ib iidx usedn) (\<lambda>p. case p of
        None \<Rightarrow> retE (True, num, i, off, usedn)
      | Some (v, new, used1, i1, idx1, ib1, iidx1) \<Rightarrow>
          (let n = write_len num off in
           bindE (if \<not> new \<and> n < BLK_SZ then read_blk E v else retE (replicate BLK_SZ 0)) (\<lambda>blk.
           bindE (liftS (mem_set (off mod BLK_SZ) (chunk (length wbuf - num) n wbuf) blk)) (\<lambda>blk1.
           seqE (write_blk E v blk1 True)
           (write_loop E wbuf fuel (num - n) i1 (u64 (off + n)) idx1 ib1 iidx1 used1))))))"

text \<open>A write that starts past the end of the file first fills the hole with zeros; the buffer for that has the
  wrapped sum of both sizes.\<close>

definition bfs_write :: "bfs_env \<Rightarrow> user_ctx option \<Rightarrow> nat \<Rightarrow> byte list \<Rightarrow> nat \<Rightarrow> ('z bfs_handle_scheme, nat) comp" where
  "bfs_write E usr fh buf off =
     bindE (open_inode E usr fh) (\<lambda>i.
     let fill_hole = (off > i_size i); hole_size = (if fill_hole then off - i_size i else 0);
         initial_size = u64 (length buf + hole_size) in
     seqE (guardE (length buf + hole_size \<le> initial_size) BfsOutOfBounds)
     (let wbuf = replicate hole_size 0 @ buf; start = (if fill_hole then i_size i else off) in
      bindE (write_loop E wbuf initial_size initial_size i start (start div BLK_SZ) None 0 False) (\<lambda>(early, num, i1, off1, usedn).
      let n = (if fill_hole then sub64 (sub64 initial_size hole_size) num else sub64 initial_size num) in
      if early then retE n
      else
        seqE (of_set_offset fh off1)
        (seqE (if usedn \<or> off1 > i_size i1 then write_inode E (set_size off1 i1) True 0 True else retE ())
        (retE n)))))"

section \<open>The loops end\<close>

lemma read_len_bounds:
  assumes "0 < num" "off < i_size i"
  shows "0 < read_len i num off \<and> read_len i num off \<le> num"
proof -
  have m: "off mod BLK_SZ < BLK_SZ" by (simp add: BLK_SZ_def)
  let ?m = "if num < BLK_SZ - off mod BLK_SZ then num else BLK_SZ - off mod BLK_SZ"
  have "0 < ?m" "?m \<le> num" using m assms(1) by auto
  moreover have "i_size i - off < ?m" if "u64 (off + ?m) > i_size i"
  proof -
    have "u64 (off + ?m) \<le> off + ?m" by (simp add: u64_def)
    then have "i_size i < off + ?m" using that by (rule less_le_trans[rotated])
    then show ?thesis using assms(2) by linarith
  qed
  ultimately show ?thesis using assms(2) unfolding read_len_def Let_def by auto
qed

lemma write_len_bounds: "0 < num \<Longrightarrow> 0 < write_len num off \<and> write_len num off \<le> num"
  using mod_less_divisor[of BLK_SZ off] by (auto simp: write_len_def BLK_SZ_def)

lemma read_loop_fuel:
  fixes s :: "'a bfs_handle_scheme"
  shows
  "num \<le> f \<Longrightarrow> num \<le> g \<Longrightarrow> read_loop E i sz f num off idx ib iidx buf s = read_loop E i sz g num off idx ib iidx buf s"
proof (induction f arbitrary: g num off idx ib iidx buf s)
  case 0
  then show ?case by (cases g) simp_all
next
  case (Suc f)
  show ?case
  proof (cases g)
    case 0
    then show ?thesis using Suc.prems by simp
  next
    case g: (Suc g')
    have IH: "read_loop E i sz f (num - read_len i num off) = (read_loop E i sz g' (num - read_len i num off) ::
        _ \<Rightarrow> _ \<Rightarrow> _ \<Rightarrow> _ \<Rightarrow> _ \<Rightarrow> ('a bfs_handle_scheme, _) comp)" if "0 < num" "off < i_size i"
      using read_len_bounds[OF that] Suc.prems g by (intro ext Suc.IH; linarith)
    show ?thesis unfolding g read_loop.simps Let_def using IH by (simp cong: if_cong)
  qed
qed

lemma write_loop_fuel:
  fixes s :: "'a bfs_handle_scheme"
  shows
  "num \<le> f \<Longrightarrow> num \<le> g \<Longrightarrow> write_loop E wbuf f num i off idx ib iidx usedn s = write_loop E wbuf g num i off idx ib iidx usedn s"
proof (induction f arbitrary: g num i off idx ib iidx usedn s)
  case 0
  then show ?case by (cases g) simp_all
next
  case (Suc f)
  show ?case
  proof (cases g)
    case 0
    then show ?thesis using Suc.prems by simp
  next
    case g: (Suc g')
    have IH: "write_loop E wbuf f (num - write_len num off) = (write_loop E wbuf g' (num - write_len num off) :: _ \<Rightarrow> _ \<Rightarrow> _ \<Rightarrow> _ \<Rightarrow> _ \<Rightarrow> _ \<Rightarrow> ('a bfs_handle_scheme, _) comp)" if "0 < num"
      using write_len_bounds[OF that, of off] Suc.prems g by (intro ext Suc.IH; linarith)
    show ?thesis unfolding g write_loop.simps Let_def using IH by (simp cong: if_cong)
  qed
qed

section \<open>The bytes of a file\<close>

lemma length_concat_const: "\<forall>x \<in> set bl. length x = B \<Longrightarrow> length (concat bl) = length bl * B"
  by (induction bl) simp_all

lemma concat_split:
  assumes "\<forall>x \<in> set bl. length x = B" "q < length bl"
  shows "concat bl = concat (take q bl) @ bl ! q @ concat (drop (Suc q) bl)" "length (concat (take q bl)) = q * B"
proof -
  show "concat bl = concat (take q bl) @ bl ! q @ concat (drop (Suc q) bl)"
    using id_take_nth_drop[OF assms(2)] by (metis concat.simps(2) concat_append)
  have "\<forall>x \<in> set (take q bl). length x = B" using assms(1) in_set_takeD by fast
  then show "length (concat (take q bl)) = q * B" using length_concat_const[of "take q bl" B] assms(2) by simp
qed

lemma chunk_concat:
  assumes "\<forall>x \<in> set bl. length x = B" "q < length bl" "pos + n \<le> B"
  shows "chunk (q * B + pos) n (concat bl) = chunk pos n (bl ! q)"
  unfolding concat_split(1)[OF assms(1,2)] using concat_split(2)[OF assms(1,2)] assms by (simp add: chunk_def)

lemma blit_concat:
  assumes "\<forall>x \<in> set bl. length x = B" "q < length bl" "pos + length y \<le> B"
  shows "concat (bl[q := blit pos y (bl ! q)]) = blit (q * B + pos) y (concat bl)"
proof -
  have l: "length (blit pos y (bl ! q)) = B" using assms by simp
  have a: "\<forall>x \<in> set (bl[q := blit pos y (bl ! q)]). length x = B"
    using assms(1) l set_update_subset_insert[of bl q] by blast
  have "concat (bl[q := blit pos y (bl ! q)]) = concat (take q bl) @ blit pos y (bl ! q) @ concat (drop (Suc q) bl)"
    using concat_split(1)[OF a, of q] assms(2) by simp
  moreover have "drop (q * B + (pos + length y)) (concat (take q bl) @ bl ! q @ concat (drop (Suc q) bl))
      = drop (pos + length y) (bl ! q) @ concat (drop (Suc q) bl)"
    using concat_split(2)[OF assms(1,2)] assms by simp
  ultimately show ?thesis
    using concat_split[OF assms(1,2)] assms by (simp add: blit_def add.assoc)
qed

text \<open>A file that has all its blocks: the inode, and the numbers in its indirect block.\<close>

definition file_blks :: "inode \<Rightarrow> indirect \<Rightarrow> nat list" where
  "file_blks i locs = take NUM_DIRECT_BLOCKS (i_blks i) @ locs"

definition file_laid :: "bfs_env \<Rightarrow> ckey \<Rightarrow> 'z bfs_handle_scheme \<Rightarrow> inode \<Rightarrow> indirect \<Rightarrow> bool" where
  "file_laid E k s i locs \<longleftrightarrow> inode_wf i \<and> ib_wf locs \<and>
     ib_deserialize 0 (plain E k s (i_blks i ! NUM_DIRECT_BLOCKS)) = Inr (locs, BLK_SZ) \<and>
     distinct (i_blks i ! NUM_DIRECT_BLOCKS # file_blks i locs) \<and>
     set (i_blks i ! NUM_DIRECT_BLOCKS # file_blks i locs) \<subseteq> data_ids (vbc s) \<inter> {DATA_REL_START_BLK_NUM (maxBlockID (vbc s))..}"

definition fdata :: "bfs_env \<Rightarrow> ckey \<Rightarrow> 'z bfs_handle_scheme \<Rightarrow> nat list \<Rightarrow> byte list" where
  "fdata E k s bl = concat (map (plain E k s) bl)"

abbreviation MAX_FILE_SIZE :: nat where
  "MAX_FILE_SIZE \<equiv> 524 * BLK_SZ"

lemma file_laid_simps:
  assumes "file_laid E k s i locs"
  shows "length (i_blks i) = 13" "length locs = 512" "length (file_blks i locs) = 524"
    "q < 12 \<Longrightarrow> file_blks i locs ! q = i_blks i ! q" "12 \<le> q \<Longrightarrow> file_blks i locs ! q = locs ! (q - 12)"
  using assms by (simp_all add: file_laid_def inode_wf_def ib_wf_def file_blks_def layout_vals NUM_DIRECT_BLOCKS_def nth_append)

lemma file_laid_in:
  assumes "file_laid E k s i locs"
  shows "q < 524 \<Longrightarrow> file_blks i locs ! q \<in> data_ids (vbc s) \<and> \<not> file_blks i locs ! q < DATA_REL_START_BLK_NUM (maxBlockID (vbc s))"
    "i_blks i ! 12 \<in> data_ids (vbc s) \<and> \<not> i_blks i ! 12 < DATA_REL_START_BLK_NUM (maxBlockID (vbc s))"
proof -
  have "set (i_blks i ! 12 # file_blks i locs) \<subseteq> data_ids (vbc s) \<inter> {DATA_REL_START_BLK_NUM (maxBlockID (vbc s))..}"
    using assms by (simp add: file_laid_def NUM_DIRECT_BLOCKS_def)
  then have sub: "set (file_blks i locs) \<subseteq> data_ids (vbc s) \<inter> {DATA_REL_START_BLK_NUM (maxBlockID (vbc s))..}"
    "i_blks i ! 12 \<in> data_ids (vbc s) \<inter> {DATA_REL_START_BLK_NUM (maxBlockID (vbc s))..}" by auto
  show "file_blks i locs ! q \<in> data_ids (vbc s) \<and> \<not> file_blks i locs ! q < DATA_REL_START_BLK_NUM (maxBlockID (vbc s))" if "q < 524"
    using subsetD[OF sub(1) nth_mem] that file_laid_simps(3)[OF assms] by (simp add: not_less)
  show "i_blks i ! 12 \<in> data_ids (vbc s) \<and> \<not> i_blks i ! 12 < DATA_REL_START_BLK_NUM (maxBlockID (vbc s))"
    using sub(2) by (simp add: not_less)
qed

lemma same_view_ids: "same_view E k s t \<Longrightarrow> data_ids (vbc t) = data_ids (vbc s)"
  using same_view_fields data_ids_cong by blast

lemma same_view_plain: "same_view E k s t \<Longrightarrow> v \<in> data_ids (vbc s) \<Longrightarrow> plain E k t v = plain E k s v"
  by (simp add: same_view_def)

lemma file_laid_cong:
  assumes "file_laid E k s i locs" "maxBlockID (vbc t) = maxBlockID (vbc s)" "plain E k t (i_blks i ! 12) = plain E k s (i_blks i ! 12)"
  shows "file_laid E k t i locs"
  using assms data_ids_cong[OF assms(2)] by (simp add: file_laid_def NUM_DIRECT_BLOCKS_def)

lemma file_laid_view:
  assumes "same_view E k s t" "file_laid E k s i locs"
  shows "file_laid E k t i locs"
  by (rule file_laid_cong[OF assms(2)])
    (use same_view_fields[OF assms(1)] same_view_plain[OF assms(1)] file_laid_in(2)[OF assms(2)] in simp_all)

lemma fdata_cong: "\<forall>v \<in> set bl. plain E k t v = plain E k s v \<Longrightarrow> fdata E k t bl = fdata E k s bl"
  by (simp add: fdata_def cong: map_cong)

lemma fdata_view: "same_view E k s t \<Longrightarrow> file_laid E k s i locs \<Longrightarrow> fdata E k t (file_blks i locs) = fdata E k s (file_blks i locs)"
  by (rule fdata_cong) (auto simp: same_view_def file_laid_def)

lemma file_blk_lengths:
  assumes "store_ok E k s" "file_laid E k s i locs"
  shows "\<forall>x \<in> set (map (plain E k s) (file_blks i locs)). length x = BLK_SZ"
    "length (fdata E k s (file_blks i locs)) = MAX_FILE_SIZE"
proof -
  show 1: "\<forall>x \<in> set (map (plain E k s) (file_blks i locs)). length x = BLK_SZ"
    using plain_length[OF assms(1)] assms(2) by (auto simp: file_laid_def)
  show "length (fdata E k s (file_blks i locs)) = MAX_FILE_SIZE"
    using length_concat_const[OF 1] file_laid_simps(3)[OF assms(2)] by (simp add: fdata_def)
qed

lemma read_blk_view:
  assumes "store_ok E k s" "v \<in> data_ids (vbc s)"
  shows "\<exists>t. read_blk E v s = (Inr (plain E k s v), t) \<and> same_view E k s t"
  using store_read[OF assms] assms(1) unfolding same_view_def by blast

section \<open>Runs of the loops\<close>

text \<open>The loop variables when the next byte lies in block \<^verbatim>\<open>q\<close> of the file.\<close>

definition at_pos :: "indirect \<Rightarrow> nat \<Rightarrow> nat \<Rightarrow> indirect option \<Rightarrow> nat \<Rightarrow> bool" where
  "at_pos locs q idx ib iidx \<longleftrightarrow> ib = None \<and> idx = q \<or> ib = Some locs \<and> 12 \<le> idx \<and> iidx + 12 = q"

lemma direct_blocks [simp]: "NUM_DIRECT_BLOCKS = 12"
  by (simp add: NUM_DIRECT_BLOCKS_def)

lemma ib_read_run:
  assumes ok: "store_ok E k s" and laid: "file_laid E k s i locs"
  shows "\<exists>t. read_blk E (i_blks i ! 12) s = (Inr (plain E k s (i_blks i ! 12)), t) \<and> same_view E k s t \<and>
    ib_deserialize 0 (plain E k s (i_blks i ! 12)) = Inr (locs, BLK_SZ)"
  using read_blk_view[OF ok, of "i_blks i ! 12"] file_laid_in(2)[OF laid] laid by (simp add: file_laid_def)

lemma read_pos_ok:
  assumes ok: "store_ok E k s" and laid: "file_laid E k s i locs" and q: "off div BLK_SZ < 524" "at_pos locs (off div BLK_SZ) idx ib iidx"
  shows "\<exists>t idx1 ib1 iidx1. read_pos E i off idx ib iidx s = (Inr (FP_blk (file_blks i locs ! (off div BLK_SZ)) idx1 ib1 iidx1), t) \<and>
    same_view E k s t \<and> at_pos locs (Suc (off div BLK_SZ)) idx1 ib1 iidx1"
proof -
  let ?q = "off div BLK_SZ"
  note fs = file_laid_simps[OF laid] and blk = file_laid_in(1)[OF laid q(1)] and ds = data_start_run[OF ok]
  consider (dir) "ib = None" "idx = ?q" "?q < 12" | (new) "ib = None" "idx = ?q" "12 \<le> ?q" | (old) "ib = Some locs" "12 \<le> idx" "iidx + 12 = ?q"
    using q(2) unfolding at_pos_def by (metis not_less)
  then show ?thesis
  proof cases
    case dir
    then show ?thesis
      using fs blk ds same_view_refl[OF ok] by (simp add: read_pos_def at_blk_def comp_simps at_pos_def)
  next
    case new
    obtain t where t: "read_blk E (i_blks i ! 12) s = (Inr (plain E k s (i_blks i ! 12)), t)" "same_view E k s t"
        "ib_deserialize 0 (plain E k s (i_blks i ! 12)) = Inr (locs, BLK_SZ)" using ib_read_run[OF ok laid] by blast
    have "12 * BLK_SZ \<le> ?q * BLK_SZ" using new(3) by (rule mult_le_mono1)
    also have "?q * BLK_SZ \<le> off" by simp
    finally have "\<not> off < BLK_SZ * 12" by (simp add: mult.commute)
    then show ?thesis
      using new fs blk ds t q(1) by (simp add: read_pos_def at_blk_def comp_simps at_pos_def not_less)
  next
    case old
    then have "iidx = ?q - 12" "12 \<le> ?q" by auto
    then show ?thesis
      using old fs blk ds q(1) same_view_refl[OF ok] by (simp add: read_pos_def comp_simps at_pos_def)
  qed
qed


lemma blk_end: "off + (BLK_SZ - off mod BLK_SZ) = Suc (off div BLK_SZ) * BLK_SZ"
proof -
  have "off = off div BLK_SZ * BLK_SZ + off mod BLK_SZ" by simp
  moreover have "off mod BLK_SZ + (BLK_SZ - off mod BLK_SZ) = BLK_SZ" by (simp add: BLK_SZ_def)
  ultimately show ?thesis by (metis add.assoc add.commute mult_Suc)
qed

lemma next_blk: "n = BLK_SZ - off mod BLK_SZ \<Longrightarrow> (off + n) div BLK_SZ = Suc (off div BLK_SZ)"
  by (simp only: blk_end) (simp add: BLK_SZ_def)

lemma off_blk: "off < MAX_FILE_SIZE \<Longrightarrow> off div BLK_SZ < 524"
  by (simp add: less_mult_imp_div_less)

lemma read_len_eq:
  assumes "off < i_size i" "i_size i \<le> MAX_FILE_SIZE"
  shows "read_len i num off = min (min num (BLK_SZ - off mod BLK_SZ)) (i_size i - off)"
proof -
  let ?m = "if num < BLK_SZ - off mod BLK_SZ then num else BLK_SZ - off mod BLK_SZ"
  have "?m \<le> BLK_SZ" by auto
  then have "off + ?m < 2 ^ 64" using assms by (simp add: BLK_SZ_def)
  then have "u64 (off + ?m) = off + ?m" by (rule u64_id)
  then show ?thesis using assms(1) unfolding read_len_def Let_def by (simp add: min_def) linarith
qed

lemma mem_set_ok: "off + length src \<le> length buf \<Longrightarrow> mem_set off src buf = Inr (blit off src buf)"
  by (simp add: mem_set_def)

lemma read_loop_ok:
  assumes "store_ok E k s" "file_laid E k s i locs" "i_size i \<le> MAX_FILE_SIZE" "off \<le> i_size i" "num \<le> length buf" "num \<le> fuel"
    "0 < num \<and> off < i_size i \<longrightarrow> at_pos locs (off div BLK_SZ) idx ib iidx"
  shows "\<exists>t. read_loop E i (length buf) fuel num off idx ib iidx buf s =
      (Inr (False, num - min num (i_size i - off), off + min num (i_size i - off),
        blit (length buf - num) (chunk off (min num (i_size i - off)) (fdata E k s (file_blks i locs))) buf), t) \<and> same_view E k s t"
  using assms
proof (induction fuel arbitrary: s num off idx ib iidx buf)
  case 0
  then show ?case using same_view_refl[OF 0(1)] by (simp add: retE_def blit_def chunk_def)
next
  case (Suc fuel)
  let ?D = "fdata E k s (file_blks i locs)" and ?m = "min num (i_size i - off)"
  show ?case
  proof (cases "0 < num \<and> off < i_size i")
    case False
    then have "?m = 0" by auto
    then show ?thesis using False same_view_refl[OF Suc.prems(1)] by (auto simp: retE_def blit_def chunk_def)
  next
    case True
    let ?n = "read_len i num off" and ?q = "off div BLK_SZ" and ?pos = "off mod BLK_SZ"
    have n: "?n = min (min num (BLK_SZ - ?pos)) (i_size i - off)" by (rule read_len_eq) (use True Suc.prems(3) in auto)
    have pos: "?pos < BLK_SZ" by (simp add: BLK_SZ_def)
    have q: "?q < 524" using True Suc.prems(3) by (intro off_blk) simp
    obtain t idx1 ib1 iidx1 where p: "read_pos E i off idx ib iidx s = (Inr (FP_blk (file_blks i locs ! ?q) idx1 ib1 iidx1), t)"
        "same_view E k s t" "at_pos locs (Suc ?q) idx1 ib1 iidx1"
      using read_pos_ok[OF Suc.prems(1,2) q] Suc.prems(7) True by blast
    note t = same_view_store(2)[OF p(2)] file_laid_view[OF p(2) Suc.prems(2)]
    let ?v = "file_blks i locs ! ?q"
    obtain u where u: "read_blk E ?v t = (Inr (plain E k t ?v), u)" "same_view E k t u"
      using read_blk_view[OF t(1)] file_laid_in(1)[OF t(2) q] by blast
    have su: "same_view E k s u" by (rule same_view_trans[OF p(2) u(2)])
    note ul = same_view_store(2)[OF su] file_laid_view[OF su Suc.prems(2)] fdata_view[OF su Suc.prems(2)]
    have len: "length ?D = MAX_FILE_SIZE" by (rule file_blk_lengths(2)[OF Suc.prems(1,2)])
    have nn: "?n \<le> num" "?pos + ?n \<le> BLK_SZ" "off + ?n \<le> i_size i" "0 < ?n" using n pos True by auto
    have "plain E k t ?v = map (plain E k s) (file_blks i locs) ! ?q"
      using same_view_plain[OF p(2)] file_laid_in(1)[OF Suc.prems(2) q] file_laid_simps(3)[OF Suc.prems(2)] q by simp
    then have c: "chunk ?pos ?n (plain E k t ?v) = chunk off ?n ?D"
      using chunk_concat[OF file_blk_lengths(1)[OF Suc.prems(1,2)], of ?q ?pos ?n] file_laid_simps(3)[OF Suc.prems(2)] q nn(2)
      by (simp add: fdata_def)
    have cl: "length (chunk off ?n ?D) = ?n" using len nn(3) Suc.prems(3) by simp
    let ?buf1 = "blit (length buf - num) (chunk off ?n ?D) buf"
    have ms: "mem_set (length buf - num) (chunk ?pos ?n (plain E k t ?v)) buf = Inr ?buf1" "length ?buf1 = length buf"
      using c cl nn(1) Suc.prems(5) by (simp_all add: mem_set_ok)
    have off1: "u64 (off + ?n) = off + ?n" using nn(3) Suc.prems(3) by (simp add: BLK_SZ_def)
    let ?num1 = "num - ?n" and ?m1 = "min (num - ?n) (i_size i - (off + ?n))"
    have "\<exists>w. read_loop E i (length ?buf1) fuel ?num1 (off + ?n) idx1 ib1 iidx1 ?buf1 u =
      (Inr (False, ?num1 - ?m1, off + ?n + ?m1, blit (length ?buf1 - ?num1) (chunk (off + ?n) ?m1 (fdata E k u (file_blks i locs))) ?buf1), w) \<and> same_view E k u w"
    proof (rule Suc.IH[OF ul(1,2) Suc.prems(3) nn(3)])
      show "?num1 \<le> length ?buf1" "?num1 \<le> fuel" using ms(2) Suc.prems(5,6) nn(4) by auto
      show "0 < ?num1 \<and> off + ?n < i_size i \<longrightarrow> at_pos locs ((off + ?n) div BLK_SZ) idx1 ib1 iidx1"
      proof
        assume "0 < ?num1 \<and> off + ?n < i_size i"
        then have "?n = BLK_SZ - ?pos" unfolding n min_def by (simp split: if_splits)
        then show "at_pos locs ((off + ?n) div BLK_SZ) idx1 ib1 iidx1" using p(3) next_blk[of ?n off] by simp
      qed
    qed
    then obtain w where w: "read_loop E i (length buf) fuel ?num1 (off + ?n) idx1 ib1 iidx1 ?buf1 u =
      (Inr (False, ?num1 - ?m1, off + ?n + ?m1, blit (length buf - ?num1) (chunk (off + ?n) ?m1 ?D) ?buf1), w)" "same_view E k u w"
      using ms(2) ul(3) by auto
    have m: "?m = ?n + ?m1" using nn(1,3) by (simp add: min_def) linarith
    have "length buf - ?num1 = length buf - num + ?n" using nn(1) Suc.prems(5) by simp
    then have "blit (length buf - ?num1) (chunk (off + ?n) ?m1 ?D) ?buf1 = blit (length buf - num) (chunk off ?n ?D @ chunk (off + ?n) ?m1 ?D) buf"
      using blit_blit[of "length buf - num" "chunk off ?n ?D" "chunk (off + ?n) ?m1 ?D" buf] cl nn Suc.prems(3,5) len by simp
    also have "\<dots> = blit (length buf - num) (chunk off ?m ?D) buf" by (simp add: m chunk_add)
    finally have b: "blit (length buf - ?num1) (chunk (off + ?n) ?m1 ?D) ?buf1 = blit (length buf - num) (chunk off ?m ?D) buf" .
    have "read_loop E i (length buf) (Suc fuel) num off idx ib iidx buf s =
        (Inr (False, num - ?m, off + ?m, blit (length buf - num) (chunk off ?m ?D) buf), w)"
      using True p(1) u(1) ms(1) off1 w(1) b m by (simp add: comp_simps Let_def)
    then show ?thesis using same_view_trans[OF su w(2)] by blast
  qed
qed

text \<open>What changes at most are the given blocks.\<close>

definition only_blks :: "bfs_env \<Rightarrow> ckey \<Rightarrow> nat set \<Rightarrow> 'z bfs_handle_scheme \<Rightarrow> 'z bfs_handle_scheme \<Rightarrow> bool" where
  "only_blks E k B s t \<longleftrightarrow> store_ok E k s \<and> store_ok E k t \<and> maxBlockID (vbc t) = maxBlockID (vbc s) \<and>
     core_blk.more t = core_blk.more s \<and> (\<forall>u \<in> data_ids (vbc s). u \<notin> B \<longrightarrow> plain E k t u = plain E k s u)"

lemma only_blks_trans: "only_blks E k B s t \<Longrightarrow> only_blks E k B t u \<Longrightarrow> only_blks E k B s u"
  using data_ids_cong[of "vbc t" "vbc s"] by (auto simp: only_blks_def)

lemma only_blks_view: "same_view E k s t \<Longrightarrow> only_blks E k B s t"
  by (simp add: same_view_def only_blks_def)

lemma only_blks_ids: "only_blks E k B s t \<Longrightarrow> data_ids (vbc t) = data_ids (vbc s)"
  using data_ids_cong[of "vbc t" "vbc s"] by (simp add: only_blks_def)

lemma file_laid_only:
  assumes "only_blks E k (set (file_blks i locs)) s t" "file_laid E k s i locs"
  shows "file_laid E k t i locs"
proof (rule file_laid_cong[OF assms(2)])
  have "i_blks i ! 12 \<notin> set (file_blks i locs)" using assms(2) by (simp add: file_laid_def)
  then show "plain E k t (i_blks i ! 12) = plain E k s (i_blks i ! 12)"
    using assms(1) file_laid_in(2)[OF assms(2)] by (simp add: only_blks_def)
qed (use assms(1) in \<open>simp add: only_blks_def\<close>)

lemma write_pos_ok:
  assumes ok: "store_ok E k s" and laid: "file_laid E k s i locs" and q: "q < 524" "at_pos locs q idx ib iidx"
  shows "\<exists>t idx1 ib1 iidx1. write_pos E i idx ib iidx usedn s = (Inr (Some (file_blks i locs ! q, False, usedn, i, idx1, ib1, iidx1)), t) \<and>
    same_view E k s t \<and> at_pos locs (Suc q) idx1 ib1 iidx1"
proof -
  note fs = file_laid_simps[OF laid] and blk = file_laid_in(1)[OF laid q(1)] and ds = data_start_run[OF ok]
  consider (dir) "ib = None" "idx = q" "q < 12" | (new) "ib = None" "idx = q" "12 \<le> q" | (old) "ib = Some locs" "12 \<le> idx" "iidx + 12 = q"
    using q(2) unfolding at_pos_def by (metis not_less)
  then show ?thesis
  proof cases
    case dir
    then show ?thesis
      using fs blk ds same_view_refl[OF ok] by (simp add: write_pos_def at_blk_def comp_simps at_pos_def)
  next
    case new
    obtain t where t: "read_blk E (i_blks i ! 12) s = (Inr (plain E k s (i_blks i ! 12)), t)" "same_view E k s t"
        "ib_deserialize 0 (plain E k s (i_blks i ! 12)) = Inr (locs, BLK_SZ)" using ib_read_run[OF ok laid] by blast
    then show ?thesis
      using new fs blk ds q(1) file_laid_in(2)[OF laid] by (simp add: write_pos_def at_blk_def comp_simps at_pos_def)
  next
    case old
    then have "iidx = q - 12" "12 \<le> q" by auto
    then show ?thesis
      using old fs blk ds q(1) same_view_refl[OF ok] by (simp add: write_pos_def comp_simps at_pos_def)
  qed
qed

lemma write_pos_full:
  assumes ok: "store_ok E k s" and laid: "file_laid E k s i locs" and q: "524 \<le> q" "at_pos locs q idx ib iidx"
  shows "\<exists>t. write_pos E i idx ib iidx usedn s = (Inr None, t) \<and> same_view E k s t"
proof -
  note fs = file_laid_simps[OF laid] and ds = data_start_run[OF ok]
  obtain t where t: "read_blk E (i_blks i ! 12) s = (Inr (plain E k s (i_blks i ! 12)), t)" "same_view E k s t"
      "ib_deserialize 0 (plain E k s (i_blks i ! 12)) = Inr (locs, BLK_SZ)" using ib_read_run[OF ok laid] by blast
  show ?thesis
  proof (cases ib)
    case None
    then have "\<not> idx < 12" "length locs \<le> idx - 12" using q fs(2) by (auto simp: at_pos_def)
    then show ?thesis
      using None t fs(1) ds file_laid_in(2)[OF laid] by (simp add: write_pos_def at_blk_def comp_simps)
  next
    case (Some l)
    then have "l = locs" "\<not> idx < 12" "length locs \<le> iidx" using q fs(2) by (auto simp: at_pos_def)
    then show ?thesis
      using Some ds same_view_refl[OF ok] by (simp add: write_pos_def comp_simps)
  qed
qed

lemma map_one_changed:
  assumes "distinct bl" "q < length bl" "\<And>u. u \<in> set bl \<Longrightarrow> g u = (if u = bl ! q then x else f u)"
  shows "map g bl = (map f bl)[q := x]"
  by (rule nth_equalityI) (use assms in \<open>auto simp: nth_list_update nth_eq_iff_index_eq\<close>)

text \<open>Writing a piece into one block of the file.\<close>

lemma write_piece:
  assumes ok: "store_ok E k s" and laid: "file_laid E k s i locs" and q: "q < 524" and y: "pos + length y \<le> BLK_SZ"
    and x: "x = blit pos y (plain E k s (file_blks i locs ! q))"
  shows "\<exists>ct t. write_blk E (file_blks i locs ! q) x True s = (Inr ct, t) \<and> only_blks E k (set (file_blks i locs)) s t \<and>
    fdata E k t (file_blks i locs) = blit (q * BLK_SZ + pos) y (fdata E k s (file_blks i locs))"
proof -
  let ?bl = "file_blks i locs"
  have v: "?bl ! q \<in> data_ids (vbc s)" using file_laid_in(1)[OF laid q] by blast
  have len: "length ?bl = 524" by (rule file_laid_simps(3)[OF laid])
  have lx: "length x = BLK_SZ" using plain_length[OF ok v] y by (simp add: x)
  obtain ct t where t: "write_blk E (?bl ! q) x True s = (Inr ct, t)" "store_ok E k t" "data_ids (vbc t) = data_ids (vbc s)"
      "\<forall>u \<in> data_ids (vbc s). plain E k t u = (if u = ?bl ! q then x else plain E k s u)"
      "core_blk.more t = core_blk.more s" "maxBlockID (vbc t) = maxBlockID (vbc s)"
    using store_write[OF ok v lx, of True] by blast
  have mem: "?bl ! q \<in> set ?bl" using q len by simp
  have o: "only_blks E k (set ?bl) s t"
    unfolding only_blks_def
  proof (intro conjI ballI impI)
    fix u assume "u \<in> data_ids (vbc s)" "u \<notin> set ?bl"
    then show "plain E k t u = plain E k s u" using bspec[OF t(4), of u] mem by (simp split: if_splits)
  qed (rule ok t(2,5,6))+
  have sub: "set ?bl \<subseteq> data_ids (vbc s)" "distinct ?bl" using laid by (auto simp: file_laid_def)
  have "map (plain E k t) ?bl = (map (plain E k s) ?bl)[q := x]"
    by (rule map_one_changed[OF sub(2)]) (use sub(1) t(4) q len in \<open>simp_all add: subset_iff\<close>)
  moreover have "x = blit pos y (map (plain E k s) ?bl ! q)" using x q len by simp
  ultimately have "fdata E k t ?bl = concat ((map (plain E k s) ?bl)[q := blit pos y (map (plain E k s) ?bl ! q)])"
    unfolding fdata_def by (simp only:)
  also have "\<dots> = blit (q * BLK_SZ + pos) y (fdata E k s ?bl)"
    unfolding fdata_def by (rule blit_concat[OF file_blk_lengths(1)[OF ok laid]]) (use q len y in simp_all)
  finally have "fdata E k t ?bl = blit (q * BLK_SZ + pos) y (fdata E k s ?bl)" .
  then show ?thesis using t(1) o by blast
qed


lemma write_len_eq: "write_len num off = min num (BLK_SZ - off mod BLK_SZ)"
  by (simp add: write_len_def min_def)

text \<open>One turn of the loop.\<close>

lemma write_turn:
  assumes ok: "store_ok E k s" and laid: "file_laid E k s i locs" and off: "off < MAX_FILE_SIZE" "at_pos locs (off div BLK_SZ) idx ib iidx"
    and num: "0 < num" "num \<le> length wbuf" and n: "n = write_len num off"
  shows "\<exists>t idx1 ib1 iidx1. (\<forall>fuel. write_loop E wbuf (Suc fuel) num i off idx ib iidx usedn s
      = write_loop E wbuf fuel (num - n) i (off + n) idx1 ib1 iidx1 usedn t) \<and>
    only_blks E k (set (file_blks i locs)) s t \<and> at_pos locs (Suc (off div BLK_SZ)) idx1 ib1 iidx1 \<and>
    fdata E k t (file_blks i locs) = blit off (chunk (length wbuf - num) n wbuf) (fdata E k s (file_blks i locs))"
proof -
  let ?q = "off div BLK_SZ" and ?pos = "off mod BLK_SZ" and ?bl = "file_blks i locs" and ?y = "chunk (length wbuf - num) n wbuf"
  have pos: "?pos < BLK_SZ" by (simp add: BLK_SZ_def)
  have q: "?q < 524" by (rule off_blk[OF off(1)])
  obtain s1 idx1 ib1 iidx1 where p: "write_pos E i idx ib iidx usedn s = (Inr (Some (?bl ! ?q, False, usedn, i, idx1, ib1, iidx1)), s1)"
      "same_view E k s s1" "at_pos locs (Suc ?q) idx1 ib1 iidx1"
    using write_pos_ok[OF ok laid q off(2)] by blast
  note s1 = same_view_store(2)[OF p(2)] file_laid_view[OF p(2) laid]
  have v: "?bl ! ?q \<in> data_ids (vbc s1)" using file_laid_in(1)[OF s1(2) q] by blast
  have ly: "length ?y = n" "?pos + n \<le> BLK_SZ" using num pos by (simp_all add: n write_len_eq)
  have "\<exists>b s2. (if n < BLK_SZ then read_blk E (?bl ! ?q) else retE (replicate BLK_SZ 0)) s1 = (Inr b, s2) \<and> same_view E k s1 s2 \<and>
      length b = BLK_SZ \<and> blit ?pos ?y b = blit ?pos ?y (plain E k s1 (?bl ! ?q))"
  proof (cases "n < BLK_SZ")
    case True
    then show ?thesis using read_blk_view[OF s1(1) v] plain_length[OF s1(1) v] by auto
  next
    case False
    then have z: "?pos = 0" "length ?y = BLK_SZ" using ly by auto
    have "blit 0 ?y b = ?y" if "length b = BLK_SZ" for b using z(2) that by (intro blit_all) simp
    then show ?thesis using False z(1) plain_length[OF s1(1) v] same_view_refl[OF s1(1)] by (simp add: retE_def)
  qed
  then obtain b s2 where b: "(if n < BLK_SZ then read_blk E (?bl ! ?q) else retE (replicate BLK_SZ 0)) s1 = (Inr b, s2)" "same_view E k s1 s2"
      "length b = BLK_SZ" "blit ?pos ?y b = blit ?pos ?y (plain E k s1 (?bl ! ?q))" by blast
  have ss2: "same_view E k s s2" by (rule same_view_trans[OF p(2) b(2)])
  note s2 = same_view_store(2)[OF ss2] file_laid_view[OF ss2 laid] fdata_view[OF ss2 laid]
  have x: "blit ?pos ?y b = blit ?pos ?y (plain E k s2 (?bl ! ?q))" using b(4) same_view_plain[OF b(2) v] by simp
  obtain ct t where t: "write_blk E (?bl ! ?q) (blit ?pos ?y b) True s2 = (Inr ct, t)" "only_blks E k (set ?bl) s2 t"
      "fdata E k t ?bl = blit (?q * BLK_SZ + ?pos) ?y (fdata E k s2 ?bl)"
    using write_piece[OF s2(1,2) q _ x] ly by auto
  have off1: "u64 (off + n) = off + n" using off(1) ly(2) by (simp add: BLK_SZ_def)
  have ms: "mem_set ?pos ?y b = Inr (blit ?pos ?y b)" using ly b(3) by (simp add: mem_set_ok)
  have "\<forall>fuel. write_loop E wbuf (Suc fuel) num i off idx ib iidx usedn s = write_loop E wbuf fuel (num - n) i (off + n) idx1 ib1 iidx1 usedn t"
    using num(1) p(1) b(1) ms t(1) off1 by (simp add: comp_simps Let_def n[symmetric])
  moreover have "?q * BLK_SZ + ?pos = off" by simp
  ultimately show ?thesis using p(3) t(2,3) s2(3) only_blks_trans[OF only_blks_view[OF ss2] t(2)] by metis
qed

text \<open>Two pieces in a row.\<close>

lemma blit_pieces:
  assumes "num \<le> length w" "n + m \<le> num" "off + (n + m) \<le> length b"
  shows "blit (off + n) (chunk (length w - (num - n)) m w) (blit off (chunk (length w - num) n w) b)
    = blit off (chunk (length w - num) (n + m) w) b"
proof -
  have "length w - (num - n) = length w - num + n" using assms by simp
  then have "chunk (length w - num) (n + m) w = chunk (length w - num) n w @ chunk (length w - (num - n)) m w"
    by (simp add: chunk_add)
  then show ?thesis
    using blit_blit[of off "chunk (length w - num) n w" "chunk (length w - (num - n)) m w" b] assms by simp
qed

text \<open>The loop writes what fits into the largest file.\<close>

lemma write_loop_ok:
  assumes "store_ok E k s" "file_laid E k s i locs" "off \<le> MAX_FILE_SIZE" "num \<le> length wbuf" "num \<le> fuel"
    "0 < num \<longrightarrow> at_pos locs (off div BLK_SZ) idx ib iidx"
  shows "\<exists>t. write_loop E wbuf fuel num i off idx ib iidx usedn s =
      (Inr (MAX_FILE_SIZE - off < num, num - min num (MAX_FILE_SIZE - off), i, off + min num (MAX_FILE_SIZE - off), usedn), t) \<and>
    only_blks E k (set (file_blks i locs)) s t \<and>
    fdata E k t (file_blks i locs) = blit off (chunk (length wbuf - num) (min num (MAX_FILE_SIZE - off)) wbuf) (fdata E k s (file_blks i locs))"
  using assms
proof (induction fuel arbitrary: s num off idx ib iidx)
  case 0
  then show ?case using only_blks_view[OF same_view_refl[OF 0(1)]] by (simp add: retE_def blit_def chunk_def)
next
  case (Suc fuel)
  let ?bl = "file_blks i locs" and ?m = "min num (MAX_FILE_SIZE - off)"
  consider (stop) "num = 0" | (full) "0 < num" "off = MAX_FILE_SIZE" | (turn) "0 < num" "off < MAX_FILE_SIZE"
    using Suc.prems(3) by linarith
  then show ?case
  proof cases
    case stop
    then show ?thesis using only_blks_view[OF same_view_refl[OF Suc.prems(1)]] by (simp add: retE_def blit_def chunk_def)
  next
    case full
    then have "524 \<le> off div BLK_SZ" by (simp add: BLK_SZ_def)
    then obtain t where "write_pos E i idx ib iidx usedn s = (Inr None, t)" "same_view E k s t"
      using write_pos_full[OF Suc.prems(1,2)] Suc.prems(6) full(1) by blast
    then show ?thesis
      using full only_blks_view[of E k s t] fdata_view[OF _ Suc.prems(2), of t] by (simp add: comp_simps retE_def blit_def chunk_def)
  next
    case turn
    let ?n = "write_len num off"
    have ap: "at_pos locs (off div BLK_SZ) idx ib iidx" using Suc.prems(6) turn(1) by simp
    obtain t idx1 ib1 iidx1 where t: "\<forall>fuel. write_loop E wbuf (Suc fuel) num i off idx ib iidx usedn s
          = write_loop E wbuf fuel (num - ?n) i (off + ?n) idx1 ib1 iidx1 usedn t"
        "only_blks E k (set ?bl) s t" "at_pos locs (Suc (off div BLK_SZ)) idx1 ib1 iidx1"
        "fdata E k t ?bl = blit off (chunk (length wbuf - num) ?n wbuf) (fdata E k s ?bl)"
      using write_turn[OF Suc.prems(1,2) turn(2) ap turn(1) Suc.prems(4) refl, of usedn] by blast
    have tl: "store_ok E k t" "file_laid E k t i locs" using t(2) file_laid_only[OF t(2) Suc.prems(2)] by (simp_all add: only_blks_def)
    have q1: "Suc (off div BLK_SZ) * BLK_SZ \<le> MAX_FILE_SIZE" using off_blk[OF turn(2)] by (intro mult_le_mono1) simp
    have "?n \<le> BLK_SZ - off mod BLK_SZ" by (simp add: write_len_eq)
    then have "off + ?n \<le> Suc (off div BLK_SZ) * BLK_SZ" using blk_end[of off] by linarith
    then have n: "0 < ?n" "?n \<le> num" "off + ?n \<le> MAX_FILE_SIZE"
      using write_len_bounds[OF turn(1), of off] q1 by linarith+
    have ap1: "0 < num - ?n \<longrightarrow> at_pos locs ((off + ?n) div BLK_SZ) idx1 ib1 iidx1"
    proof
      assume "0 < num - ?n"
      then have "?n = BLK_SZ - off mod BLK_SZ" by (simp add: write_len_eq min_def split: if_splits)
      then show "at_pos locs ((off + ?n) div BLK_SZ) idx1 ib1 iidx1" using t(3) next_blk[of ?n off] by simp
    qed
    let ?m1 = "min (num - ?n) (MAX_FILE_SIZE - (off + ?n))"
    have pre: "num - ?n \<le> length wbuf" "num - ?n \<le> fuel" using Suc.prems(4,5) n(1) by auto
    obtain w where w: "write_loop E wbuf fuel (num - ?n) i (off + ?n) idx1 ib1 iidx1 usedn t =
          (Inr (MAX_FILE_SIZE - (off + ?n) < num - ?n, num - ?n - ?m1, i, off + ?n + ?m1, usedn), w)" "only_blks E k (set ?bl) t w"
        "fdata E k w ?bl = blit (off + ?n) (chunk (length wbuf - (num - ?n)) ?m1 wbuf) (fdata E k t ?bl)"
      using Suc.IH[OF tl n(3) pre ap1] by blast
    have m: "?m = ?n + ?m1" using n(2,3) by (simp add: min_def) linarith
    have mm: "?n + ?m1 \<le> num" "off + (?n + ?m1) \<le> MAX_FILE_SIZE" unfolding m[symmetric] using Suc.prems(3) by auto
    have "fdata E k w ?bl = blit off (chunk (length wbuf - num) ?m wbuf) (fdata E k s ?bl)"
      unfolding w(3) t(4) m
      by (rule blit_pieces) (use mm Suc.prems(4) file_blk_lengths(2)[OF Suc.prems(1,2)] in simp_all)
    moreover have "write_loop E wbuf (Suc fuel) num i off idx ib iidx usedn s
        = (Inr (MAX_FILE_SIZE - off < num, num - ?m, i, off + ?m, usedn), w)"
      using t(1) w(1) m n(2,3) by auto
    ultimately show ?thesis using only_blks_trans[OF t(2) w(2)] by blast
  qed
qed

end
