(* ===== verification/Bfs_ByteFiles.thy ===== *)
theory Bfs_ByteFiles
  imports Bfs_Files
begin

text \<open>
  What the two loops of \<^verbatim>\<open>bfs_read\<close> and \<^verbatim>\<open>bfs_write\<close> amount to: an open file is a byte sequence, a read returns a
  piece of it and a write replaces a piece of it, over encrypted blocks and for any sequence of operations.
\<close>

section \<open>Open files as byte sequences\<close>

text \<open>Writing into a byte sequence: a hole before the new bytes is filled with zeros.\<close>

definition pwrite :: "nat \<Rightarrow> byte list \<Rightarrow> byte list \<Rightarrow> byte list" where
  "pwrite off d f = blit off d (f @ replicate (off + length d - length f) 0)"

lemma take_blit_pwrite:
  assumes "n \<le> length D" "off + length d \<le> length D"
  shows "take (max n (off + length d)) (blit (min n off) (replicate (off - n) 0 @ d) D) = pwrite off d (take n D)"
proof (rule nth_equalityI)
  have w: "min n off + length (replicate (off - n) 0 @ d) = off + length d" by simp
  show "length (take (max n (off + length d)) (blit (min n off) (replicate (off - n) 0 @ d) D)) = length (pwrite off d (take n D))"
    using assms by (simp add: pwrite_def max_def)
  fix j assume "j < length (take (max n (off + length d)) (blit (min n off) (replicate (off - n) 0 @ d) D))"
  then have j: "j < max n (off + length d)" "j < length D" using assms by simp_all
  then show "take (max n (off + length d)) (blit (min n off) (replicate (off - n) 0 @ d) D) ! j = pwrite off d (take n D) ! j"
    using assms w nth_blit[of "min n off" "replicate (off - n) 0 @ d" D j]
      nth_blit[of off d "take n D @ replicate (off + length d - length (take n D)) 0" j]
    by (auto simp: pwrite_def nth_append)
qed

text \<open>The inode of an open file, its blocks and its bytes.\<close>

definition open_ino :: "bfs_env \<Rightarrow> ckey \<Rightarrow> nat \<Rightarrow> 'z bfs_handle_scheme \<Rightarrow> inode option" where
  "open_ino E k fh s = (case map_of (open_file_tab s) fh of
     None \<Rightarrow> None
   | Some f \<Rightarrow> (case inode_at E k s (of_ino f) of Inl _ \<Rightarrow> None | Inr (i, _) \<Rightarrow> if i_no i = of_ino f then Some i else None))"

definition ind_locs :: "bfs_env \<Rightarrow> ckey \<Rightarrow> 'z bfs_handle_scheme \<Rightarrow> inode \<Rightarrow> indirect" where
  "ind_locs E k s i = (case ib_deserialize 0 (plain E k s (i_blks i ! NUM_DIRECT_BLOCKS)) of Inl _ \<Rightarrow> [] | Inr (locs, _) \<Rightarrow> locs)"

definition file_bytes :: "bfs_env \<Rightarrow> ckey \<Rightarrow> nat \<Rightarrow> 'z bfs_handle_scheme \<Rightarrow> byte list" where
  "file_bytes E k fh s = (case open_ino E k fh s of
     None \<Rightarrow> []
   | Some i \<Rightarrow> take (i_size i) (fdata E k s (file_blks i (ind_locs E k s i))))"

text \<open>A regular state of an open file: an accessible inode with all its blocks.\<close>

definition file_ready :: "bfs_env \<Rightarrow> ckey \<Rightarrow> user_ctx option \<Rightarrow> nat \<Rightarrow> 'z bfs_handle_scheme \<Rightarrow> inode \<Rightarrow> indirect \<Rightarrow> bool" where
  "file_ready E k usr fh s i locs \<longleftrightarrow> store_ok E k s \<and> open_ino E k fh s = Some i \<and> ROOT_INO \<le> i_no i \<and> i_no i < NUM_INODES \<and>
     \<not> access_denied (acl_layer s) usr (i_uid i) (i_mode i) \<and> file_laid E k s i locs \<and> i_size i \<le> MAX_FILE_SIZE"

definition file_open :: "bfs_env \<Rightarrow> ckey \<Rightarrow> user_ctx option \<Rightarrow> nat \<Rightarrow> 'z bfs_handle_scheme \<Rightarrow> bool" where
  "file_open E k usr fh s \<longleftrightarrow> (\<exists>i locs. file_ready E k usr fh s i locs)"

lemma file_ready_bytes:
  "file_ready E k usr fh s i locs \<Longrightarrow> file_bytes E k fh s = take (i_size i) (fdata E k s (file_blks i locs))"
  by (simp add: file_ready_def file_bytes_def ind_locs_def file_laid_def)

lemma store_ok_tab [simp]:
  "store_ok E k (s \<lparr> open_file_tab := x \<rparr>) = store_ok E k s" "plain E k (s \<lparr> open_file_tab := x \<rparr>) = plain E k s"
  "inode_at E k (s \<lparr> open_file_tab := x \<rparr>) = inode_at E k s"
  by (simp_all add: store_ok_def mt_agrees_def fs_key_def leaf_base_def plain_def inode_at_def fun_eq_iff)

lemma open_inoD:
  assumes "open_ino E k fh s = Some i"
  shows "\<exists>f len. map_of (open_file_tab s) fh = Some f \<and> inode_at E k s (of_ino f) = Inr (i, len) \<and> of_ino f = i_no i"
proof (cases "map_of (open_file_tab s) fh")
  case None
  then show ?thesis using assms by (simp add: open_ino_def)
next
  case (Some f)
  show ?thesis
  proof (cases "inode_at E k s (of_ino f)")
    case (Inl e)
    then show ?thesis using assms Some by (simp add: open_ino_def)
  next
    case (Inr p)
    then show ?thesis using assms Some by (cases p) (simp add: open_ino_def split: if_splits)
  qed
qed

lemma file_readyD:
  assumes "file_ready E k usr fh s i locs"
  shows "store_ok E k s" "file_laid E k s i locs" "i_size i \<le> MAX_FILE_SIZE" "i_no i < NUM_INODES" "ROOT_INO \<le> i_no i"
    "\<not> access_denied (acl_layer s) usr (i_uid i) (i_mode i)" "open_ino E k fh s = Some i"
  using assms by (simp_all add: file_ready_def)

lemma file_ready_inode:
  assumes "file_ready E k usr fh s i locs"
  shows "inode_at E k s (i_no i) = Inr (i, 168)" "\<exists>f. map_of (open_file_tab s) fh = Some f \<and> of_ino f = i_no i"
proof -
  obtain f len where f: "map_of (open_file_tab s) fh = Some f" "inode_at E k s (of_ino f) = Inr (i, len)" "of_ino f = i_no i"
    using open_inoD[OF file_readyD(7)[OF assms]] by blast
  have "len = 168" by (rule inode_deserialize_shape(2)[OF f(2)[unfolded inode_at_def]])
  then show "inode_at E k s (i_no i) = Inr (i, 168)" "\<exists>f. map_of (open_file_tab s) fh = Some f \<and> of_ino f = i_no i"
    using f by auto
qed

text \<open>What keeps a file ready, possibly with another inode.\<close>

lemma file_ready_keep:
  assumes r: "file_ready E k usr fh s i locs" and ok: "store_ok E k t" and max: "maxBlockID (vbc t) = maxBlockID (vbc s)"
    and acl: "acl_layer t = acl_layer s" and tab: "\<exists>f. map_of (open_file_tab t) fh = Some f \<and> of_ino f = i_no i"
    and ino: "inode_at E k t (i_no i) = Inr (j, 168)" "i_blks j = i_blks i" "i_no j = i_no i" "i_uid j = i_uid i" "i_mode j = i_mode i"
      "i_size j \<le> MAX_FILE_SIZE"
    and ind: "plain E k t (i_blks i ! 12) = plain E k s (i_blks i ! 12)"
  shows "file_ready E k usr fh t j locs"
proof -
  have "inode_wf j" by (rule inode_deserialize_shape(1)[OF ino(1)[unfolded inode_at_def]])
  moreover have "file_laid E k t i locs" by (rule file_laid_cong[OF file_readyD(2)[OF r] max ind])
  ultimately have "file_laid E k t j locs" using ino(2) by (simp add: file_laid_def file_blks_def)
  moreover have "open_ino E k fh t = Some j" using tab ino(1,3) by (auto simp: open_ino_def)
  ultimately show ?thesis using file_readyD[OF r] ok acl ino by (simp add: file_ready_def)
qed

lemma file_ready_view:
  assumes "same_view E k s t" "file_ready E k usr fh s i locs"
  shows "file_ready E k usr fh t i locs"
proof (rule file_ready_keep[OF assms(2)])
  note d = file_readyD[OF assms(2)]
  have "ITAB_ABSOLUTE_BLK_LOC (i_no i) \<in> data_ids (vbc s)" using itab_in_ids d(1,4) by (auto simp: store_ok_def)
  then show "inode_at E k t (i_no i) = Inr (i, 168)" using file_ready_inode(1)[OF assms(2)] same_view_plain[OF assms(1)] by (simp add: inode_at_def)
  show "\<exists>f. map_of (open_file_tab t) fh = Some f \<and> of_ino f = i_no i" using file_ready_inode(2)[OF assms(2)] same_view_fields[OF assms(1)] by simp
  show "plain E k t (i_blks i ! 12) = plain E k s (i_blks i ! 12)" using same_view_plain[OF assms(1)] file_laid_in(2)[OF d(2)] by simp
qed (use same_view_fields[OF assms(1)] same_view_store[OF assms(1)] file_readyD(3)[OF assms(2)] in simp_all)

lemma open_inode_run:
  assumes r: "file_ready E k usr fh s i locs"
  shows "\<exists>t. open_inode E usr fh s = (Inr i, t) \<and> same_view E k s t"
proof -
  note d = file_readyD[OF r]
  obtain f where f: "map_of (open_file_tab s) fh = Some f" "of_ino f = i_no i" using file_ready_inode(2)[OF r] by blast
  have "i_no i \<noteq> NULL_INO" using d(5) by (simp add: ROOT_INO_def NULL_INO_def)
  then have "fst (read_inode E (i_no i) s) = Inr i" using read_inode_ok(1)[OF d(1,4)] file_ready_inode(1)[OF r] by (simp add: layout_vals)
  then obtain t where t: "read_inode E (i_no i) s = (Inr i, t)" by (cases "read_inode E (i_no i) s") simp
  have v: "same_view E k s t" using observerD[OF observer_read_inode same_view_refl[OF d(1)], of "i_no i"] t by simp
  have "acl_layer t = acl_layer s" using same_view_fields[OF v] by simp
  then have "open_inode E usr fh s = (Inr i, t)"
    using f d(5,6) t by (simp add: open_inode_def open_at_def check_access_def comp_simps not_less)
  then show ?thesis using v by blast
qed

lemma of_set_offset_ready:
  assumes "file_ready E k usr fh s i locs"
  shows "\<exists>t. of_set_offset fh off s = (Inr (), t) \<and> file_ready E k usr fh t i locs \<and> plain E k t = plain E k s \<and>
    maxBlockID (vbc t) = maxBlockID (vbc s) \<and> acl_layer t = acl_layer s \<and> (\<forall>h. h \<noteq> fh \<longrightarrow> map_of (open_file_tab t) h = map_of (open_file_tab s) h)"
proof -
  let ?t = "s \<lparr> open_file_tab := map (\<lambda>(h, f). (h, if h = fh then set_offset off f else f)) (open_file_tab s) \<rparr>"
  obtain f where f: "map_of (open_file_tab s) fh = Some f" "of_ino f = i_no i" using file_ready_inode(2)[OF assms] by blast
  have m: "map_of (map (\<lambda>(h, f). (h, if h = fh then set_offset off f else f)) xs) h =
      (if h = fh then map_option (set_offset off) (map_of xs h) else map_of xs h)" for xs h
    by (induction xs) auto
  then have "\<exists>g. map_of (open_file_tab ?t) fh = Some g \<and> of_ino g = i_no i" using f by (simp add: set_offset_def)
  then have "file_ready E k usr fh ?t i locs"
    by (intro file_ready_keep[OF assms]) (use file_readyD[OF assms] file_ready_inode(1)[OF assms] in simp_all)
  then show ?thesis by (intro exI[of _ ?t]) (simp add: of_set_offset_def modE_def m)
qed

text \<open>A read returns the bytes of the file at the offset, as many as the file and the buffer have.\<close>

lemma bfs_read_ok:
  assumes r: "file_ready E k usr fh s i locs"
  shows "\<exists>t. bfs_read E usr fh buf off s = (Inr (length (chunk off (length buf) (file_bytes E k fh s)),
      blit 0 (chunk off (length buf) (file_bytes E k fh s)) buf), t) \<and> file_ready E k usr fh t i locs \<and> file_bytes E k fh t = file_bytes E k fh s"
proof -
  let ?bl = "file_blks i locs" and ?m = "min (length buf) (i_size i - off)"
  note d = file_readyD[OF r]
  have len: "length (fdata E k s ?bl) = MAX_FILE_SIZE" by (rule file_blk_lengths(2)[OF d(1,2)])
  have c: "chunk off (length buf) (file_bytes E k fh s) = chunk off ?m (fdata E k s ?bl)"
    using file_ready_bytes[OF r] by (simp add: chunk_def drop_take min.commute)
  obtain s1 where s1: "open_inode E usr fh s = (Inr i, s1)" "same_view E k s s1" using open_inode_run[OF r] by blast
  show ?thesis
  proof (cases "off > i_size i")
    case True
    then have "bfs_read E usr fh buf off s = (Inr (0, buf), s1)" using s1(1) by (simp add: bfs_read_def comp_simps Let_def)
    moreover have "file_bytes E k fh s1 = file_bytes E k fh s"
      using file_ready_bytes[OF r] file_ready_bytes[OF file_ready_view[OF s1(2) r]] fdata_view[OF s1(2) d(2)] by simp
    moreover have "chunk off (length buf) (file_bytes E k fh s) = []" unfolding c using True by (simp add: chunk_def)
    ultimately show ?thesis using file_ready_view[OF s1(2) r] by (simp add: blit_def)
  next
    case False
    have r1: "file_ready E k usr fh s1 i locs" by (rule file_ready_view[OF s1(2) r])
    note d1 = file_readyD[OF r1]
    have cl: "length (chunk off ?m (fdata E k s ?bl)) = ?m" using len d(3) False by simp
    obtain s2 where s2: "read_loop E i (length buf) (length buf) (length buf) off (off div BLK_SZ) None 0 buf s1 =
        (Inr (False, length buf - ?m, off + ?m, blit 0 (chunk off ?m (fdata E k s ?bl)) buf), s2)" "same_view E k s1 s2"
      using read_loop_ok[OF d1(1-3), of off "length buf" buf "length buf" "off div BLK_SZ" None 0] False fdata_view[OF s1(2) d(2)]
      by (auto simp: at_pos_def)
    have fit: "\<not> i_size i < off + ?m" using False by simp
    have r2: "file_ready E k usr fh s2 i locs" by (rule file_ready_view[OF s2(2) r1])
    obtain t where t: "of_set_offset fh (off + ?m) s2 = (Inr (), t)" "file_ready E k usr fh t i locs" "plain E k t = plain E k s2"
      using of_set_offset_ready[OF r2] by blast
    have "bfs_read E usr fh buf off s = (Inr (length buf - (length buf - ?m), blit 0 (chunk off ?m (fdata E k s ?bl)) buf), t)"
      using s1(1) s2(1) t(1) False fit by (simp add: bfs_read_def comp_simps Let_def)
    moreover have "length buf - (length buf - ?m) = ?m" by simp
    moreover have "file_bytes E k fh t = file_bytes E k fh s"
      using file_ready_bytes[OF r] file_ready_bytes[OF t(2)] fdata_view[OF same_view_trans[OF s1(2) s2(2)] d(2)] t(3) by (simp add: fdata_def)
    ultimately show ?thesis using t(2) c cl by simp
  qed
qed
section \<open>Writing\<close>

lemma itab_outside:
  assumes "file_laid E k s i locs" "ino < NUM_INODES"
  shows "ITAB_ABSOLUTE_BLK_LOC ino \<notin> set (file_blks i locs)" "ITAB_ABSOLUTE_BLK_LOC ino \<noteq> i_blks i ! 12"
proof -
  have "ino div 16 < 6250" using assms(2) by (simp add: NUM_INODES_def less_mult_imp_div_less)
  then have "ITAB_ABSOLUTE_BLK_LOC ino < DATA_REL_START_BLK_NUM (maxBlockID (vbc s))"
    by (simp add: ITAB_ABSOLUTE_BLK_LOC_def layout_vals DATA_REL_START_BLK_NUM_def)
  moreover have "v \<in> set (file_blks i locs) \<Longrightarrow> DATA_REL_START_BLK_NUM (maxBlockID (vbc s)) \<le> v" for v
    using assms(1) by (auto simp: file_laid_def)
  ultimately show "ITAB_ABSOLUTE_BLK_LOC ino \<notin> set (file_blks i locs)" "ITAB_ABSOLUTE_BLK_LOC ino \<noteq> i_blks i ! 12"
    using file_laid_in(2)[OF assms(1)] by (fastforce simp: not_less)+
qed

text \<open>Changing blocks of the file keeps it ready, with the same inode.\<close>

lemma file_ready_only:
  assumes "only_blks E k (set (file_blks i locs)) s t" "file_ready E k usr fh s i locs"
  shows "file_ready E k usr fh t i locs"
proof (rule file_ready_keep[OF assms(2)])
  note d = file_readyD[OF assms(2)]
  have h: "open_file_tab t = open_file_tab s" "acl_layer t = acl_layer s" using handle_frame[of t s] assms(1) by (auto simp: only_blks_def)
  have p: "plain E k t u = plain E k s u" if "u \<in> data_ids (vbc s)" "u \<notin> set (file_blks i locs)" for u
    using assms(1) that by (simp add: only_blks_def)
  have "ITAB_ABSOLUTE_BLK_LOC (i_no i) \<in> data_ids (vbc s)" using itab_in_ids d(1,4) by (auto simp: store_ok_def)
  then show "inode_at E k t (i_no i) = Inr (i, 168)"
    using p itab_outside(1)[OF d(2,4)] file_ready_inode(1)[OF assms(2)] by (simp add: inode_at_def)
  show "\<exists>f. map_of (open_file_tab t) fh = Some f \<and> of_ino f = i_no i" using file_ready_inode(2)[OF assms(2)] h by simp
  show "acl_layer t = acl_layer s" by (rule h(2))
  have "i_blks i ! 12 \<notin> set (file_blks i locs)" using d(2) by (simp add: file_laid_def)
  then show "plain E k t (i_blks i ! 12) = plain E k s (i_blks i ! 12)" using p file_laid_in(2)[OF d(2)] by simp
qed (use assms(1) file_readyD(3)[OF assms(2)] in \<open>simp_all add: only_blks_def\<close>)

text \<open>Writing the inode with another size.\<close>

lemma file_ready_resize:
  assumes r: "file_ready E k usr fh s i locs" and n: "n \<le> MAX_FILE_SIZE"
  shows "\<exists>t. write_inode E (set_size n i) True 0 True s = (Inr (), t) \<and> file_ready E k usr fh t (i \<lparr> i_size := n \<rparr>) locs \<and>
    only_blks E k {ITAB_ABSOLUTE_BLK_LOC (i_no i)} s t \<and> (\<forall>j. j \<noteq> i_no i \<longrightarrow> j < NUM_INODES \<longrightarrow> inode_at E k t j = inode_at E k s j)"
proof -
  note d = file_readyD[OF r]
  let ?j = "set_size n i"
  have "n < 2 ^ 64" using n by (simp add: BLK_SZ_def)
  then have wf: "inode_wf ?j" "i_no ?j < NUM_INODES" using d(2,4) by (simp_all add: file_laid_def inode_wf_def set_size_def)
  have clean: "?j \<lparr> i_dirty := False \<rparr> = i \<lparr> i_size := n \<rparr>"
    using inode_deserialize_shape(3)[OF file_ready_inode(1)[OF r, unfolded inode_at_def]] by (simp add: set_size_def)
  obtain t where t: "write_inode E ?j True 0 True s = (Inr (), t)" "store_ok E k t"
      "inode_at E k t (i_no i) = Inr (i \<lparr> i_size := n \<rparr>, 168)"
      "\<forall>u \<in> data_ids (vbc s). u \<noteq> ITAB_ABSOLUTE_BLK_LOC (i_no i) \<longrightarrow> plain E k t u = plain E k s u"
      "core_blk.more t = core_blk.more s" "maxBlockID (vbc t) = maxBlockID (vbc s)"
      "\<forall>j. j \<noteq> i_no i \<longrightarrow> j < NUM_INODES \<longrightarrow> inode_at E k t j = inode_at E k s j"
    using write_inode_ok[OF d(1) wf] unfolding clean by (auto simp: set_size_def)
  have h: "open_file_tab t = open_file_tab s" "acl_layer t = acl_layer s" using handle_frame[OF t(5)] by auto
  have "file_ready E k usr fh t (i \<lparr> i_size := n \<rparr>) locs"
    by (rule file_ready_keep[OF r t(2,6) h(2)])
      (use t(3,4) h(1) n file_ready_inode(2)[OF r] itab_outside(2)[OF d(2,4)] file_laid_in(2)[OF d(2)] in auto)
  moreover have "only_blks E k {ITAB_ABSOLUTE_BLK_LOC (i_no i)} s t" using t d(1) by (simp add: only_blks_def)
  ultimately show ?thesis using t(1,7) by blast
qed

lemma fdata_only:
  assumes "only_blks E k B s t" "file_laid E k s i locs" "B \<inter> set (file_blks i locs) = {}"
  shows "fdata E k t (file_blks i locs) = fdata E k s (file_blks i locs)"
  by (rule fdata_cong) (use assms in \<open>auto simp: only_blks_def file_laid_def\<close>)

lemma write_loop_fits:
  assumes ok: "store_ok E k s" and laid: "file_laid E k s i locs" and fits: "st + length w \<le> MAX_FILE_SIZE"
  shows "\<exists>t. write_loop E w (length w) (length w) i st (st div BLK_SZ) None 0 False s = (Inr (False, 0, i, st + length w, False), t) \<and>
    only_blks E k (set (file_blks i locs)) s t \<and> fdata E k t (file_blks i locs) = blit st w (fdata E k s (file_blks i locs))"
proof -
  have st: "st \<le> MAX_FILE_SIZE" and m: "min (length w) (MAX_FILE_SIZE - st) = length w" "\<not> MAX_FILE_SIZE - st < length w"
    using fits by linarith+
  have ap: "0 < length w \<longrightarrow> at_pos locs (st div BLK_SZ) (st div BLK_SZ) None 0" by (simp add: at_pos_def)
  have "chunk (length w - length w) (length w) w = w" by (simp add: chunk_def)
  then show ?thesis using write_loop_ok[OF ok laid st order_refl order_refl ap, where usedn = False] m by simp
qed

lemma bfs_write_run:
  assumes op: "open_inode E usr fh s = (Inr i, s1)" and sz: "length buf + (off - i_size i) < 2 ^ 64"
    and w: "w = replicate (off - i_size i) 0 @ buf" and st: "st = min (i_size i) off"
    and loop: "write_loop E w (length w) (length w) i st (st div BLK_SZ) None 0 False s1 = (Inr (early, num, i1, off1, usedn), s2)"
  shows "bfs_write E usr fh buf off s =
    (if early then (Inr (sub64 (length buf) num), s2)
     else seqE (of_set_offset fh off1) (seqE (if usedn \<or> off1 > i_size i1 then write_inode E (set_size off1 i1) True 0 True else retE ())
       (retE (sub64 (length buf) num))) s2)"
proof -
  have u: "u64 (length buf + (off - i_size i)) = length w" using sz by (simp add: w add.commute)
  show ?thesis
  proof (cases "i_size i < off")
    case True
    then obtain z where z: "off = i_size i + z" "0 < z" by (metis less_imp_add_positive)
    have n: "st = i_size i" "w = replicate z 0 @ buf" "u64 (length buf + z) = z + length buf" "sub64 (z + length buf) z = length buf"
      using sz by (simp_all add: z st w add.commute)
    show ?thesis using op loop unfolding n(1,2) by (simp add: bfs_write_def Let_def comp_simps z n(3,4))
  next
    case False
    then have "w = buf" "st = off" "u64 (length buf) = length buf" using u by (simp_all add: w st)
    then show ?thesis using op False loop by (simp add: bfs_write_def Let_def comp_simps)
  qed
qed

text \<open>What a write to one open file leaves alone: the other open files and their inodes, and every block that is
  neither one of the file nor that of its inode.\<close>

definition leaves_rest :: "bfs_env \<Rightarrow> ckey \<Rightarrow> nat \<Rightarrow> inode \<Rightarrow> indirect \<Rightarrow> 'z bfs_handle_scheme \<Rightarrow> 'z bfs_handle_scheme \<Rightarrow> bool" where
  "leaves_rest E k fh i locs s t \<longleftrightarrow> store_ok E k t \<and> maxBlockID (vbc t) = maxBlockID (vbc s) \<and> acl_layer t = acl_layer s \<and>
     (\<forall>h. h \<noteq> fh \<longrightarrow> map_of (open_file_tab t) h = map_of (open_file_tab s) h) \<and>
     (\<forall>j. j \<noteq> i_no i \<longrightarrow> j < NUM_INODES \<longrightarrow> inode_at E k t j = inode_at E k s j) \<and>
     (\<forall>u \<in> data_ids (vbc s). u \<notin> set (file_blks i locs) \<longrightarrow> u \<noteq> ITAB_ABSOLUTE_BLK_LOC (i_no i) \<longrightarrow> plain E k t u = plain E k s u)"

lemma leaves_rest_trans: "leaves_rest E k fh i locs s t \<Longrightarrow> leaves_rest E k fh i locs t u \<Longrightarrow> leaves_rest E k fh i locs s u"
  using data_ids_cong[of "vbc t" "vbc s"] by (simp add: leaves_rest_def)

lemma leaves_rest_only:
  assumes o: "only_blks E k (set (file_blks i locs)) s t" and laid: "file_laid E k s i locs"
  shows "leaves_rest E k fh i locs s t"
proof -
  have h: "open_file_tab t = open_file_tab s" "acl_layer t = acl_layer s" using handle_frame[of t s] o by (auto simp: only_blks_def)
  have "inode_at E k t j = inode_at E k s j" if "j < NUM_INODES" for j
  proof -
    have "ITAB_ABSOLUTE_BLK_LOC j \<in> data_ids (vbc s)" using itab_in_ids[OF _ that] o by (auto simp: only_blks_def store_ok_def)
    then show ?thesis using o itab_outside(1)[OF laid that] by (simp add: only_blks_def inode_at_def)
  qed
  then show ?thesis using o h by (simp add: leaves_rest_def only_blks_def)
qed

lemma leaves_rest_view: "same_view E k s t \<Longrightarrow> file_laid E k s i locs \<Longrightarrow> leaves_rest E k fh i locs s t"
  by (rule leaves_rest_only[OF only_blks_view])

lemma leaves_rest_offset:
  assumes "of_set_offset fh off s = (Inr (), t)" "file_ready E k usr fh s i locs"
  shows "leaves_rest E k fh i locs s t"
proof -
  obtain u where u: "of_set_offset fh off s = (Inr (), u)" "file_ready E k usr fh u i locs" "plain E k u = plain E k s"
      "maxBlockID (vbc u) = maxBlockID (vbc s)" "acl_layer u = acl_layer s" "\<forall>h. h \<noteq> fh \<longrightarrow> map_of (open_file_tab u) h = map_of (open_file_tab s) h"
    using of_set_offset_ready[OF assms(2)] by blast
  then have "u = t" using assms(1) by simp
  then show ?thesis using u file_readyD(1)[OF u(2)] by (simp add: leaves_rest_def inode_at_def)
qed

lemma leaves_rest_resize:
  assumes "only_blks E k {ITAB_ABSOLUTE_BLK_LOC (i_no i)} s t" "\<forall>j. j \<noteq> i_no i \<longrightarrow> j < NUM_INODES \<longrightarrow> inode_at E k t j = inode_at E k s j"
  shows "leaves_rest E k fh i locs s t"
proof -
  have "open_file_tab t = open_file_tab s" "acl_layer t = acl_layer s" using handle_frame[of t s] assms(1) by (auto simp: only_blks_def)
  then show ?thesis using assms by (simp add: leaves_rest_def only_blks_def)
qed

text \<open>A write that fits replaces its part of the file.\<close>

lemma bfs_write_ok:
  assumes r: "file_ready E k usr fh s i locs" and fits: "off + length buf \<le> MAX_FILE_SIZE"
  shows "\<exists>t. bfs_write E usr fh buf off s = (Inr (length buf), t) \<and>
    file_ready E k usr fh t (i \<lparr> i_size := max (i_size i) (off + length buf) \<rparr>) locs \<and>
    file_bytes E k fh t = pwrite off buf (file_bytes E k fh s) \<and> leaves_rest E k fh i locs s t"
proof -
  let ?bl = "file_blks i locs" and ?z = "off - i_size i" and ?st = "min (i_size i) off" and ?it = "ITAB_ABSOLUTE_BLK_LOC (i_no i)"
  let ?w = "replicate ?z 0 @ buf" and ?n = "max (i_size i) (off + length buf)"
  note d = file_readyD[OF r]
  have tot: "?st + length ?w = off + length buf" "length ?w < 2 ^ 64" using fits by (auto simp: BLK_SZ_def)
  obtain s1 where s1: "open_inode E usr fh s = (Inr i, s1)" "same_view E k s s1" using open_inode_run[OF r] by blast
  have r1: "file_ready E k usr fh s1 i locs" by (rule file_ready_view[OF s1(2) r])
  note d1 = file_readyD[OF r1]
  obtain s2 where s2: "write_loop E ?w (length ?w) (length ?w) i ?st (?st div BLK_SZ) None 0 False s1 = (Inr (False, 0, i, off + length buf, False), s2)"
      "only_blks E k (set ?bl) s1 s2" "fdata E k s2 ?bl = blit ?st ?w (fdata E k s ?bl)"
    using write_loop_fits[OF d1(1,2), of ?st ?w] fits fdata_view[OF s1(2) d(2)] unfolding tot(1) by auto
  have r2: "file_ready E k usr fh s2 i locs" by (rule file_ready_only[OF s2(2) r1])
  obtain s3 where s3: "of_set_offset fh (off + length buf) s2 = (Inr (), s3)" "file_ready E k usr fh s3 i locs" "plain E k s3 = plain E k s2"
      "maxBlockID (vbc s3) = maxBlockID (vbc s2)"
    using of_set_offset_ready[OF r2] by blast
  have fd3: "fdata E k s3 ?bl = blit ?st ?w (fdata E k s ?bl)" using s2(3) s3(3) by (simp add: fdata_def)
  obtain t where t: "(if off + length buf > i_size i then write_inode E (set_size (off + length buf) i) True 0 True else retE ()) s3 = (Inr (), t)"
      "file_ready E k usr fh t (i \<lparr> i_size := ?n \<rparr>) locs" "only_blks E k {?it} s3 t"
      "\<forall>j. j \<noteq> i_no i \<longrightarrow> j < NUM_INODES \<longrightarrow> inode_at E k t j = inode_at E k s3 j"
  proof (cases "off + length buf > i_size i")
    case True
    then show ?thesis using file_ready_resize[OF s3(2) fits] that by (auto simp: max_def)
  next
    case False
    then have "i \<lparr> i_size := ?n \<rparr> = i" by (simp add: max_def)
    then show ?thesis using False that s3(2) only_blks_view[OF same_view_refl[OF file_readyD(1)[OF s3(2)]]] by (simp add: retE_def)
  qed
  have "length buf + ?z < 2 ^ 64" "sub64 (length buf) 0 = length buf" using tot(2) by simp_all
  then have run: "bfs_write E usr fh buf off s = (Inr (length buf), t)"
    using bfs_write_run[OF s1(1) _ refl refl s2(1)] s3(1) t(1) by (simp add: comp_simps)
  have "fdata E k t ?bl = blit ?st ?w (fdata E k s ?bl)"
    using fdata_only[OF t(3) file_readyD(2)[OF s3(2)]] fd3 itab_outside(1)[OF d(2,4)] by simp
  moreover have "file_blks (i \<lparr> i_size := ?n \<rparr>) locs = ?bl" by (simp add: file_blks_def)
  ultimately have "file_bytes E k fh t = take ?n (blit ?st ?w (fdata E k s ?bl))" using file_ready_bytes[OF t(2)] by simp
  also have "\<dots> = pwrite off buf (file_bytes E k fh s)"
    using take_blit_pwrite[of "i_size i" "fdata E k s ?bl" off buf] file_blk_lengths(2)[OF d(1,2)] d(3) fits file_ready_bytes[OF r] by simp
  finally have bytes: "file_bytes E k fh t = pwrite off buf (file_bytes E k fh s)" .
  have "leaves_rest E k fh i locs s t"
    using leaves_rest_trans[OF leaves_rest_trans[OF leaves_rest_view[OF s1(2) d(2)] leaves_rest_only[OF s2(2) d1(2)]]
      leaves_rest_trans[OF leaves_rest_offset[OF s3(1) r2] leaves_rest_resize[OF t(3,4)]]] .
  then show ?thesis using run t(2) bytes by blast
qed

section \<open>The contract of an open file\<close>

locale byte_file =
  fixes ok :: "'s \<Rightarrow> bool"
    and bytes :: "'s \<Rightarrow> byte list"
    and cap :: nat
    and rdf :: "nat \<Rightarrow> nat \<Rightarrow> ('s, byte list) comp"
    and wrf :: "nat \<Rightarrow> byte list \<Rightarrow> ('s, unit) comp"
  assumes rdf_ok: "ok s \<Longrightarrow> \<exists>t. rdf off n s = (Inr (chunk off n (bytes s)), t) \<and> ok t \<and> bytes t = bytes s"
    and wrf_ok: "ok s \<Longrightarrow> off + length d \<le> cap \<Longrightarrow> \<exists>t. wrf off d s = (Inr (), t) \<and> ok t \<and> bytes t = pwrite off d (bytes s)"
begin

lemma writes_ok:
  assumes "ok s" "\<forall>p \<in> set ps. fst p + length (snd p) \<le> cap"
  shows "\<exists>t. write_seq wrf ps s = (Inr (), t) \<and> ok t \<and> bytes t = fold (\<lambda>p. pwrite (fst p) (snd p)) ps (bytes s)"
  using assms
proof (induction ps arbitrary: s)
  case Nil
  then show ?case by (simp add: comp_simps)
next
  case (Cons p ps)
  have "fst p + length (snd p) \<le> cap" using Cons.prems(2) by simp
  then obtain t where t: "wrf (fst p) (snd p) s = (Inr (), t)" "ok t" "bytes t = pwrite (fst p) (snd p) (bytes s)"
    using wrf_ok[OF Cons.prems(1)] by blast
  obtain u where "write_seq wrf ps t = (Inr (), u)" "ok u" "bytes u = fold (\<lambda>p. pwrite (fst p) (snd p)) ps (bytes t)"
    using Cons.IH[OF t(2)] Cons.prems(2) by auto
  then show ?case using t by (auto simp: comp_simps)
qed

lemma read_after_writes:
  assumes "ok s" "\<forall>p \<in> set ps. fst p + length (snd p) \<le> cap"
  shows "fst (seqE (write_seq wrf ps) (rdf off n) s) = Inr (chunk off n (fold (\<lambda>p. pwrite (fst p) (snd p)) ps (bytes s)))"
proof -
  obtain t where t: "write_seq wrf ps s = (Inr (), t)" "ok t" "bytes t = fold (\<lambda>p. pwrite (fst p) (snd p)) ps (bytes s)"
    using writes_ok[OF assms] by blast
  then show ?thesis using rdf_ok[OF t(2), of off n] by (auto simp: comp_simps)
qed

end

text \<open>A read into a cleared buffer, of which the reported number of bytes is used; a write that must report all its
  bytes.\<close>

definition file_rd :: "bfs_env \<Rightarrow> user_ctx option \<Rightarrow> nat \<Rightarrow> nat \<Rightarrow> nat \<Rightarrow> ('z bfs_handle_scheme, byte list) comp" where
  "file_rd E usr fh off n = bindE (bfs_read E usr fh (replicate n 0) off) (\<lambda>(m, b). retE (take m b))"

definition file_wr :: "bfs_env \<Rightarrow> user_ctx option \<Rightarrow> nat \<Rightarrow> nat \<Rightarrow> byte list \<Rightarrow> ('z bfs_handle_scheme, unit) comp" where
  "file_wr E usr fh off d = bindE (bfs_write E usr fh d off) (\<lambda>n. guardE (n = length d) BfsServerError)"

lemma file_openI: "file_ready E k usr fh s i locs \<Longrightarrow> file_open E k usr fh s"
  by (auto simp: file_open_def)

interpretation opened: byte_file "file_open E k usr fh" "file_bytes E k fh" MAX_FILE_SIZE "file_rd E usr fh" "file_wr E usr fh"
  for E k usr fh
proof unfold_locales
  fix s :: "'a bfs_handle_scheme" and off n
  assume "file_open E k usr fh s"
  then obtain i locs where "file_ready E k usr fh s i locs" by (auto simp: file_open_def)
  from bfs_read_ok[OF this, of "replicate n 0" off]
  show "\<exists>t. file_rd E usr fh off n s = (Inr (chunk off n (file_bytes E k fh s)), t) \<and> file_open E k usr fh t \<and> file_bytes E k fh t = file_bytes E k fh s"
    by (auto simp: file_rd_def comp_simps blit_def dest: file_openI)
next
  fix s :: "'a bfs_handle_scheme" and off and d :: "byte list"
  assume s: "file_open E k usr fh s" "off + length d \<le> MAX_FILE_SIZE"
  then obtain i locs where "file_ready E k usr fh s i locs" by (auto simp: file_open_def)
  from bfs_write_ok[OF this s(2)]
  show "\<exists>t. file_wr E usr fh off d s = (Inr (), t) \<and> file_open E k usr fh t \<and> file_bytes E k fh t = pwrite off d (file_bytes E k fh s)"
    by (auto simp: file_wr_def comp_simps dest: file_openI)
qed

text \<open>A write loop that fills the largest file leaves the bytes before its start.\<close>

lemma write_loop_over:
  assumes ok: "store_ok E k s" and laid: "file_laid E k s i locs" and st: "st \<le> MAX_FILE_SIZE" and over: "MAX_FILE_SIZE < st + length w"
  shows "\<exists>off1 t. write_loop E w (length w) (length w) i st (st div BLK_SZ) None 0 False s =
      (Inr (True, st + length w - MAX_FILE_SIZE, i, off1, False), t) \<and> only_blks E k (set (file_blks i locs)) s t \<and>
    take st (fdata E k t (file_blks i locs)) = take st (fdata E k s (file_blks i locs))"
proof -
  have m: "min (length w) (MAX_FILE_SIZE - st) = MAX_FILE_SIZE - st" "MAX_FILE_SIZE - st < length w"
      "length w - (MAX_FILE_SIZE - st) = st + length w - MAX_FILE_SIZE" using st over by auto
  have ap: "0 < length w \<longrightarrow> at_pos locs (st div BLK_SZ) (st div BLK_SZ) None 0" by (simp add: at_pos_def)
  obtain t where t: "write_loop E w (length w) (length w) i st (st div BLK_SZ) None 0 False s =
        (Inr (True, st + length w - MAX_FILE_SIZE, i, st + (MAX_FILE_SIZE - st), False), t)" "only_blks E k (set (file_blks i locs)) s t"
      "fdata E k t (file_blks i locs) = blit st (chunk 0 (MAX_FILE_SIZE - st) w) (fdata E k s (file_blks i locs))"
    using write_loop_ok[OF ok laid st order_refl order_refl ap, where usedn = False] m by auto
  have "take st (blit st y D) = take st D" if "st \<le> length D" for y D :: "byte list" using that by (simp add: blit_def)
  then show ?thesis using t file_blk_lengths(2)[OF ok laid] st by auto
qed

section \<open>Properties\<close>

text \<open>C1: An open file is a byte sequence: after any sequence of writes, overlapping, past the end or in any order, that
  stay within the largest file, a read returns the bytes at its offset of the sequence that the writes produce, and the
  number of bytes it reports is the number it puts into the buffer.\<close>
lemma file_reads_writes:
  assumes "file_open E k usr fh s" "\<forall>p \<in> set ps. fst p + length (snd p) \<le> MAX_FILE_SIZE"
  shows "\<exists>t. seqE (write_seq (file_wr E usr fh) ps) (bfs_read E usr fh buf off) s =
    (let d = chunk off (length buf) (fold (\<lambda>p. pwrite (fst p) (snd p)) ps (file_bytes E k fh s)) in (Inr (length d, blit 0 d buf), t))"
proof -
  obtain t where t: "write_seq (file_wr E usr fh) ps s = (Inr (), t)" "file_open E k usr fh t"
      "file_bytes E k fh t = fold (\<lambda>p. pwrite (fst p) (snd p)) ps (file_bytes E k fh s)"
    using opened.writes_ok[OF assms] by blast
  then obtain i locs where r: "file_ready E k usr fh t i locs" by (auto simp: file_open_def)
  show ?thesis using bfs_read_ok[OF r, of buf off] t(1,3) by (auto simp: comp_simps Let_def)
qed

text \<open>C10: Writing to one open file leaves another open file with other blocks as it is.\<close>
lemma file_writes_isolated:
  assumes r: "file_ready E k usr fh s i locs" and q: "file_ready E k usr2 fh2 s j locs2" and fits: "off + length buf \<le> MAX_FILE_SIZE"
    and "fh2 \<noteq> fh" "i_no j \<noteq> i_no i" "set (i_blks j ! NUM_DIRECT_BLOCKS # file_blks j locs2) \<inter> set (file_blks i locs) = {}"
  shows "\<exists>t. bfs_write E usr fh buf off s = (Inr (length buf), t) \<and> file_open E k usr2 fh2 t \<and> file_bytes E k fh2 t = file_bytes E k fh2 s"
proof -
  obtain t where t: "bfs_write E usr fh buf off s = (Inr (length buf), t)" "leaves_rest E k fh i locs s t" using bfs_write_ok[OF r fits] by blast
  note d = file_readyD[OF r] and dq = file_readyD[OF q]
  have p: "plain E k t u = plain E k s u" if "u \<in> set (i_blks j ! 12 # file_blks j locs2)" for u
  proof -
    have "u \<in> data_ids (vbc s)" using dq(2) that by (auto simp: file_laid_def)
    moreover have "u \<notin> set (file_blks i locs)" using that assms(6) by auto
    moreover have "u \<noteq> ITAB_ABSOLUTE_BLK_LOC (i_no i)" using itab_outside[OF dq(2) d(4)] that by auto
    ultimately show ?thesis using t(2) by (simp add: leaves_rest_def)
  qed
  have "file_ready E k usr2 fh2 t j locs2"
    by (rule file_ready_keep[OF q])
      (use t(2) assms(4,5) file_ready_inode[OF q] dq p in \<open>simp_all add: leaves_rest_def\<close>)
  moreover have "fdata E k t (file_blks j locs2) = fdata E k s (file_blks j locs2)" by (rule fdata_cong) (use p in simp)
  ultimately show ?thesis
    using t(1) file_ready_bytes[OF q] file_ready_bytes[of E k usr2 fh2 t j locs2] by (auto dest: file_openI)
qed


text \<open>C17: The loops of reading and writing end: each turn moves at least one byte, so a number of turns equal to the number of
  bytes is enough, whatever the file and the devices hold; more turns change neither the result nor the state.\<close>
lemma file_loops_end:
  "read_loop E i sz (num + more_fuel) num off idx ib iidx buf s = read_loop E i sz num num off idx ib iidx buf s \<and>
   write_loop E wbuf (num + more_fuel) num i off idx ib iidx usedn s = write_loop E wbuf num num i off idx ib iidx usedn s"
  by (intro conjI read_loop_fuel write_loop_fuel) simp_all

text \<open>C33: A write at or past the end of a file that would go beyond the largest file is lost: the file keeps its size and its
  bytes, but the number of bytes reported is the distance from the offset to the largest size, modulo \<^term>\<open>2 ^ 64 :: nat\<close>.\<close>
lemma file_write_over_lost:
  assumes r: "file_ready E k usr fh s i locs" and "i_size i \<le> off" "MAX_FILE_SIZE < off + length buf"
    and sz: "length buf + (off - i_size i) < 2 ^ 64"
  shows "\<exists>t. bfs_write E usr fh buf off s = (Inr (sub64 MAX_FILE_SIZE off), t) \<and> file_open E k usr fh t \<and>
    file_bytes E k fh t = file_bytes E k fh s"
proof -
  let ?w = "replicate (off - i_size i) 0 @ buf" and ?bl = "file_blks i locs" and ?n = "i_size i"
  note d = file_readyD[OF r]
  obtain s1 where s1: "open_inode E usr fh s = (Inr i, s1)" "same_view E k s s1" using open_inode_run[OF r] by blast
  have r1: "file_ready E k usr fh s1 i locs" by (rule file_ready_view[OF s1(2) r])
  note d1 = file_readyD[OF r1]
  have st: "min ?n off = ?n" and over: "MAX_FILE_SIZE < ?n + length ?w" "?n + length ?w = off + length buf"
    using assms(2,3) by auto
  obtain off1 t where t: "write_loop E ?w (length ?w) (length ?w) i ?n (?n div BLK_SZ) None 0 False s1 =
        (Inr (True, ?n + length ?w - MAX_FILE_SIZE, i, off1, False), t)" "only_blks E k (set ?bl) s1 t"
      "take ?n (fdata E k t ?bl) = take ?n (fdata E k s1 ?bl)"
    using write_loop_over[OF d1(1-3) over(1)] by blast
  have r2: "file_ready E k usr fh t i locs" by (rule file_ready_only[OF t(2) r1])
  have "take ?n (fdata E k t ?bl) = take ?n (fdata E k s ?bl)" using t(3) fdata_view[OF s1(2) d(2)] by simp
  then have b: "file_bytes E k fh t = file_bytes E k fh s" using file_ready_bytes[OF r] file_ready_bytes[OF r2] by simp
  have "int (off + length buf - MAX_FILE_SIZE) = int off + int (length buf) - int MAX_FILE_SIZE" using assms(3) by (simp only: of_nat_diff)
  then have cnt: "sub64 (length buf) (off + length buf - MAX_FILE_SIZE) = sub64 MAX_FILE_SIZE off" by (simp add: sub64_def)
  show ?thesis
    using bfs_write_run[OF s1(1) sz refl st[symmetric] t(1)] b file_openI[OF r2] cnt over(2) by simp
qed

section \<open>A store with two files\<close>

definition demo_file :: "nat \<Rightarrow> nat \<Rightarrow> inode" where
  "demo_file n base = (Inode n 1001 33279 1 0 0 0 0 0) \<lparr> i_blks := [base..<base + 13], i_dirty := False \<rparr>"

definition demo_locs :: "nat \<Rightarrow> indirect" where
  "demo_locs base = [base + 13..<base + 525]"

lemma demo_file_sel:
  "i_no (demo_file n base) = n" "i_uid (demo_file n base) = 1001" "i_mode (demo_file n base) = 33279" "i_size (demo_file n base) = 0"
  "demo_file n base \<lparr> i_dirty := False \<rparr> = demo_file n base" "i_blks (demo_file n base) ! 12 = base + 12"
  "file_blks (demo_file n base) (demo_locs base) = [base..<base + 12] @ [base + 13..<base + 525]"
  by (simp_all add: demo_file_def demo_locs_def Inode_def file_blks_def del: upt_Suc)

lemma demo_file_wf: "n < 2 ^ 64 \<Longrightarrow> base < 2 ^ 32 \<Longrightarrow> inode_wf (demo_file n base) \<and> ib_wf (demo_locs base)"
  by (auto simp: inode_wf_def ib_wf_def demo_file_def demo_locs_def Inode_def layout_vals simp del: upt_Suc)

lemma demo_file_laid:
  assumes "maxBlockID (vbc s) = 8192" "6313 \<le> base" "base + 525 \<le> 8192" "n < 100"
    "plain E k s (base + 12) = enc_fields (map (Pair 8) (demo_locs base))"
  shows "file_laid E k s (demo_file n base) (demo_locs base)"
proof -
  have wf: "inode_wf (demo_file n base)" "ib_wf (demo_locs base)" using demo_file_wf[of n base] assms(3,4) by simp_all
  have "ib_deserialize 0 (plain E k s (base + 12)) = Inr (demo_locs base, BLK_SZ)"
    using ibc.des[OF wf(2), of 0 "plain E k s (base + 12)"] ibc.len[OF wf(2)] assms(5) by (simp add: chunk_def BLK_SZ_def)
  moreover have "DATA_REL_START_BLK_NUM 8192 = 6313" by (simp add: layout_defs)
  then have "set ((base + 12) # file_blks (demo_file n base) (demo_locs base)) \<subseteq> data_ids (vbc s) \<inter> {DATA_REL_START_BLK_NUM (maxBlockID (vbc s))..}"
    using assms(1-3) by (auto simp: demo_file_sel data_ids_def layout_vals simp del: upt_Suc)
  ultimately show ?thesis using wf by (simp add: file_laid_def demo_file_sel del: upt_Suc)
qed

lemma two_files_store:
  "\<exists>s :: bfs_handle. store_ok demo_env demo_key s \<and> maxBlockID (vbc s) = 8192 \<and> acl_layer s = demo_acl \<and>
     open_file_tab s = [(5, OpenFile 9 0), (6, OpenFile 10 0)] \<and>
     inode_at demo_env demo_key s 9 = Inr (demo_file 9 6400, 168) \<and> inode_at demo_env demo_key s 10 = Inr (demo_file 10 7000, 168) \<and>
     plain demo_env demo_key s 6412 = enc_fields (map (Pair 8) (demo_locs 6400)) \<and>
     plain demo_env demo_key s 7012 = enc_fields (map (Pair 8) (demo_locs 7000))"
proof -
  let ?E = demo_env and ?k = demo_key and ?h = "zero_handle \<lparr> open_file_tab := [(5, OpenFile 9 0), (6, OpenFile 10 0)] \<rparr>"
  let ?a = "enc_fields (map (Pair 8) (demo_locs 6400))" and ?b = "enc_fields (map (Pair 8) (demo_locs 7000))"
  have wf: "inode_wf (demo_file 9 6400)" "inode_wf (demo_file 10 7000)" "ib_wf (demo_locs 6400)" "ib_wf (demo_locs 7000)"
    using demo_file_wf[of 9 6400] demo_file_wf[of 10 7000] by simp_all
  have l: "length ?a = BLK_SZ" "length ?b = BLK_SZ" using ibc.len wf by (simp_all add: BLK_SZ_def)
  have ok: "store_ok ?E ?k ?h" "maxBlockID (vbc ?h) = 8192" using zero_handle_ok zero_cluster_ok(2) by simp_all
  have ids: "{6412, 7012} \<subseteq> data_ids c" if "maxBlockID c = 8192" for c using that by (auto simp: data_ids_def layout_defs)
  have n: "i_no (demo_file 9 6400) < NUM_INODES" "i_no (demo_file 10 7000) < NUM_INODES" by (simp_all add: demo_file_sel NUM_INODES_def)
  obtain c1 s1 where s1: "write_blk ?E 6412 ?a True ?h = (Inr c1, s1)" "store_ok ?E ?k s1"
      "\<forall>u \<in> data_ids (vbc ?h). plain ?E ?k s1 u = (if u = 6412 then ?a else plain ?E ?k ?h u)" "core_blk.more s1 = core_blk.more ?h" "maxBlockID (vbc s1) = 8192"
    using store_write[OF ok(1) _ l(1), of 6412 True] ids ok(2) by auto
  have p1: "plain ?E ?k s1 6412 = ?a" using s1(3) ids[OF ok(2)] by simp
  obtain c2 s2 where s2: "store_ok ?E ?k s2"
      "\<forall>u \<in> data_ids (vbc s1). plain ?E ?k s2 u = (if u = 7012 then ?b else plain ?E ?k s1 u)" "core_blk.more s2 = core_blk.more s1" "maxBlockID (vbc s2) = 8192"
    using store_write[OF s1(2) _ l(2), of 7012 True] ids[OF s1(5)] s1(5) by auto
  have p2: "plain ?E ?k s2 6412 = ?a" "plain ?E ?k s2 7012 = ?b" using s2(2) p1 ids[OF s1(5)] by simp_all
  have it: "ITAB_ABSOLUTE_BLK_LOC 9 = 6" "ITAB_ABSOLUTE_BLK_LOC 10 = 6" by (simp_all add: ITAB_ABSOLUTE_BLK_LOC_def layout_vals)
  obtain s3 where s3: "store_ok ?E ?k s3" "inode_at ?E ?k s3 9 = Inr (demo_file 9 6400, 168)" "core_blk.more s3 = core_blk.more s2" "maxBlockID (vbc s3) = 8192"
      "\<forall>u \<in> data_ids (vbc s2). u \<noteq> 6 \<longrightarrow> plain ?E ?k s3 u = plain ?E ?k s2 u"
    using write_inode_ok[OF s2(1) wf(1) n(1)] s2(4) unfolding demo_file_sel it by auto
  obtain s4 where s4: "store_ok ?E ?k s4" "inode_at ?E ?k s4 10 = Inr (demo_file 10 7000, 168)" "inode_at ?E ?k s4 9 = inode_at ?E ?k s3 9"
      "core_blk.more s4 = core_blk.more s3" "maxBlockID (vbc s4) = 8192" "\<forall>u \<in> data_ids (vbc s3). u \<noteq> 6 \<longrightarrow> plain ?E ?k s4 u = plain ?E ?k s3 u"
    using write_inode_ok[OF s3(1) wf(2) n(2)] s3(4) unfolding demo_file_sel it by (auto simp: NUM_INODES_def)
  have "plain ?E ?k s4 6412 = ?a" "plain ?E ?k s4 7012 = ?b" using s4(6) s3(5) p2 ids[OF s2(4)] ids[OF s3(4)] by simp_all
  moreover have "core_blk.more s4 = core_blk.more ?h" using s1(4) s2(3) s3(3) s4(4) by simp
  then have "acl_layer s4 = demo_acl" "open_file_tab s4 = [(5, OpenFile 9 0), (6, OpenFile 10 0)]" using handle_frame[of s4 ?h] by simp_all
  ultimately show ?thesis using s3(2) s4(1,2,3,5) by (intro exI[of _ s4]) simp
qed


lemma demo_file_ready:
  assumes "store_ok demo_env demo_key s" "maxBlockID (vbc s) = 8192" "acl_layer s = demo_acl" "map_of (open_file_tab s) fh = Some (OpenFile n 0)"
    "inode_at demo_env demo_key s n = Inr (demo_file n base, 168)" "plain demo_env demo_key s (base + 12) = enc_fields (map (Pair 8) (demo_locs base))"
    "6313 \<le> base" "base + 525 \<le> 8192" "2 < n" "n < 100"
  shows "file_ready demo_env demo_key (Some (BfsUserContext 7)) fh s (demo_file n base) (demo_locs base)"
proof -
  have "\<not> access_denied demo_acl (Some (BfsUserContext 7)) 1001 33279"
    by (simp add: demo_acl_def access_denied_def is_owner_def owner_access_ok_def world_access_ok_def BfsUserContext_def BFS__S_IRWXO_def)
  moreover have "open_ino demo_env demo_key fh s = Some (demo_file n base)"
    using assms(4,5) by (simp add: open_ino_def OpenFile_def demo_file_sel)
  ultimately show ?thesis
    using assms(1,3,9,10) demo_file_laid[OF assms(2,7,8,10,6)] by (simp add: file_ready_def demo_file_sel ROOT_INO_def NUM_INODES_def)
qed

lemma two_files:
  "\<exists>s :: bfs_handle. file_ready demo_env demo_key (Some (BfsUserContext 7)) 5 s (demo_file 9 6400) (demo_locs 6400) \<and>
     file_ready demo_env demo_key (Some (BfsUserContext 7)) 6 s (demo_file 10 7000) (demo_locs 7000)"
proof -
  obtain s :: bfs_handle where s: "store_ok demo_env demo_key s" "maxBlockID (vbc s) = 8192" "acl_layer s = demo_acl"
      "open_file_tab s = [(5, OpenFile 9 0), (6, OpenFile 10 0)]"
      "inode_at demo_env demo_key s 9 = Inr (demo_file 9 6400, 168)" "inode_at demo_env demo_key s 10 = Inr (demo_file 10 7000, 168)"
      "plain demo_env demo_key s 6412 = enc_fields (map (Pair 8) (demo_locs 6400))" "plain demo_env demo_key s 7012 = enc_fields (map (Pair 8) (demo_locs 7000))"
    using two_files_store by blast
  then show ?thesis using demo_file_ready[of s 5 9 6400] demo_file_ready[of s 6 10 7000] by (intro exI[of _ s]) simp
qed

lemma demo_files_apart:
  "a + 525 \<le> b \<Longrightarrow> set (i_blks (demo_file m b) ! NUM_DIRECT_BLOCKS # file_blks (demo_file m b) (demo_locs b))
     \<inter> set (file_blks (demo_file n a) (demo_locs a)) = {}"
  by (auto simp: demo_file_sel simp del: upt_Suc)

theorem file_reads_writes_witness:
  "\<exists>(s :: bfs_handle) t. seqE (write_seq (file_wr demo_env (Some (BfsUserContext 7)) 5) [(0, [1, 2, 3]), (5, [7]), (1, [9])])
     (bfs_read demo_env (Some (BfsUserContext 7)) 5 (replicate 8 4) 1) s = (Inr (5, [9, 3, 0, 0, 7, 4, 4, 4]), t)"
proof -
  obtain s :: bfs_handle where r: "file_ready demo_env demo_key (Some (BfsUserContext 7)) 5 s (demo_file 9 6400) (demo_locs 6400)"
    using two_files by blast
  have f: "\<forall>p \<in> set [(0, [1, 2, 3]), (5, [7]), (1, [9 :: byte])]. fst p + length (snd p) \<le> MAX_FILE_SIZE" by (simp add: BLK_SZ_def)
  have b: "file_bytes demo_env demo_key 5 s = []" using file_ready_bytes[OF r] by (simp add: demo_file_sel)
  have w: "fold (\<lambda>p. pwrite (fst p) (snd p)) [(0, [1, 2, 3]), (5, [7]), (1, [9 :: byte])] [] = [1, 9, 3, 0, 0, 7]"
    by (simp add: pwrite_def blit_def numeral_3_eq_3 eval_nat_numeral)
  have c: "chunk 1 (length (replicate 8 (4 :: byte))) [1, 9, 3, 0, 0, 7] = [9, 3, 0, 0, 7 :: byte]" by (simp add: chunk_def eval_nat_numeral)
  have bl: "blit 0 [9, 3, 0, 0, 7] (replicate 8 4) = [9, 3, 0, 0, 7, 4, 4, 4 :: byte]" by (simp add: blit_def eval_nat_numeral)
  show ?thesis
    using file_reads_writes[OF file_openI[OF r] f, of "replicate 8 4" 1] unfolding b w c Let_def bl
    by (auto simp: eval_nat_numeral)
qed

theorem file_writes_isolated_witness:
  "\<exists>(s :: bfs_handle) t. bfs_write demo_env (Some (BfsUserContext 7)) 5 [1, 2, 3] 4090 s = (Inr 3, t) \<and>
     file_open demo_env demo_key (Some (BfsUserContext 7)) 6 t \<and> file_bytes demo_env demo_key 6 t = file_bytes demo_env demo_key 6 s"
proof -
  obtain s :: bfs_handle where r: "file_ready demo_env demo_key (Some (BfsUserContext 7)) 5 s (demo_file 9 6400) (demo_locs 6400)"
      "file_ready demo_env demo_key (Some (BfsUserContext 7)) 6 s (demo_file 10 7000) (demo_locs 7000)"
    using two_files by blast
  have fits: "4090 + length [1, 2, 3 :: byte] \<le> MAX_FILE_SIZE" by (simp add: BLK_SZ_def)
  from file_writes_isolated[OF r fits _ _ demo_files_apart] show ?thesis by (auto simp: demo_file_sel numeral_3_eq_3)
qed

theorem file_write_over_lost_witness:
  "\<exists>(s :: bfs_handle) t. bfs_write demo_env (Some (BfsUserContext 7)) 5 [1, 2, 3] 2146310 s = (Inr (2 ^ 64 - 6), t) \<and>
     file_bytes demo_env demo_key 5 t = file_bytes demo_env demo_key 5 s"
proof -
  obtain s :: bfs_handle where r: "file_ready demo_env demo_key (Some (BfsUserContext 7)) 5 s (demo_file 9 6400) (demo_locs 6400)"
    using two_files by blast
  have "sub64 MAX_FILE_SIZE 2146310 = 2 ^ 64 - 6" by (simp add: sub64_def BLK_SZ_def)
  then show ?thesis
    using file_write_over_lost[OF r, of 2146310 "[1, 2, 3]"] by (auto simp: demo_file_sel BLK_SZ_def)
qed

end
