(* ===== verification/Bfs_Format.thy ===== *)
theory Bfs_Format
  imports Bfs_ByteFiles
begin

text \<open>
  Formatting and mounting: \<^verbatim>\<open>BfsHandle::mkfs\<close> and \<^verbatim>\<open>BfsHandle::mount\<close> of \<^verbatim>\<open>src/src/bfs_fs/bfs_core.cpp\<close>, and the
  status of the handle they move from \<^verbatim>\<open>INITIALIZED\<close> to \<^verbatim>\<open>MOUNTED\<close>.  The parts of \<^verbatim>\<open>mkfs\<close> are definitions of their own, in the
  order of the code, and hand on the number of the last block they wrote (\<^verbatim>\<open>blk_target\<close>).  The definitions cover both settings
  of the Merkle tree; the lemmas on complete runs are for a tree that is switched off.  With the tree on, \<^verbatim>\<open>mkfs\<close> ends with
  \<^verbatim>\<open>flush_merkle_tree\<close>, which saves the root hash over metadata (see the lemma \<^verbatim>\<open>root_hash_clobbers\<close> of the block operations).
\<close>

section \<open>Formatting\<close>

definition SB_SZ :: nat where "SB_SZ = BLK_SZ"

abbreviation zero_blk :: "byte list" where "zero_blk \<equiv> replicate BLK_SZ 0"

definition set_uid :: "nat \<Rightarrow> inode \<Rightarrow> inode" where
  "set_uid v i = i \<lparr> i_uid := v, i_dirty := True \<rparr>"

text \<open>The constructor, with those of the members, and the destructor of the handle.  The superblock of a new handle keeps an
  arbitrary \<^verbatim>\<open>no_dblocks\<close>.\<close>

definition BfsHandle_init :: "'z bfs_handle_scheme \<Rightarrow> 'z bfs_handle_scheme" where
  "BfsHandle_init s = s \<lparr> sb := SuperBlock (no_dblocks (sb s)), open_file_tab := [], next_fd := START_FD, status := INITIALIZED \<rparr>"

definition BfsHandle_destroy :: "'z bfs_handle_scheme \<Rightarrow> 'z bfs_handle_scheme" where
  "BfsHandle_destroy s = s \<lparr> next_fd := START_FD, status := UNINITIALIZED \<rparr>"

text \<open>One buffer written to a range of blocks.  \<^verbatim>\<open>write_blk\<close> encrypts it in place, so without a \<^verbatim>\<open>burn\<close> in between each
  block gets the ciphertext of the one before.\<close>

primrec write_chain :: "bfs_env \<Rightarrow> nat list \<Rightarrow> byte list \<Rightarrow> ('z core_blk_scheme, byte list) comp" where
  "write_chain E [] buf = retE buf"
| "write_chain E (v # vs) buf = bindE (write_blk E v buf True) (write_chain E vs)"

text \<open>The same with a \<^verbatim>\<open>burn\<close> after every write.\<close>

primrec write_burned :: "bfs_env \<Rightarrow> nat list \<Rightarrow> byte list \<Rightarrow> ('z core_blk_scheme, byte list) comp" where
  "write_burned E [] buf = retE buf"
| "write_burned E (v # vs) buf =
     bindE (write_blk E v buf True) (\<lambda>ct. write_burned E vs (replicate (length ct) 0))"

definition mkfs_super :: "bfs_env \<Rightarrow> nat \<Rightarrow> ('z core_blk_scheme, nat) comp" where
  "mkfs_super E n =
     bindE (liftS (sb_serialize (mkfs_superblock 0 n) 0 zero_blk)) (\<lambda>(len, super).
     seqE (guardE (len \<le> SB_SZ) BfsAbort)
     (seqE (write_blk E SB_REL_START_BLK_NUM super True)
     (let blk_target = 0 + 1 in
      seqE (write_blk E blk_target zero_blk True) (retE blk_target))))"

definition reserved_inode :: "nat \<Rightarrow> nat \<Rightarrow> bfs_error + inode" where
  "reserved_inode n b =
     (let i = set_i_no b (Inode 0 0 0 0 0 0 0 0 0) in
      if b = ROOT_INO
      then set_i_blk 0 (DATA_REL_START_BLK_NUM n)
        (set_i_links 2 (set_ref_cnt 1 (set_mode (BFS__S_IFDIR OR 511) (set_uid 0 i))))
      else Inr i)"

primrec reserve_inos :: "nat \<Rightarrow> nat list \<Rightarrow> ibitmap \<Rightarrow> inode list \<Rightarrow> bfs_error + (ibitmap \<times> inode list)" where
  "reserve_inos n [] ibm res = Inr (ibm, res)"
| "reserve_inos n (b # bs) ibm res =
     bindS (ibm_set_bit b ibm) (\<lambda>ibm'. bindS (reserved_inode n b) (\<lambda>i. reserve_inos n bs ibm' (res @ [i])))"

definition mkfs_ibm :: "bfs_env \<Rightarrow> nat \<Rightarrow> nat \<Rightarrow> ('z core_blk_scheme, nat \<times> inode list) comp" where
  "mkfs_ibm E n t =
     bindE (liftS (reserve_inos n [0..<FIRST_UNRESERVED_INO] (append_ibm_blk zero_blk []) [])) (\<lambda>(ibm, res).
     let blk_target = t + 1 in
     bindE (write_blk E blk_target (ibm ! 0) True) (\<lambda>ct.
     seqE (write_chain E [blk_target + 1..<blk_target + NUM_IBITMAP_BLOCKS] (replicate (length ct) 0))
     (retE (blk_target + (NUM_IBITMAP_BLOCKS - 1), res))))"

primrec put_inodes :: "(nat \<times> inode) list \<Rightarrow> byte list \<Rightarrow> bfs_error + byte list" where
  "put_inodes [] blk = Inr blk"
| "put_inodes (p # ps) blk =
     bindS (inode_serialize (snd p) (ITAB_ABSOLUTE_BLK_OFF (fst p)) blk) (\<lambda>(len, blk').
     if len \<le> INODE_SZ then put_inodes ps blk' else Inl BfsAbort)"

definition mkfs_itab :: "bfs_env \<Rightarrow> inode list \<Rightarrow> nat \<Rightarrow> ('z core_blk_scheme, nat) comp" where
  "mkfs_itab E res t =
     bindE (liftS (put_inodes (zip [0..<FIRST_UNRESERVED_INO] res) zero_blk)) (\<lambda>blk.
     let blk_target = t + 1 in
     bindE (write_blk E blk_target blk True) (\<lambda>ct.
     seqE (write_chain E [blk_target + 1..<blk_target + NUM_ITAB_BLOCKS] (replicate (length ct) 0))
     (retE (blk_target + (NUM_ITAB_BLOCKS - 1)))))"

text \<open>The loop over the metadata blocks only counts.\<close>

definition mkfs_root :: "bfs_env \<Rightarrow> nat \<Rightarrow> inode list \<Rightarrow> nat \<Rightarrow> ('z core_blk_scheme, nat) comp" where
  "mkfs_root E n res t =
     seqE (guardE (t = METADATA_REL_START_BLK_NUM - 1) BfsAbort)
     (let de = DirEntry ''.'' (i_no (res ! ROOT_INO)) (DATA_REL_START_BLK_NUM n) 0;
          de2 = set_blk_idx_loc 1 (set_de_name ''..'' de);
          blk_target = t + NUM_META_BLOCKS n + 1
      in bindE (liftS (de_serialize de (DENTRY_ABSOLUTE_BLK_OFF 0) zero_blk)) (\<lambda>(len, b1).
         seqE (guardE (len = DIRENT_SZ) BfsAbort)
         (bindE (liftS (de_serialize de2 (DENTRY_ABSOLUTE_BLK_OFF 1) b1)) (\<lambda>(len2, b2).
          seqE (guardE (len2 = DIRENT_SZ) BfsAbort)
          (seqE (guardE (blk_target = DATA_REL_START_BLK_NUM n) BfsAbort)
          (seqE (write_blk E blk_target b2 True) (retE blk_target)))))))"

definition mkfs_rest :: "bfs_env \<Rightarrow> nat \<Rightarrow> nat \<Rightarrow> ('z core_blk_scheme, unit) comp" where
  "mkfs_rest E n t = seqE (write_burned E [t + 1..<n] zero_blk) (retE ())"

definition mkfs :: "bfs_env \<Rightarrow> ('z core_blk_scheme, unit) comp" where
  "mkfs E =
     bindE (getE status) (\<lambda>st.
     seqE (guardE (st = INITIALIZED) BfsServerError)
     (seqE (modE (\<lambda>s. s \<lparr> status := FORMATTING \<rparr>))
     (seqE (if use_mt E then bindE (init_merkle_tree E True) (\<lambda>ok. guardE ok BfsServerError) else retE ())
     (seqE need_key
     (bindE (getE (\<lambda>s. maxBlockID (vbc s))) (\<lambda>n.
      bindE (mkfs_super E n) (\<lambda>t1.
      bindE (mkfs_ibm E n t1) (\<lambda>(t2, res).
      bindE (mkfs_itab E res t2) (\<lambda>t3.
      bindE (mkfs_root E n res t3) (\<lambda>t4.
      seqE (mkfs_rest E n t4)
      (seqE (if use_mt E then bindE (flush_merkle_tree E) (\<lambda>ok. guardE ok BfsServerError) else retE ())
      (modE (\<lambda>s. s \<lparr> status := FORMATTED \<rparr>)))))))))))))"

section \<open>Mounting\<close>

text \<open>A new scratch buffer; nodes that shared the old one keep its bytes.\<close>

definition new_par :: "nat \<Rightarrow> 'z fs_layer_scheme \<Rightarrow> 'z fs_layer_scheme" where
  "new_par n s = s \<lparr> mt_nodes := map (\<lambda>i. node_hash i s) [0..<length (mt_nodes s)], par_alias := [],
     curr_par := Some (replicate n 0) \<rparr>"

definition mount_dentry :: "byte list \<Rightarrow> nat \<Rightarrow> string \<Rightarrow> ('s, unit) comp" where
  "mount_dentry blk idx nm =
     bindE (liftS (de_deserialize (DENTRY_ABSOLUTE_BLK_OFF idx) blk)) (\<lambda>((de_nm, ino), len).
     seqE (guardE (len = DIRENT_SZ) BfsAbort) (guardE (de_nm = nm) BfsAbort))"

definition mount :: "bfs_env \<Rightarrow> ('z bfs_handle_scheme, unit) comp" where
  "mount E =
     bindE (getE status) (\<lambda>st.
     seqE (guardE (st = FORMATTED) BfsServerError)
     (seqE (if use_mt E then bindE (init_merkle_tree E False) (\<lambda>ok. guardE ok BfsServerError) else retE ())
     (bindE need_key (\<lambda>k.
      seqE (modE (new_par (hmac_len k)))
      (bindE (read_blk E SB_REL_START_BLK_NUM) (\<lambda>blk.
       bindE (liftS (sb_deserialize 0 blk)) (\<lambda>(sb', sb_len).
       seqE (modE (\<lambda>s. s \<lparr> sb := sb' \<rparr>))
       (seqE (guardE (sb_len \<le> SB_SZ) BfsAbort)
       (seqE (guardE (root_ino sb' = ROOT_INO) BfsAbort)
       (bindE (read_inode E (root_ino sb')) (\<lambda>rt.
        seqE (guardE (i_no rt = root_ino sb') BfsAbort)
        (bindE (at_blk (i_blks rt) 0) (\<lambda>b0.
         bindE data_start (\<lambda>d.
         seqE (guardE (b0 = d) BfsAbort)
         (bindE (read_blk E b0) (\<lambda>de_blk.
          seqE (mount_dentry de_blk 0 ''.'')
          (seqE (mount_dentry de_blk 1 ''..'')
          (modE (\<lambda>s. s \<lparr> status := MOUNTED \<rparr>)))))))))))))))))))"

section \<open>Blocks sealed so far\<close>

text \<open>While a device is formatted only some of its blocks are sealed: \<^verbatim>\<open>W\<close> has the plaintext and the stored bytes of those.\<close>

type_synonym blk_log = "nat \<rightharpoonup> byte list \<times> byte list"

definition fmt_ok :: "bfs_env \<Rightarrow> ckey \<Rightarrow> blk_log \<Rightarrow> 'z core_blk_scheme \<Rightarrow> bool" where
  "fmt_ok E k W s \<longleftrightarrow> store_env E (vbc s) \<and> gcm_ok (env_gcrypt E) \<and> key_ok k \<and> \<not> use_mt E \<and>
     (\<exists>h. fs_key s = Some (k \<lparr> handle := h \<rparr>)) \<and>
     (\<forall>v d ct. W v = Some (d, ct) \<longrightarrow> v \<in> data_ids (vbc s) \<and> sealed E k (vbc s) v \<and>
        opened E k (vbc s) v = Some d \<and> cluster_blk (vbc s) v = ct)"

definition same_frame :: "'z core_blk_scheme \<Rightarrow> 'z core_blk_scheme \<Rightarrow> bool" where
  "same_frame s t \<longleftrightarrow> status t = status s \<and> core_blk.more t = core_blk.more s \<and> maxBlockID (vbc t) = maxBlockID (vbc s)"

lemma same_frame_refl [simp]: "same_frame s s"
  by (simp add: same_frame_def)

lemma same_frame_trans [trans]: "same_frame s t \<Longrightarrow> same_frame t u \<Longrightarrow> same_frame s u"
  by (simp add: same_frame_def)

lemma same_frame_ids: "same_frame s t \<Longrightarrow> data_ids (vbc t) = data_ids (vbc s)"
  by (rule data_ids_cong) (simp add: same_frame_def)

lemma fmt_write:
  assumes ok: "fmt_ok E k W s" and v: "v \<in> data_ids (vbc s)" and d: "length d = BLK_SZ"
  obtains ct t where "write_blk E v d sync s = (Inr ct, t)" "fmt_ok E k (W(v \<mapsto> (d, ct))) t" "same_frame s t"
    "length ct = BLK_SZ"
proof -
  obtain h where h: "fs_key s = Some (k \<lparr> handle := h \<rparr>)" using ok by (auto simp: fmt_ok_def)
  have b: "store_env E (vbc s)" "gcm_ok (env_gcrypt E)" "key_ok k" "\<not> use_mt E" using ok by (auto simp: fmt_ok_def)
  have kk: "key_ok (k \<lparr> handle := h \<rparr>)" using b(3) by simp
  obtain c ct h' where c: "cluster_ok c" "maxBlockID c = maxBlockID (vbc s)"
      "tag_at c v = gcm_tag E k c v" "opened E k c v = Some d" "length (tag_at c v) = 16"
      "\<And>u. u \<in> data_ids (vbc s) \<Longrightarrow> u \<noteq> v \<Longrightarrow>
         cluster_blk c u = cluster_blk (vbc s) u \<and> iv_at c u = iv_at (vbc s) u \<and> tag_at c u = tag_at (vbc s) u"
      "write_blk E v d sync s =
         seqE (if use_mt E \<and> status s \<noteq> CORRUPTED then mt_write_blk E v (tag_at c v) else retE ()) (retE ct)
           (with_handle (k \<lparr> handle := h \<rparr>) h' (s \<lparr> random_pos := random_pos s + 12, vbc := c \<rparr>))"
      "cluster_blk c v = ct" "length ct = BLK_SZ"
    by (rule write_blk_run[OF b(1,2) v h kk d, of sync, unfolded handle_sealing]) (rule that)
  let ?t = "with_handle (k \<lparr> handle := h \<rparr>) h' (s \<lparr> random_pos := random_pos s + 12, vbc := c \<rparr>)"
  have kt: "fs_key ?t = Some (k \<lparr> handle := h' \<rparr>)" using h by simp
  have ids: "data_ids c = data_ids (vbc s)" by (rule data_ids_cong[OF c(2)])
  have old: "u \<in> data_ids c \<and> sealed E k c u \<and> opened E k c u = Some e \<and> cluster_blk c u = ct'"
    if "W u = Some (e, ct')" "u \<noteq> v" for u e ct'
  proof -
    have "u \<in> data_ids (vbc s)" "sealed E k (vbc s) u" "opened E k (vbc s) u = Some e" "cluster_blk (vbc s) u = ct'"
      using ok that(1) by (auto simp: fmt_ok_def)
    then show ?thesis using c(6)[of u] that(2) ids by (simp add: sealed_def opened_def gcm_tag_def)
  qed
  have new: "sealed E k c v" using c(3,4) d by (simp add: sealed_def)
  have env: "store_env E c" using b(1) c(1,2) by (simp add: store_env_def)
  show thesis
  proof (rule that)
    show "write_blk E v d sync s = (Inr ct, ?t)" using c(7) b(4) by (simp add: seqE_def bindE_def retE_def)
    show "fmt_ok E k (W(v \<mapsto> (d, ct))) ?t"
      using b env kt old new c(4,8) v ids by (auto simp: fmt_ok_def split: if_splits)
    show "same_frame s ?t" using c(2) by (simp add: same_frame_def)
  qed (rule c(9))
qed

lemma fmt_read:
  assumes ok: "fmt_ok E k W s" and v: "W v = Some (d, ct)" and st: "FORMATTED \<le> status s"
  obtains t where "read_blk E v s = (Inr d, t)" "fmt_ok E k W t" "same_frame s t"
proof -
  obtain h where h: "fs_key s = Some (k \<lparr> handle := h \<rparr>)" using ok by (auto simp: fmt_ok_def)
  have b: "store_env E (vbc s)" "key_ok k" "\<not> use_mt E" using ok by (auto simp: fmt_ok_def)
  have w: "v \<in> data_ids (vbc s)" "sealed E k (vbc s) v" "opened E k (vbc s) v = Some d"
    using ok v by (auto simp: fmt_ok_def)
  have p: "length d = BLK_SZ" "tag_at (vbc s) v = gcm_tag E k (vbc s) v" using w(2,3) by (simp_all add: sealed_def)
  let ?h = "Some (iv_at (vbc s) v, vbid_aad v, cluster_blk (vbc s) v)"
  let ?t = "with_handle (k \<lparr> handle := h \<rparr>) ?h (fresh_vbc (fresh_vbc s))"
  have kt: "fs_key ?t = Some (k \<lparr> handle := ?h \<rparr>)" using h by simp
  have run: "read_blk E v s = (Inr d, ?t)"
    using read_blk_run[OF b(1) w(1) h _ st _ p(1)] b(2,3) w(3) p(2)
    by (simp add: Let_def seqE_def bindE_def retE_def)
  have "sealed E k (vbc ?t) u = sealed E k (vbc s) u" "opened E k (vbc ?t) u = opened E k (vbc s) u"
     "data_ids (vbc ?t) = data_ids (vbc s)" for u
    by (simp_all add: sealed_def opened_def gcm_tag_def data_ids_def)
  then have "fmt_ok E k W ?t" using ok kt by (auto simp: fmt_ok_def store_env_def)
  then show thesis by (rule that[OF run]) (simp add: same_frame_def)
qed

lemma fmt_chain:
  assumes "fmt_ok E k W s" "set vs \<subseteq> data_ids (vbc s)" "length buf = BLK_SZ" "distinct vs"
  shows "\<exists>b t W'. write_chain E vs buf s = (Inr b, t) \<and> fmt_ok E k W' t \<and> same_frame s t \<and>
    dom W' = dom W \<union> set vs \<and> (\<forall>u. u \<notin> set vs \<longrightarrow> W' u = W u) \<and>
    (\<forall>i < length vs. fst (the (W' (vs ! i))) = (if i = 0 then buf else snd (the (W' (vs ! (i - 1))))))"
  using assms
proof (induction vs arbitrary: W s buf)
  case Nil
  then show ?case by (auto simp: retE_def)
next
  case (Cons v vs)
  obtain ct t where t: "write_blk E v buf True s = (Inr ct, t)" "fmt_ok E k (W(v \<mapsto> (buf, ct))) t" "same_frame s t"
      "length ct = BLK_SZ" using fmt_write[OF Cons.prems(1) _ Cons.prems(3), of v True] Cons.prems(2) by auto
  have sub: "set vs \<subseteq> data_ids (vbc t)" "distinct vs" "v \<notin> set vs" using Cons.prems(2,4) same_frame_ids[OF t(3)] by auto
  obtain b u W' where u: "write_chain E vs ct t = (Inr b, u)" "fmt_ok E k W' u" "same_frame t u"
      "dom W' = insert v (dom W) \<union> set vs" "\<forall>x. x \<notin> set vs \<longrightarrow> W' x = (W(v \<mapsto> (buf, ct))) x"
      "\<forall>i < length vs. fst (the (W' (vs ! i))) = (if i = 0 then ct else snd (the (W' (vs ! (i - 1)))))"
    using Cons.IH[OF t(2) sub(1) t(4) sub(2)] by (auto simp del: fun_upd_apply)
  have wv: "W' v = Some (buf, ct)" using u(5) sub(3) by simp
  have chain: "fst (the (W' ((v # vs) ! i))) = (if i = 0 then buf else snd (the (W' ((v # vs) ! (i - 1)))))"
    if "i < length (v # vs)" for i
  proof (cases i)
    case 0
    then show ?thesis using wv by simp
  next
    case (Suc j)
    then show ?thesis using u(6)[rule_format, of j] that wv by (cases j) auto
  qed
  have run: "write_chain E (v # vs) buf s = (Inr b, u)" using t(1) u(1) by (simp add: bindE_def)
  have rest: "dom W' = dom W \<union> set (v # vs)" "\<forall>x. x \<notin> set (v # vs) \<longrightarrow> W' x = W x" using u(4,5) by auto
  show ?case
    by (intro exI[of _ b] exI[of _ u] exI[of _ W'] conjI)
      (use run u(2) same_frame_trans[OF t(3) u(3)] rest chain in auto)
qed

lemma fmt_burned:
  assumes "fmt_ok E k W s" "set vs \<subseteq> data_ids (vbc s)" "distinct vs"
  shows "\<exists>b t W'. write_burned E vs zero_blk s = (Inr b, t) \<and> fmt_ok E k W' t \<and> same_frame s t \<and>
    dom W' = dom W \<union> set vs \<and> (\<forall>u. u \<notin> set vs \<longrightarrow> W' u = W u) \<and> (\<forall>u \<in> set vs. fst (the (W' u)) = zero_blk)"
  using assms
proof (induction vs arbitrary: W s)
  case Nil
  then show ?case by (auto simp: retE_def)
next
  case (Cons v vs)
  obtain ct t where t: "write_blk E v zero_blk True s = (Inr ct, t)" "fmt_ok E k (W(v \<mapsto> (zero_blk, ct))) t" "same_frame s t"
      "length ct = BLK_SZ" using fmt_write[OF Cons.prems(1), of v zero_blk True] Cons.prems(2) by auto
  have sub: "set vs \<subseteq> data_ids (vbc t)" "distinct vs" "v \<notin> set vs" using Cons.prems(2,3) same_frame_ids[OF t(3)] by auto
  obtain b u W' where u: "write_burned E vs zero_blk t = (Inr b, u)" "fmt_ok E k W' u" "same_frame t u"
      "dom W' = insert v (dom W) \<union> set vs" "\<forall>x. x \<notin> set vs \<longrightarrow> W' x = (W(v \<mapsto> (zero_blk, ct))) x"
      "\<forall>x \<in> set vs. fst (the (W' x)) = zero_blk"
    using Cons.IH[OF t(2) sub(1,2)] by (auto simp del: fun_upd_apply)
  have run: "write_burned E (v # vs) zero_blk s = (Inr b, u)" using t(1,4) u(1) by (simp add: bindE_def)
  have rest: "dom W' = dom W \<union> set (v # vs)" "\<forall>x. x \<notin> set (v # vs) \<longrightarrow> W' x = W x"
    "\<forall>x \<in> set (v # vs). fst (the (W' x)) = zero_blk" using u(4,5,6) sub(3) by auto
  show ?case
    by (intro exI[of _ b] exI[of _ u] exI[of _ W'] conjI)
      (use run u(2) same_frame_trans[OF t(3) u(3)] rest in auto)
qed


section \<open>The parts of mkfs\<close>

definition root_inode :: "nat \<Rightarrow> inode" where
  "root_inode n = (Inode ROOT_INO 0 16895 1 0 0 0 0 2) \<lparr> i_blks := DATA_REL_START_BLK_NUM n # replicate 12 0 \<rparr>"

definition res_inode :: "nat \<Rightarrow> nat \<Rightarrow> inode" where
  "res_inode n b = (if b = ROOT_INO then root_inode n else Inode b 0 0 0 0 0 0 0 0)"

lemma reserved_inode_eq: "reserved_inode n b = Inr (res_inode n b)"
proof -
  have r: "replicate 13 (0 :: nat) = 0 # replicate 12 0" by (simp add: eval_nat_numeral)
  have m: "(16384 :: nat) OR 511 = 16895" by simp
  show ?thesis
    by (simp add: reserved_inode_def res_inode_def root_inode_def set_i_no_def set_i_blk_def set_i_links_def set_ref_cnt_def
      set_mode_def set_uid_def Inode_def Let_def layout_vals BFS__S_IFDIR_def r m)
qed

lemma res_inode_wf:
  assumes "n + 1 < 2 ^ 64" "DATA_REL_START_BLK_NUM n \<le> n" "b < 2 ^ 64"
  shows "inode_wf (res_inode n b)" "i_no (res_inode n b) = b"
  using assms by (auto simp: res_inode_def root_inode_def Inode_def inode_wf_def layout_vals)

lemma reserve_inos_ok:
  assumes "\<forall>b \<in> set bs. b < BLK_SZ_BITS" "length blk = BLK_SZ"
  shows "\<exists>blk'. reserve_inos n bs [blk] res = Inr ([blk'], res @ map (res_inode n) bs) \<and> length blk' = BLK_SZ \<and>
    (\<forall>j < BLK_SZ_BITS. bit_at blk' j \<longleftrightarrow> j \<in> set bs \<or> bit_at blk j)"
  using assms
proof (induction bs arbitrary: blk res)
  case Nil
  then show ?case by simp
next
  case (Cons b bs)
  have nb: "nbits blk = BLK_SZ_BITS" using Cons.prems(2) by (simp add: nbits_def BLK_SZ_BITS_def)
  have b: "b < BLK_SZ_BITS" using Cons.prems(1) by simp
  then have bn: "b < nbits blk" by (simp add: nb)
  obtain blk1 where 1: "bfs_set_bit b blk = Inr blk1" "length blk1 = BLK_SZ"
      "\<And>j. j < BLK_SZ_BITS \<Longrightarrow> bit_at blk1 j = (j = b \<or> bit_at blk j)"
    by (rule bfs_set_bit_ok[OF bn]) (use Cons.prems(2) nb in auto)
  have set: "ibm_set_bit b [blk] = Inr [blk1]" using b 1(1) by (simp add: ibm_set_bit_def)
  have rest: "\<forall>b \<in> set bs. b < BLK_SZ_BITS" using Cons.prems(1) by simp
  obtain blk2 where 2: "reserve_inos n bs [blk1] (res @ [res_inode n b]) = Inr ([blk2], (res @ [res_inode n b]) @ map (res_inode n) bs)"
      "length blk2 = BLK_SZ" "\<forall>j < BLK_SZ_BITS. bit_at blk2 j \<longleftrightarrow> j \<in> set bs \<or> bit_at blk1 j"
    using Cons.IH[OF rest 1(2), of "res @ [res_inode n b]"] by blast
  show ?case
    using 2 1(3) by (intro exI[of _ blk2]) (auto simp: set reserved_inode_eq)
qed

lemma put_inodes_ok:
  assumes "distinct (map fst ps)" "\<forall>p \<in> set ps. inode_wf (snd p) \<and> fst p < 16" "length blk = BLK_SZ"
  shows "\<exists>b. put_inodes ps blk = Inr b \<and> length b = BLK_SZ \<and>
    (\<forall>p \<in> set ps. inode_deserialize (ITAB_ABSOLUTE_BLK_OFF (fst p)) b = Inr (snd p \<lparr> i_dirty := False \<rparr>, 168)) \<and>
    (\<forall>j < 16. j \<notin> fst ` set ps \<longrightarrow> chunk (ITAB_ABSOLUTE_BLK_OFF j) 168 b = chunk (ITAB_ABSOLUTE_BLK_OFF j) 168 blk)"
  using assms
proof (induction ps arbitrary: blk)
  case Nil
  then show ?case by simp
next
  case (Cons p ps)
  let ?o = "ITAB_ABSOLUTE_BLK_OFF (fst p)"
  have p: "inode_wf (snd p)" "fst p < 16" "fst p \<notin> fst ` set ps" using Cons.prems(1,2) by auto
  have fit: "?o + 168 \<le> length blk" using itab_slot(1)[of "fst p"] Cons.prems(3) by simp
  have el: "length (inode_enc (snd p)) = 168" by (rule inc.len[OF p(1)])
  define b1 where "b1 = blit ?o (inode_enc (snd p)) blk"
  have l1: "length b1 = BLK_SZ" using fit el Cons.prems(3) by (simp add: b1_def)
  have rest: "distinct (map fst ps)" "\<forall>q \<in> set ps. inode_wf (snd q) \<and> fst q < 16" using Cons.prems(1,2) by auto
  obtain b where b: "put_inodes ps b1 = Inr b" "length b = BLK_SZ"
      "\<forall>q \<in> set ps. inode_deserialize (ITAB_ABSOLUTE_BLK_OFF (fst q)) b = Inr (snd q \<lparr> i_dirty := False \<rparr>, 168)"
      "\<forall>j < 16. j \<notin> fst ` set ps \<longrightarrow> chunk (ITAB_ABSOLUTE_BLK_OFF j) 168 b = chunk (ITAB_ABSOLUTE_BLK_OFF j) 168 b1"
    using Cons.IH[OF rest l1] by blast
  have same: "chunk (ITAB_ABSOLUTE_BLK_OFF j) 168 b1 = chunk (ITAB_ABSOLUTE_BLK_OFF j) 168 blk" if "j < 16" "j \<noteq> fst p" for j
  proof -
    have "ITAB_ABSOLUTE_BLK_LOC j = ITAB_ABSOLUTE_BLK_LOC (fst p)" using that(1) p(2) by (simp add: ITAB_ABSOLUTE_BLK_LOC_def layout_vals)
    from itab_slot(2)[OF this that(2)] show ?thesis
      unfolding b1_def by (intro chunk_blit_disjoint) (use itab_slot(1)[of j] fit el Cons.prems(3) in auto)
  qed
  have "chunk ?o 168 b = inode_enc (snd p)" using b(4) p(2,3) fit el by (simp add: b1_def buf_simps)
  then have own: "inode_deserialize ?o b = Inr (snd p \<lparr> i_dirty := False \<rparr>, 168)"
    by (intro inc.des[OF p(1)]) (use fit b(2) Cons.prems(3) in auto)
  have run: "put_inodes (p # ps) blk = Inr b"
    using b(1) inc.ser[OF p(1) fit] by (simp add: b1_def layout_vals)
  show ?case
    by (intro exI[of _ b] conjI) (use run b(2,3,4) own same in auto)
qed

lemma sb_enc_length [simp]: "length (enc_fields (sb_fields x)) = 128"
  by simp

lemma mkfs_superblock_wf: "n + 1 < 2 ^ 64 \<Longrightarrow> DATA_REL_START_BLK_NUM n < n \<Longrightarrow> sb_wf (mkfs_superblock g n)"
  using data_blocks_sum[of n]
  by (simp add: sb_wf_def mkfs_superblock_def set_state_def set_reserved_inos_def set_sb_params_def set_magic_def SuperBlock_def
    layout_defs BFS_SB_MAGIC_def)

definition super_blk :: "nat \<Rightarrow> byte list" where
  "super_blk n = blit 0 (enc_fields (sb_fields (mkfs_superblock 0 n))) zero_blk"

lemma low_ids: "store_env E c \<Longrightarrow> v < METADATA_REL_START_BLK_NUM \<Longrightarrow> v \<in> data_ids c"
  by (auto simp: store_env_def data_ids_def DATA_REL_START_BLK_NUM_def)

lemma mkfs_super_ok:
  assumes ok: "fmt_ok E k W s" and n: "n = maxBlockID (vbc s)" "n + 1 < 2 ^ 64" "DATA_REL_START_BLK_NUM n < n"
  shows "\<exists>t W'. mkfs_super E n s = (Inr 1, t) \<and> fmt_ok E k W' t \<and> same_frame s t \<and> dom W' = dom W \<union> {0, 1} \<and>
    (\<forall>u. u \<notin> {0, 1} \<longrightarrow> W' u = W u) \<and> fst (the (W' 0)) = super_blk n"
proof -
  have env: "store_env E (vbc s)" using ok by (simp add: fmt_ok_def)
  have ser: "sb_serialize (mkfs_superblock 0 n) 0 zero_blk = Inr (128, super_blk n)"
    using sbc.ser[OF mkfs_superblock_wf[OF n(2,3)], of 0 zero_blk] by (simp add: super_blk_def layout_vals)
  have len: "length (super_blk n) = BLK_SZ" by (simp add: super_blk_def layout_vals)
  have i: "0 \<in> data_ids (vbc s)" "1 \<in> data_ids (vbc s)" using low_ids[OF env] by (simp_all add: layout_vals)
  obtain ct t where t: "write_blk E 0 (super_blk n) True s = (Inr ct, t)" "fmt_ok E k (W(0 \<mapsto> (super_blk n, ct))) t" "same_frame s t"
    by (rule fmt_write[OF ok i(1) len])
  have i1: "1 \<in> data_ids (vbc t)" using i(2) same_frame_ids[OF t(3)] by simp
  obtain ct2 u where u: "write_blk E 1 zero_blk True t = (Inr ct2, u)"
      "fmt_ok E k (W(0 \<mapsto> (super_blk n, ct), 1 \<mapsto> (zero_blk, ct2))) u" "same_frame t u"
    by (rule fmt_write[OF t(2) i1]) auto
  have sz: "128 \<le> SB_SZ" by (simp add: SB_SZ_def layout_vals)
  have run: "mkfs_super E n s = (Inr 1, u)"
    using t(1) u(1) sz
    by (simp add: mkfs_super_def ser SB_REL_START_BLK_NUM_def Let_def bindE_def seqE_def liftS_def guardE_def retE_def)
  show ?thesis
    by (intro exI[of _ u] exI[of _ "W(0 \<mapsto> (super_blk n, ct), 1 \<mapsto> (zero_blk, ct2))"] conjI)
      (use run u(2) same_frame_trans[OF t(3) u(3)] in auto)
qed

text \<open>A block that is given, then a chain of blocks that starts with zeros.\<close>

definition chained :: "blk_log \<Rightarrow> nat \<Rightarrow> nat \<Rightarrow> bool" where
  "chained W a b \<longleftrightarrow> (a < b \<longrightarrow> fst (the (W a)) = zero_blk) \<and> (\<forall>v. a \<le> v \<longrightarrow> v + 1 < b \<longrightarrow> fst (the (W (v + 1))) = snd (the (W v)))"

lemma chained_cong: "chained W a b \<Longrightarrow> (\<And>v. a \<le> v \<Longrightarrow> v < b \<Longrightarrow> W' v = W v) \<Longrightarrow> chained W' a b"
  by (simp add: chained_def)

lemma fmt_range:
  assumes ok: "fmt_ok E k W s" and a: "{a..<a + m} \<subseteq> data_ids (vbc s)" "0 < m" and blk: "length blk = BLK_SZ"
  shows "\<exists>ct b s' t W'. write_blk E a blk True s = (Inr ct, s') \<and> length ct = BLK_SZ \<and>
    write_chain E [a + 1..<a + m] zero_blk s' = (Inr b, t) \<and> fmt_ok E k W' t \<and> same_frame s t \<and>
    dom W' = dom W \<union> {a..<a + m} \<and> (\<forall>u. u \<notin> {a..<a + m} \<longrightarrow> W' u = W u) \<and> fst (the (W' a)) = blk \<and> chained W' (a + 1) (a + m)"
proof -
  have i: "a \<in> data_ids (vbc s)" using a by auto
  obtain ct t where t: "write_blk E a blk True s = (Inr ct, t)" "fmt_ok E k (W(a \<mapsto> (blk, ct))) t" "same_frame s t" "length ct = BLK_SZ"
    by (rule fmt_write[OF ok i blk])
  have sub: "set [a + 1..<a + m] \<subseteq> data_ids (vbc t)" using a(1) same_frame_ids[OF t(3)] by auto
  obtain b u W' where u: "write_chain E [a + 1..<a + m] zero_blk t = (Inr b, u)" "fmt_ok E k W' u" "same_frame t u"
      "dom W' = dom (W(a \<mapsto> (blk, ct))) \<union> set [a + 1..<a + m]"
      "\<forall>v. v \<notin> set [a + 1..<a + m] \<longrightarrow> W' v = (W(a \<mapsto> (blk, ct))) v"
      "\<forall>i < length [a + 1..<a + m]. fst (the (W' ([a + 1..<a + m] ! i))) =
         (if i = 0 then zero_blk else snd (the (W' ([a + 1..<a + m] ! (i - 1)))))"
    using fmt_chain[OF t(2) sub, of zero_blk] by (auto simp del: fun_upd_apply upt_Suc)
  have ch: "chained W' (a + 1) (a + m)" unfolding chained_def
  proof (intro conjI allI impI)
    assume "a + 1 < a + m"
    then show "fst (the (W' (a + 1))) = zero_blk" using u(6)[rule_format, of 0] by simp
  next
    fix v assume v: "a + 1 \<le> v" "v + 1 < a + m"
    then have "v - a < length [a + 1..<a + m]" "v - a \<noteq> 0" by auto
    with u(6)[rule_format, of "v - a"] v show "fst (the (W' (v + 1))) = snd (the (W' v))" by (simp del: upt_Suc)
  qed
  have dm: "dom W' = dom W \<union> {a..<a + m}" using u(4) a(2) by auto
  have fr: "W' v = W v" if "v \<notin> {a..<a + m}" for v using u(5) that a(2) by auto
  have own: "fst (the (W' a)) = blk" using u(5) by simp
  show ?thesis
    using t(1,4) u(1,2) same_frame_trans[OF t(3) u(3)] dm fr own ch
    by (intro exI[of _ ct] exI[of _ b] exI[of _ t] exI[of _ u] exI[of _ W']) auto
qed

lemma mkfs_ibm_ok:
  assumes ok: "fmt_ok E k W s" and ids: "{t + 1..<t + 1 + NUM_IBITMAP_BLOCKS} \<subseteq> data_ids (vbc s)"
  shows "\<exists>u W'. mkfs_ibm E n t s = (Inr (t + 1 + (NUM_IBITMAP_BLOCKS - 1), map (res_inode n) [0..<FIRST_UNRESERVED_INO]), u) \<and>
    fmt_ok E k W' u \<and> same_frame s u \<and> dom W' = dom W \<union> {t + 1..<t + 1 + NUM_IBITMAP_BLOCKS} \<and>
    (\<forall>v. v \<notin> {t + 1..<t + 1 + NUM_IBITMAP_BLOCKS} \<longrightarrow> W' v = W v) \<and>
    (\<forall>j < BLK_SZ_BITS. bit_at (fst (the (W' (t + 1)))) j \<longleftrightarrow> j < FIRST_UNRESERVED_INO) \<and>
    chained W' (t + 2) (t + 1 + NUM_IBITMAP_BLOCKS)"
proof -
  have z: "\<not> bit_at zero_blk j" if "j < BLK_SZ_BITS" for j
    using that by (simp add: bit_at_def BLK_SZ_BITS_def less_mult_imp_div_less)
  have fu: "\<forall>b \<in> set [0..<FIRST_UNRESERVED_INO]. b < BLK_SZ_BITS" by (simp add: layout_defs)
  obtain blk where blk: "reserve_inos n [0..<FIRST_UNRESERVED_INO] [zero_blk] [] = Inr ([blk], map (res_inode n) [0..<FIRST_UNRESERVED_INO])"
      "length blk = BLK_SZ" "\<forall>j < BLK_SZ_BITS. bit_at blk j \<longleftrightarrow> j < FIRST_UNRESERVED_INO"
    using reserve_inos_ok[OF fu, of zero_blk n "[]"] z by (auto simp del: upt_Suc)
  have pos: "0 < NUM_IBITMAP_BLOCKS" by (simp add: layout_vals)
  obtain ct b s' u W' where r: "write_blk E (t + 1) blk True s = (Inr ct, s')" "length ct = BLK_SZ"
      "write_chain E [t + 1 + 1..<t + 1 + NUM_IBITMAP_BLOCKS] zero_blk s' = (Inr b, u)" "fmt_ok E k W' u" "same_frame s u"
      "dom W' = dom W \<union> {t + 1..<t + 1 + NUM_IBITMAP_BLOCKS}" "\<forall>v. v \<notin> {t + 1..<t + 1 + NUM_IBITMAP_BLOCKS} \<longrightarrow> W' v = W v"
      "fst (the (W' (t + 1))) = blk" "chained W' (t + 1 + 1) (t + 1 + NUM_IBITMAP_BLOCKS)"
    using fmt_range[OF ok ids pos blk(2)] by blast
  have run: "mkfs_ibm E n t s = (Inr (t + 1 + (NUM_IBITMAP_BLOCKS - 1), map (res_inode n) [0..<FIRST_UNRESERVED_INO]), u)"
    unfolding mkfs_ibm_def append_ibm_blk_def bindE_def seqE_def liftS_def retE_def Let_def
    using blk(1) r(1-3) by (simp del: upt_Suc add_Suc_right add_2_eq_Suc')
  show ?thesis
    by (intro exI[of _ u] exI[of _ W'] conjI) (use run r(4-9) blk(3) in simp_all)
qed

lemma mkfs_itab_ok:
  assumes ok: "fmt_ok E k W s" and ids: "{t + 1..<t + 1 + NUM_ITAB_BLOCKS} \<subseteq> data_ids (vbc s)"
    and n: "n + 1 < 2 ^ 64" "DATA_REL_START_BLK_NUM n \<le> n"
  shows "\<exists>u W'. mkfs_itab E (map (res_inode n) [0..<FIRST_UNRESERVED_INO]) t s = (Inr (t + 1 + (NUM_ITAB_BLOCKS - 1)), u) \<and>
    fmt_ok E k W' u \<and> same_frame s u \<and> dom W' = dom W \<union> {t + 1..<t + 1 + NUM_ITAB_BLOCKS} \<and>
    (\<forall>v. v \<notin> {t + 1..<t + 1 + NUM_ITAB_BLOCKS} \<longrightarrow> W' v = W v) \<and>
    (\<forall>j < FIRST_UNRESERVED_INO. inode_deserialize (ITAB_ABSOLUTE_BLK_OFF j) (fst (the (W' (t + 1)))) =
       Inr (res_inode n j \<lparr> i_dirty := False \<rparr>, 168)) \<and>
    chained W' (t + 2) (t + 1 + NUM_ITAB_BLOCKS)"
proof -
  let ?ps = "zip [0..<FIRST_UNRESERVED_INO] (map (res_inode n) [0..<FIRST_UNRESERVED_INO])"
  have fu: "FIRST_UNRESERVED_INO = 8" by (simp add: layout_defs)
  have d: "distinct (map fst ?ps)" by simp
  have w: "\<forall>p \<in> set ?ps. inode_wf (snd p) \<and> fst p < 16"
    by (auto simp: set_zip fu intro!: res_inode_wf n)
  obtain blk where blk: "put_inodes ?ps zero_blk = Inr blk" "length blk = BLK_SZ"
      "\<forall>p \<in> set ?ps. inode_deserialize (ITAB_ABSOLUTE_BLK_OFF (fst p)) blk = Inr (snd p \<lparr> i_dirty := False \<rparr>, 168)"
    using put_inodes_ok[OF d w, of zero_blk] by auto
  have slot: "inode_deserialize (ITAB_ABSOLUTE_BLK_OFF j) blk = Inr (res_inode n j \<lparr> i_dirty := False \<rparr>, 168)"
    if "j < FIRST_UNRESERVED_INO" for j
  proof -
    have "(j, res_inode n j) \<in> set ?ps" using that by (auto simp: set_zip intro!: exI[of _ j])
    then show ?thesis using blk(3) by fastforce
  qed
  have pos: "0 < NUM_ITAB_BLOCKS" by (simp add: layout_vals)
  obtain ct b s' u W' where r: "write_blk E (t + 1) blk True s = (Inr ct, s')" "length ct = BLK_SZ"
      "write_chain E [t + 1 + 1..<t + 1 + NUM_ITAB_BLOCKS] zero_blk s' = (Inr b, u)" "fmt_ok E k W' u" "same_frame s u"
      "dom W' = dom W \<union> {t + 1..<t + 1 + NUM_ITAB_BLOCKS}" "\<forall>v. v \<notin> {t + 1..<t + 1 + NUM_ITAB_BLOCKS} \<longrightarrow> W' v = W v"
      "fst (the (W' (t + 1))) = blk" "chained W' (t + 1 + 1) (t + 1 + NUM_ITAB_BLOCKS)"
    using fmt_range[OF ok ids pos blk(2)] by blast
  have run: "mkfs_itab E (map (res_inode n) [0..<FIRST_UNRESERVED_INO]) t s = (Inr (t + 1 + (NUM_ITAB_BLOCKS - 1)), u)"
    unfolding mkfs_itab_def bindE_def seqE_def liftS_def retE_def Let_def
    using blk(1) r(1-3) by (simp del: upt_Suc add_Suc_right add_2_eq_Suc')
  show ?thesis
    by (intro exI[of _ u] exI[of _ W'] conjI) (use run r(4-9) slot in simp_all)
qed

text \<open>The entries of a directory block that mounting looks at.\<close>

definition dots_blk :: "byte list \<Rightarrow> bool" where
  "dots_blk b \<longleftrightarrow> length b = BLK_SZ \<and> de_deserialize (DENTRY_ABSOLUTE_BLK_OFF 0) b = Inr ((''.'', ROOT_INO), DIRENT_SZ) \<and>
     de_deserialize (DENTRY_ABSOLUTE_BLK_OFF 1) b = Inr ((''..'', ROOT_INO), DIRENT_SZ)"

lemma dots_serialize:
  assumes "de_wf x" "de_wf y" "de_name x = ''.''" "de_name y = ''..''" "de_ino x = ROOT_INO" "de_ino y = ROOT_INO"
  shows "\<exists>b1 b. de_serialize x (DENTRY_ABSOLUTE_BLK_OFF 0) zero_blk = Inr (DIRENT_SZ, b1) \<and>
    de_serialize y (DENTRY_ABSOLUTE_BLK_OFF 1) b1 = Inr (DIRENT_SZ, b) \<and> dots_blk b"
proof -
  have sz: "DIRENT_SZ = 263" "BLK_SZ = 4096" by (simp_all add: layout_defs)
  define b1 where "b1 = blit (0 * 263) (de_enc x) zero_blk"
  have el: "length (de_enc x) = 263" by (rule dec.len[OF assms(1)])
  have 1: "de_serialize x (0 * 263) zero_blk = Inr (263, b1)" unfolding b1_def by (rule dec.ser[OF assms(1)]) (simp add: sz)
  have l1: "length b1 = BLK_SZ" "chunk (0 * 263) 263 b1 = de_enc x" using el by (simp_all add: b1_def sz buf_simps)
  obtain b where 2: "de_serialize y (1 * 263) b1 = Inr (263, b)" "length b = length b1"
      "de_deserialize (1 * 263) b = Inr ((de_name y, de_ino y), 263)" "de_deserialize (0 * 263) b = Inr ((de_name x, de_ino x), 263)"
    using dec.slots[OF assms(2,1), of 1 0 263 b1] l1 by (auto simp: sz)
  show ?thesis
    by (intro exI[of _ b1] exI[of _ b] conjI)
      (use 1 2 assms l1(1) in \<open>simp_all add: dots_blk_def DENTRY_ABSOLUTE_BLK_OFF_def sz(1)\<close>)
qed

lemma mkfs_root_ok:
  assumes ok: "fmt_ok E k W s" and d: "DATA_REL_START_BLK_NUM n \<in> data_ids (vbc s)"
    and t: "t = METADATA_REL_START_BLK_NUM - 1" "res ! ROOT_INO = root_inode n"
  shows "\<exists>u W'. mkfs_root E n res t s = (Inr (DATA_REL_START_BLK_NUM n), u) \<and> fmt_ok E k W' u \<and> same_frame s u \<and>
    dom W' = insert (DATA_REL_START_BLK_NUM n) (dom W) \<and> (\<forall>v. v \<noteq> DATA_REL_START_BLK_NUM n \<longrightarrow> W' v = W v) \<and>
    dots_blk (fst (the (W' (DATA_REL_START_BLK_NUM n))))"
proof -
  let ?de = "DirEntry ''.'' (i_no (res ! ROOT_INO)) (DATA_REL_START_BLK_NUM n) 0"
  let ?de2 = "set_blk_idx_loc 1 (set_de_name ''..'' ?de)"
  have ino: "i_no (res ! ROOT_INO) = ROOT_INO" using t(2) by (simp add: root_inode_def Inode_def)
  have wf: "de_wf ?de" "de_wf ?de2"
    using ino by (simp_all add: de_wf_def DirEntry_def set_blk_idx_loc_def set_de_name_def layout_defs)
  have nm: "de_name ?de = ''.''" "de_name ?de2 = ''..''" "de_ino ?de = ROOT_INO" "de_ino ?de2 = ROOT_INO"
    using ino by (simp_all add: DirEntry_def set_blk_idx_loc_def set_de_name_def)
  obtain b1 b where b: "de_serialize ?de (DENTRY_ABSOLUTE_BLK_OFF 0) zero_blk = Inr (DIRENT_SZ, b1)"
      "de_serialize ?de2 (DENTRY_ABSOLUTE_BLK_OFF 1) b1 = Inr (DIRENT_SZ, b)" "dots_blk b"
    using dots_serialize[OF wf nm] by blast
  have len: "length b = BLK_SZ" using b(3) by (simp add: dots_blk_def)
  have tt: "t + NUM_META_BLOCKS n + 1 = DATA_REL_START_BLK_NUM n" using t(1) by (simp add: layout_defs)
  obtain ct u where u: "write_blk E (DATA_REL_START_BLK_NUM n) b True s = (Inr ct, u)"
      "fmt_ok E k (W(DATA_REL_START_BLK_NUM n \<mapsto> (b, ct))) u" "same_frame s u"
    by (rule fmt_write[OF ok d len])
  have run: "mkfs_root E n res t s = (Inr (DATA_REL_START_BLK_NUM n), u)"
    unfolding mkfs_root_def Let_def tt bindE_def seqE_def liftS_def guardE_def retE_def
    using b(1,2) u(1) t(1) by simp
  show ?thesis
    by (intro exI[of _ u] exI[of _ "W(DATA_REL_START_BLK_NUM n \<mapsto> (b, ct))"] conjI) (use run u(2,3) b(3) in auto)
qed

text \<open>A formatted device.\<close>

definition formatted_low :: "nat \<Rightarrow> blk_log \<Rightarrow> bool" where
  "formatted_low n W \<longleftrightarrow> fst (the (W SB_REL_START_BLK_NUM)) = super_blk n \<and>
     (\<forall>j < BLK_SZ_BITS. bit_at (fst (the (W IBM_REL_START_BLK_NUM))) j \<longleftrightarrow> j < FIRST_UNRESERVED_INO) \<and>
     chained W (IBM_REL_START_BLK_NUM + 1) ITAB_REL_START_BLK_NUM \<and>
     (\<forall>j < FIRST_UNRESERVED_INO. inode_deserialize (ITAB_ABSOLUTE_BLK_OFF j) (fst (the (W ITAB_REL_START_BLK_NUM))) =
       Inr (res_inode n j \<lparr> i_dirty := False \<rparr>, 168)) \<and>
     chained W (ITAB_REL_START_BLK_NUM + 1) METADATA_REL_START_BLK_NUM"

definition formatted :: "nat \<Rightarrow> blk_log \<Rightarrow> bool" where
  "formatted n W \<longleftrightarrow> formatted_low n W \<and> dots_blk (fst (the (W (DATA_REL_START_BLK_NUM n)))) \<and>
     (\<forall>v. DATA_REL_START_BLK_NUM n < v \<longrightarrow> v < n \<longrightarrow> fst (the (W v)) = zero_blk)"

text \<open>A new handle, with a key, on a device that has room for the fixed areas and a data block.\<close>

definition fresh_device :: "bfs_env \<Rightarrow> ckey \<Rightarrow> 'z core_blk_scheme \<Rightarrow> bool" where
  "fresh_device E k s \<longleftrightarrow> store_env E (vbc s) \<and> gcm_ok (env_gcrypt E) \<and> key_ok k \<and> (\<exists>h. fs_key s = Some (k \<lparr> handle := h \<rparr>)) \<and>
     status s = INITIALIZED \<and> DATA_REL_START_BLK_NUM (maxBlockID (vbc s)) < maxBlockID (vbc s) \<and> maxBlockID (vbc s) + 1 < 2 ^ 64"

lemma fresh_device_fmt: "fresh_device E k s \<Longrightarrow> \<not> use_mt E \<Longrightarrow> fmt_ok E k Map.empty s"
  by (simp add: fresh_device_def fmt_ok_def)

lemma fmt_ok_status [simp]: "fmt_ok E k W (s \<lparr> status := x \<rparr>) = fmt_ok E k W s"
  by (simp add: fmt_ok_def fs_key_def)

lemma fmt_ok_key: "fmt_ok E k W s \<Longrightarrow> \<exists>k'. need_key s = (Inr k', s)"
  by (auto simp: fmt_ok_def dest!: need_key_run)

lemma region_vals: "SB_REL_START_BLK_NUM = 0" "IBM_REL_START_BLK_NUM = 2" "NUM_IBITMAP_BLOCKS = 4" "ITAB_REL_START_BLK_NUM = 6"
  "NUM_ITAB_BLOCKS = 6250" "METADATA_REL_START_BLK_NUM = 6256"
  by (simp_all add: layout_defs)

lemma formatted_low_cong:
  assumes "formatted_low n W" "\<And>v. v < 6256 \<Longrightarrow> W' v = W v"
  shows "formatted_low n W'"
  using assms chained_cong[of W 3 6 W'] chained_cong[of W 7 6256 W'] by (simp add: formatted_low_def region_vals)

text \<open>The superblock, the bitmap and the inode table.\<close>

lemma mkfs_low:
  assumes ok: "fmt_ok E k Map.empty s" and n: "n = maxBlockID (vbc s)" "DATA_REL_START_BLK_NUM n < n" "n + 1 < 2 ^ 64"
  shows "\<exists>s1 s2 t W. mkfs_super E n s = (Inr 1, s1) \<and>
    mkfs_ibm E n 1 s1 = (Inr (5, map (res_inode n) [0..<FIRST_UNRESERVED_INO]), s2) \<and>
    mkfs_itab E (map (res_inode n) [0..<FIRST_UNRESERVED_INO]) 5 s2 = (Inr 6255, t) \<and>
    fmt_ok E k W t \<and> same_frame s t \<and> dom W = {v. v < 6256} \<and> formatted_low n W"
proof -
  have env: "store_env E (vbc s)" using ok by (simp add: fmt_ok_def)
  obtain s1 W1 where s1: "mkfs_super E n s = (Inr 1, s1)" "fmt_ok E k W1 s1" "same_frame s s1" "dom W1 = {0, 1}" "fst (the (W1 0)) = super_blk n"
    using mkfs_super_ok[OF ok n(1,3,2)] by auto
  have i1: "{1 + 1..<1 + 1 + NUM_IBITMAP_BLOCKS} \<subseteq> data_ids (vbc s1)"
    using low_ids[OF env] same_frame_ids[OF s1(3)] by (auto simp: region_vals)
  obtain s2 W2 where s2: "mkfs_ibm E n 1 s1 = (Inr (5, map (res_inode n) [0..<FIRST_UNRESERVED_INO]), s2)" "fmt_ok E k W2 s2" "same_frame s1 s2"
      "dom W2 = dom W1 \<union> {2..<6}" "\<forall>v. v \<notin> {2..<6} \<longrightarrow> W2 v = W1 v"
      "\<forall>j < BLK_SZ_BITS. bit_at (fst (the (W2 2))) j \<longleftrightarrow> j < FIRST_UNRESERVED_INO" "chained W2 3 6"
    using mkfs_ibm_ok[OF s1(2) i1, of n] by (auto simp: region_vals simp del: upt_Suc One_nat_def)
  have i2: "{5 + 1..<5 + 1 + NUM_ITAB_BLOCKS} \<subseteq> data_ids (vbc s2)"
    using low_ids[OF env] same_frame_ids[OF s1(3)] same_frame_ids[OF s2(3)] by (auto simp: region_vals)
  obtain s3 W3 where s3: "mkfs_itab E (map (res_inode n) [0..<FIRST_UNRESERVED_INO]) 5 s2 = (Inr 6255, s3)" "fmt_ok E k W3 s3" "same_frame s2 s3"
      "dom W3 = dom W2 \<union> {6..<6256}" "\<forall>v. v \<notin> {6..<6256} \<longrightarrow> W3 v = W2 v"
      "\<forall>j < FIRST_UNRESERVED_INO. inode_deserialize (ITAB_ABSOLUTE_BLK_OFF j) (fst (the (W3 6))) = Inr (res_inode n j \<lparr> i_dirty := False \<rparr>, 168)"
      "chained W3 7 6256"
    using mkfs_itab_ok[OF s2(2) i2 n(3) less_imp_le[OF n(2)]] by (auto simp: region_vals simp del: upt_Suc)
  have fr: "same_frame s s3" using same_frame_trans[OF s1(3)] same_frame_trans[OF s2(3) s3(3)] by blast
  have low: "W3 v = W2 v" if "v < 6" for v using s3(5) that by auto
  have z: "fst (the (W3 0)) = super_blk n" using low[of 0] s2(5) s1(5) by auto
  have "formatted_low n W3"
    unfolding formatted_low_def region_vals
    using z s3(6,7) s2(6) low[of 2] chained_cong[OF s2(7), of W3] low by simp
  moreover have "dom W3 = {v. v < 6256}" unfolding s3(4) s2(4) s1(4) by auto
  ultimately show ?thesis using s1(1) s2(1) s3(1,2) fr by blast
qed

text \<open>The root directory and the zero blocks behind it.\<close>

lemma mkfs_high:
  assumes ok: "fmt_ok E k W s" "dom W = {v. v < 6256}" "formatted_low n W"
    and n: "n = maxBlockID (vbc s)" "DATA_REL_START_BLK_NUM n < n" "res ! ROOT_INO = root_inode n"
  shows "\<exists>t u W'. mkfs_root E n res 6255 s = (Inr (DATA_REL_START_BLK_NUM n), t) \<and>
    mkfs_rest E n (DATA_REL_START_BLK_NUM n) t = (Inr (), u) \<and>
    fmt_ok E k W' u \<and> same_frame s u \<and> dom W' = data_ids (vbc s) \<and> formatted n W'"
proof -
  let ?d = "DATA_REL_START_BLK_NUM n"
  have d: "?d \<in> data_ids (vbc s)" "6256 < ?d" using n(1,2) by (auto simp: data_ids_def layout_defs)
  obtain s4 W4 where s4: "mkfs_root E n res 6255 s = (Inr ?d, s4)" "fmt_ok E k W4 s4" "same_frame s s4"
      "dom W4 = insert ?d (dom W)" "\<forall>v. v \<noteq> ?d \<longrightarrow> W4 v = W v" "dots_blk (fst (the (W4 ?d)))"
    using mkfs_root_ok[OF ok(1) d(1) refl n(3)] by (auto simp: region_vals)
  have i4: "set [?d + 1..<n] \<subseteq> data_ids (vbc s4)" unfolding same_frame_ids[OF s4(3)] n(1) by (auto simp: data_ids_def)
  obtain b s5 W5 where s5: "write_burned E [?d + 1..<n] zero_blk s4 = (Inr b, s5)" "fmt_ok E k W5 s5" "same_frame s4 s5"
      "dom W5 = dom W4 \<union> set [?d + 1..<n]" "\<forall>v. v \<notin> set [?d + 1..<n] \<longrightarrow> W5 v = W4 v" "\<forall>v \<in> set [?d + 1..<n]. fst (the (W5 v)) = zero_blk"
    using fmt_burned[OF s4(2) i4] by auto
  have "W5 v = W v" if "v < 6256" for v using s5(5) s4(5) that d(2) by auto
  then have "formatted n W5"
    using formatted_low_cong[OF ok(3), of W5] s5(5,6) s4(6) by (auto simp: formatted_def)
  moreover have "dom W5 = data_ids (vbc s)"
    unfolding s5(4) s4(4) ok(2) data_ids_def region_vals n(1)[symmetric] using d(2) n(2) by auto
  moreover have "mkfs_rest E n ?d s4 = (Inr (), s5)" using s5(1) by (simp add: mkfs_rest_def seqE_def bindE_def retE_def)
  ultimately show ?thesis using s4(1) s5(2) same_frame_trans[OF s4(3) s5(3)] by blast
qed

lemma mkfs_ok:
  assumes "fresh_device E k s" "\<not> use_mt E"
  shows "\<exists>t W. mkfs E s = (Inr (), t) \<and> fmt_ok E k W t \<and> status t = FORMATTED \<and> core_blk.more t = core_blk.more s \<and>
    maxBlockID (vbc t) = maxBlockID (vbc s) \<and> dom W = data_ids (vbc t) \<and> formatted (maxBlockID (vbc s)) W"
proof -
  let ?n = "maxBlockID (vbc s)" and ?s = "s \<lparr> status := FORMATTING \<rparr>"
  let ?res = "map (res_inode ?n) [0..<FIRST_UNRESERVED_INO]"
  have f: "status s = INITIALIZED" "DATA_REL_START_BLK_NUM ?n < ?n" "?n + 1 < 2 ^ 64" "\<not> use_mt E"
    using assms by (auto simp: fresh_device_def)
  have ok: "fmt_ok E k Map.empty ?s" using fresh_device_fmt[OF assms] by simp
  obtain k' where k: "need_key ?s = (Inr k', ?s)" using fmt_ok_key[OF ok] by blast
  have rt: "?res ! ROOT_INO = root_inode ?n" by (simp add: res_inode_def layout_defs)
  obtain s1 s2 s3 W3 where l: "mkfs_super E ?n ?s = (Inr 1, s1)" "mkfs_ibm E ?n 1 s1 = (Inr (5, ?res), s2)" "mkfs_itab E ?res 5 s2 = (Inr 6255, s3)"
      "fmt_ok E k W3 s3" "same_frame ?s s3" "dom W3 = {v. v < 6256}" "formatted_low ?n W3"
    using mkfs_low[OF ok _ f(2,3)] by (auto simp del: upt_Suc)
  have m3: "?n = maxBlockID (vbc s3)" using l(5) by (simp add: same_frame_def)
  obtain s4 s5 W5 where h: "mkfs_root E ?n ?res 6255 s3 = (Inr (DATA_REL_START_BLK_NUM ?n), s4)"
      "mkfs_rest E ?n (DATA_REL_START_BLK_NUM ?n) s4 = (Inr (), s5)" "fmt_ok E k W5 s5" "same_frame s3 s5"
      "dom W5 = data_ids (vbc s3)" "formatted ?n W5"
    using mkfs_high[OF l(4,6,7) m3 f(2) rt] by blast
  have fr: "same_frame ?s s5" by (rule same_frame_trans[OF l(5) h(4)])
  have "mkfs E s = (Inr (), s5 \<lparr> status := FORMATTED \<rparr>)"
    unfolding mkfs_def bindE_def seqE_def getE_def modE_def guardE_def retE_def
    using f(1,4) k l(1-3) h(1,2) by (simp del: upt_Suc)
  then show ?thesis
    using h(3,5,6) fr same_frame_ids[OF h(4)]
    by (intro exI[of _ "s5 \<lparr> status := FORMATTED \<rparr>"] exI[of _ W5]) (auto simp: same_frame_def)
qed

section \<open>Mounting a formatted device\<close>

lemma fmt_ok_par [simp]: "fmt_ok E k W (new_par m s) = fmt_ok E k W s" "vbc (new_par m s) = vbc s" "status (new_par m s) = status s"
  "core_blk.more (new_par m s) = core_blk.more s"
  by (simp_all add: fmt_ok_def new_par_def fs_key_def)

lemma fmt_ok_sb [simp]: "fmt_ok E k W (s \<lparr> sb := x \<rparr>) = fmt_ok E k W s"
  for s :: "'z bfs_handle_scheme"
  by (simp add: fmt_ok_def fs_key_def)

lemma fmt_plain: "fmt_ok E k W s \<Longrightarrow> v \<in> dom W \<Longrightarrow> plain E k s v = fst (the (W v))"
  by (auto simp: fmt_ok_def plain_def)

lemma fmt_store:
  assumes "fmt_ok E k W s" "dom W = data_ids (vbc s)" "status s = MOUNTED"
  shows "store_ok E k s"
  using assms by (fastforce simp: store_ok_def fmt_ok_def dom_def)

lemma super_blk_des:
  assumes "n + 1 < 2 ^ 64" "DATA_REL_START_BLK_NUM n < n"
  shows "sb_deserialize 0 (super_blk n) = Inr (mkfs_superblock 0 n \<lparr> sb_dirty := False \<rparr>, 128)"
proof (rule sbc.des[OF mkfs_superblock_wf[OF assms]])
  show "0 + 128 \<le> length (super_blk n)" "chunk 0 128 (super_blk n) = enc_fields (sb_fields (mkfs_superblock 0 n))"
    by (simp_all add: super_blk_def buf_simps layout_vals)
qed

lemma formattedD:
  assumes "formatted n W"
  shows "fst (the (W 0)) = super_blk n" "dots_blk (fst (the (W (DATA_REL_START_BLK_NUM n))))"
    "inode_deserialize (ITAB_ABSOLUTE_BLK_OFF ROOT_INO) (fst (the (W 6))) = Inr (root_inode n \<lparr> i_dirty := False \<rparr>, 168)"
    "chained W (ITAB_REL_START_BLK_NUM + 1) METADATA_REL_START_BLK_NUM"
    "DATA_REL_START_BLK_NUM n < v \<Longrightarrow> v < n \<Longrightarrow> fst (the (W v)) = zero_blk"
  using assms by (simp_all add: formatted_def formatted_low_def region_vals res_inode_def ROOT_INO_def FIRST_UNRESERVED_INO_def)

lemma mount_ok:
  fixes s :: "'z bfs_handle_scheme"
  assumes ok: "fmt_ok E k W s" "status s = FORMATTED" "dom W = data_ids (vbc s)" "formatted n W"
    and n: "n = maxBlockID (vbc s)" "DATA_REL_START_BLK_NUM n < n" "n + 1 < 2 ^ 64"
  shows "\<exists>t. mount E s = (Inr (), t) \<and> fmt_ok E k W t \<and> status t = MOUNTED \<and> maxBlockID (vbc t) = n \<and>
    sb t = mkfs_superblock 0 n \<lparr> sb_dirty := False \<rparr>"
proof -
  let ?d = "DATA_REL_START_BLK_NUM n" and ?sb = "mkfs_superblock 0 n \<lparr> sb_dirty := False \<rparr>" and ?rt = "root_inode n \<lparr> i_dirty := False \<rparr>"
  have mt: "\<not> use_mt E" and env: "store_env E (vbc s)" using ok(1) by (auto simp: fmt_ok_def)
  have st: "FORMATTED \<le> FORMATTED" by simp
  have W: "\<exists>ct. W v = Some (fst (the (W v)), ct)" if "v \<in> data_ids (vbc s)" for v using that ok(3) by force
  note f = formattedD[OF ok(4)]
  have ids: "0 \<in> data_ids (vbc s)" "6 \<in> data_ids (vbc s)" "?d \<in> data_ids (vbc s)"
    using low_ids[OF env] n(1,2) by (auto simp: region_vals data_ids_def)
  obtain ct0 ct6 ctd where w: "W 0 = Some (super_blk n, ct0)" "W 6 = Some (fst (the (W 6)), ct6)" "W ?d = Some (fst (the (W ?d)), ctd)"
    using W[OF ids(1)] W[OF ids(2)] W[OF ids(3)] f(1) by auto
  obtain k1 where k1: "need_key s = (Inr k1, s)" using fmt_ok_key[OF ok(1)] by blast
  let ?s0 = "new_par (hmac_len k1) s"
  obtain s1 where s1: "read_blk E 0 ?s0 = (Inr (super_blk n), s1)" "fmt_ok E k W s1" "same_frame ?s0 s1"
    by (rule fmt_read[of E k W ?s0, OF _ w(1)]) (use ok(1,2) in simp_all)
  let ?s1 = "s1 \<lparr> sb := ?sb \<rparr>"
  obtain s2 where s2: "read_blk E 6 ?s1 = (Inr (fst (the (W 6))), s2)" "fmt_ok E k W s2" "same_frame ?s1 s2"
    by (rule fmt_read[of E k W ?s1, OF _ w(2)]) (use s1(2,3) ok(2) in \<open>simp_all add: same_frame_def\<close>)
  have st2: "status s2 = FORMATTED" "maxBlockID (vbc s2) = n" using s1(3) s2(3) ok(2) n(1) by (simp_all add: same_frame_def)
  obtain s3 where s3: "read_blk E ?d s2 = (Inr (fst (the (W ?d))), s3)" "fmt_ok E k W s3" "same_frame s2 s3"
    by (rule fmt_read[OF s2(2) w(3)]) (use st2(1) in simp_all)
  obtain k2 where k2: "need_key s2 = (Inr k2, s2)" using fmt_ok_key[OF s2(2)] by blast
  have des: "sb_deserialize 0 (super_blk n) = Inr (?sb, 128)" by (rule super_blk_des[OF n(3,2)])
  have rsb: "root_ino ?sb = ROOT_INO" by (simp add: mkfs_superblock_def set_state_def set_reserved_inos_def)
  have rt: "i_no ?rt = ROOT_INO" "length (i_blks ?rt) = 13" "i_blks ?rt ! 0 = ?d" by (simp_all add: root_inode_def Inode_def)
  have loc: "ITAB_ABSOLUTE_BLK_LOC ROOT_INO = 6" "(128 :: nat) \<le> SB_SZ" "(168 :: nat) \<le> INODE_SZ" "ROOT_INO \<noteq> NULL_INO"
    by (simp_all add: SB_SZ_def layout_defs ITAB_ABSOLUTE_BLK_LOC_def)
  have ri: "read_inode E ROOT_INO ?s1 = (Inr ?rt, s2)"
    using s2(1) f(3) loc rt(1) by (simp add: read_inode_def bindE_def seqE_def liftS_def guardE_def retE_def)
  have ds: "data_start s2 = (Inr ?d, s2)" using k2 st2(2) by (simp add: data_start_def seqE_def bindE_def getE_def)
  have de: "mount_dentry (fst (the (W ?d))) 0 ''.'' s3 = (Inr (), s3)" "mount_dentry (fst (the (W ?d))) 1 ''..'' s3 = (Inr (), s3)"
    using f(2) by (simp_all add: mount_dentry_def dots_blk_def bindE_def seqE_def liftS_def guardE_def retE_def)
  have "mount E s = (Inr (), s3 \<lparr> status := MOUNTED \<rparr>)"
    unfolding mount_def bindE_def seqE_def getE_def modE_def guardE_def retE_def liftS_def at_blk_def
    using ok(2) mt k1 s1(1) des loc(2) rsb ri rt ds s3(1) de by (simp add: SB_REL_START_BLK_NUM_def)
  then show ?thesis
    using s3(2,3) s2(3) st2(2) handle_frame[of s3 s2] handle_frame[of s2 ?s1]
    by (intro exI[of _ "s3 \<lparr> status := MOUNTED \<rparr>"]) (simp add: same_frame_def)
qed

section \<open>Properties\<close>

text \<open>C7: When the Merkle tree is off (\<open>\<not> use_mt E\<close>) and the caches are off, formatting a large enough device and mounting
  it always succeeds: the handle reaches the mounted state, every block outside the metadata area can be read and verified, the superblock and the root inode are in
  place, and the data blocks behind the root directory are zero.\<close>
lemma mkfs_mounts:
  fixes s :: "'z bfs_handle_scheme"
  assumes "fresh_device E k s" "\<not> use_mt E"
  shows "\<exists>t. seqE (mkfs E) (mount E) s = (Inr (), t) \<and> status t = MOUNTED \<and> store_ok E k t \<and>
    sb t = mkfs_superblock 0 (maxBlockID (vbc s)) \<lparr> sb_dirty := False \<rparr> \<and>
    inode_at E k t ROOT_INO = Inr (root_inode (maxBlockID (vbc s)) \<lparr> i_dirty := False \<rparr>, 168) \<and>
    (\<forall>v. DATA_REL_START_BLK_NUM (maxBlockID (vbc s)) < v \<longrightarrow> v < maxBlockID (vbc s) \<longrightarrow> plain E k t v = replicate BLK_SZ 0)"
proof -
  let ?n = "maxBlockID (vbc s)"
  have n: "DATA_REL_START_BLK_NUM ?n < ?n" "?n + 1 < 2 ^ 64" using assms by (simp_all add: fresh_device_def)
  obtain s1 W where m: "mkfs E s = (Inr (), s1)" "fmt_ok E k W s1" "status s1 = FORMATTED" "maxBlockID (vbc s1) = ?n"
      "dom W = data_ids (vbc s1)" "formatted ?n W"
    using mkfs_ok[OF assms] by blast
  obtain t where t: "mount E s1 = (Inr (), t)" "fmt_ok E k W t" "status t = MOUNTED" "maxBlockID (vbc t) = ?n"
      "sb t = mkfs_superblock 0 ?n \<lparr> sb_dirty := False \<rparr>"
    using mount_ok[OF m(2,3,5,6) m(4)[symmetric] n] by blast
  have d: "dom W = data_ids (vbc t)" unfolding m(5) by (rule data_ids_cong) (simp add: m(4) t(4))
  have env: "store_env E (vbc t)" using t(2) by (simp add: fmt_ok_def)
  have rt: "ITAB_ABSOLUTE_BLK_LOC ROOT_INO = 6" by (simp add: layout_defs ITAB_ABSOLUTE_BLK_LOC_def)
  have p: "plain E k t v = fst (the (W v))" if "v \<in> data_ids (vbc t)" for v using fmt_plain[OF t(2)] that d by simp
  have i6: "6 \<in> data_ids (vbc t)" using low_ids[OF env] by (simp add: region_vals)
  have "inode_at E k t ROOT_INO = Inr (root_inode ?n \<lparr> i_dirty := False \<rparr>, 168)"
    using formattedD(3)[OF m(6)] by (simp add: inode_at_def rt p[OF i6])
  moreover have "plain E k t v = replicate BLK_SZ 0" if "DATA_REL_START_BLK_NUM ?n < v" "v < ?n" for v
    using p[of v] formattedD(5)[OF m(6)] that t(4) by (simp add: data_ids_def)
  moreover have "seqE (mkfs E) (mount E) s = (Inr (), t)" using m(1) t(1) by (simp add: seqE_def bindE_def)
  ultimately show ?thesis using fmt_store[OF t(2) d t(3)] t(3,5) by blast
qed

text \<open>C36: Formatting with the Merkle tree off fills the unused part of the inode table with ciphertext, although the code calls
  its blocks empty: the buffer is encrypted in place and not cleared between the writes, so each block of the table behind the
  second one decrypts to the stored bytes of the block before it.\<close>
lemma mkfs_itab_garbage:
  assumes "fresh_device E k s" "\<not> use_mt E"
  shows "\<exists>t. mkfs E s = (Inr (), t) \<and> (\<forall>v. ITAB_REL_START_BLK_NUM < v \<longrightarrow> v + 1 < METADATA_REL_START_BLK_NUM \<longrightarrow>
    opened E k (vbc t) (v + 1) = Some (cluster_blk (vbc t) v))"
proof -
  obtain t W where m: "mkfs E s = (Inr (), t)" "fmt_ok E k W t" "dom W = data_ids (vbc t)" "formatted (maxBlockID (vbc s)) W"
    using mkfs_ok[OF assms] by blast
  have env: "store_env E (vbc t)" using m(2) by (simp add: fmt_ok_def)
  have "opened E k (vbc t) (v + 1) = Some (cluster_blk (vbc t) v)"
    if v: "ITAB_REL_START_BLK_NUM < v" "v + 1 < METADATA_REL_START_BLK_NUM" for v
  proof -
    have "v \<in> dom W" "v + 1 \<in> dom W" unfolding m(3) using low_ids[OF env] v(2) by simp_all
    then obtain d ct d' ct' where w: "W v = Some (d, ct)" "W (v + 1) = Some (d', ct')" by auto
    have "fst (the (W (v + 1))) = snd (the (W v))" using formattedD(4)[OF m(4)] v unfolding chained_def by auto
    then have "d' = ct" using w by simp
    then show ?thesis using m(2) w by (auto simp: fmt_ok_def)
  qed
  then show ?thesis using m(1) by blast
qed

section \<open>A device to format\<close>

definition plain_env :: bfs_env where
  "plain_env = demo_env \<lparr> use_mt := False \<rparr>"

definition blank_handle :: bfs_handle where
  "blank_handle = BfsHandle_init zero_handle"

lemma blank_sel [simp]: "vbc blank_handle = zero_cluster" "status blank_handle = INITIALIZED"
  by (simp_all add: blank_handle_def BfsHandle_init_def)

lemma plain_no_mt: "\<not> use_mt plain_env"
  by (simp add: plain_env_def)

lemma blank_fresh: "fresh_device plain_env demo_key blank_handle"
proof -
  have "store_ok demo_env demo_key zero_handle" by (rule zero_handle_ok)
  then have "store_env demo_env zero_cluster" "gcm_ok (env_gcrypt demo_env)" "key_ok demo_key"
      "\<exists>h. fs_key zero_handle = Some (demo_key \<lparr> handle := h \<rparr>)" by (auto simp: store_ok_def)
  then show ?thesis
    using zero_cluster_ok(2)
    by (simp add: fresh_device_def plain_env_def store_env_def blank_handle_def BfsHandle_init_def fs_key_def layout_defs)
qed

theorem mkfs_mounts_witness:
  "\<exists>t. seqE (mkfs plain_env) (mount plain_env) blank_handle = (Inr (), t) \<and> status t = MOUNTED \<and>
     store_ok plain_env demo_key t \<and> plain plain_env demo_key t 7000 = replicate BLK_SZ 0"
proof -
  obtain t where t: "seqE (mkfs plain_env) (mount plain_env) blank_handle = (Inr (), t)" "status t = MOUNTED"
      "store_ok plain_env demo_key t" "\<forall>v. DATA_REL_START_BLK_NUM (maxBlockID (vbc blank_handle)) < v \<longrightarrow>
        v < maxBlockID (vbc blank_handle) \<longrightarrow> plain plain_env demo_key t v = replicate BLK_SZ 0"
    using mkfs_mounts[OF blank_fresh plain_no_mt] by blast
  have "plain plain_env demo_key t 7000 = replicate BLK_SZ 0"
    using t(4)[rule_format, of 7000] by (simp add: zero_cluster_ok(2) layout_defs)
  then show ?thesis using t(1-3) by blast
qed

theorem mkfs_itab_garbage_witness:
  "\<exists>t. mkfs plain_env blank_handle = (Inr (), t) \<and> opened plain_env demo_key (vbc t) 9 = Some (cluster_blk (vbc t) 8)"
proof -
  obtain t where t: "mkfs plain_env blank_handle = (Inr (), t)" "\<forall>v. ITAB_REL_START_BLK_NUM < v \<longrightarrow>
      v + 1 < METADATA_REL_START_BLK_NUM \<longrightarrow> opened plain_env demo_key (vbc t) (v + 1) = Some (cluster_blk (vbc t) v)"
    using mkfs_itab_garbage[OF blank_fresh plain_no_mt] by blast
  have "opened plain_env demo_key (vbc t) 9 = Some (cluster_blk (vbc t) 8)"
    using t(2)[rule_format, of 8] by (simp add: region_vals)
  then show ?thesis using t(1) by blast
qed

end
