(* ===== verification/Bfs_Network.thy ===== *)
theory Bfs_Network
  imports Bfs_FlexBuffer
begin

text \<open>
  The network connections of \<^verbatim>\<open>src/src/bfs_comms\<close>: the loops of \<^verbatim>\<open>bfs_rawnet.cpp\<close> around the system calls, the packets
  with a length in front of \<^verbatim>\<open>bfsNetworkConnection.cpp\<close>, and the list of connections of \<^verbatim>\<open>bfsConnectionMux.cpp\<close>.  The
  code is that of the build outside the enclave; the build inside makes the same calls through the enclave's gates.

  A packet arrives as it was sent, into however many pieces the system calls cut the stream.
\<close>

section \<open>Sockets\<close>

text \<open>What the system decides: for each call the largest number of bytes it takes or delivers, 0 for a closed connection
  and a negative number for an error.  A read on a connection with nothing to deliver blocks.\<close>

record net_env =
  net_write :: "nat \<Rightarrow> int"
  net_read :: "nat \<Rightarrow> int"

record sock =
  written :: "byte list"
  incoming :: "byte list"
  wr_pos :: nat
  rd_pos :: nat

definition sys_write :: "net_env \<Rightarrow> byte list \<Rightarrow> 'z sock_scheme \<Rightarrow> int \<times> 'z sock_scheme" where
  "sys_write N buf s =
     (let k = net_write N (wr_pos s); m = min (nat k) (length buf); s' = s \<lparr> wr_pos := wr_pos s + 1 \<rparr> in
      if k < 0 then (- 1, s') else (int m, s' \<lparr> written := written s @ take m buf \<rparr>))"

definition sys_read :: "net_env \<Rightarrow> nat \<Rightarrow> ('z sock_scheme, int \<times> byte list) comp" where
  "sys_read N n s =
     (let k = net_read N (rd_pos s); m = min (nat k) (min n (length (incoming s))); s' = s \<lparr> rd_pos := rd_pos s + 1 \<rparr> in
      if k < 0 then (Inr (- 1, []), s')
      else if k = 0 then (Inr (0, []), s')
      else if incoming s = [] then (Inl BfsBlocked, s')
      else (Inr (int m, take m (incoming s)), s' \<lparr> incoming := drop m (incoming s) \<rparr>))"

section \<open>Loops around the system calls\<close>

text \<open>\<^const>\<open>Some\<close> is an early return, \<^const>\<open>None\<close> the end of the loop.\<close>

function send_loop :: "net_env \<Rightarrow> byte list \<Rightarrow> 'z sock_scheme \<Rightarrow> int option \<times> 'z sock_scheme" where
  "send_loop N buf s =
     (if buf = [] then (None, s)
      else case sys_write N buf s of (sb, s') \<Rightarrow>
        if sb < 0 then (Some (- 1), s') else if sb = 0 then (Some 0, s') else send_loop N (drop (nat sb) buf) s')"
  by pat_completeness auto

termination
  by (relation "measure (\<lambda>(N, buf, s). length buf)") (auto simp: length_greater_0_conv[symmetric] simp del: length_greater_0_conv)

function recv_loop :: "net_env \<Rightarrow> nat \<Rightarrow> byte list \<Rightarrow> ('z sock_scheme, int option \<times> byte list) comp" where
  "recv_loop N n acc s =
     (if n = 0 then (Inr (None, acc), s)
      else case sys_read N n s of
        (Inl e, s') \<Rightarrow> (Inl e, s')
      | (Inr (rb, d), s') \<Rightarrow>
          if rb < 0 then (Inr (Some (- 1), acc), s') else if rb = 0 then (Inr (Some 0, acc), s')
          else recv_loop N (n - nat rb) (acc @ d) s')"
  by pat_completeness auto

termination
  by (relation "measure (\<lambda>(N, n, acc, s). n)") auto

declare send_loop.simps [simp del] recv_loop.simps [simp del]

text \<open>The length is an \<^verbatim>\<open>int\<close>: from \<^verbatim>\<open>2^31\<close> on it is negative and the loop is not entered.\<close>

definition c_int :: "nat \<Rightarrow> int" where
  "c_int n = (if u32 n < 2 ^ 31 then int (u32 n) else int (u32 n) - 2 ^ 32)"

definition rawnet_send_bytes :: "net_env \<Rightarrow> byte list \<Rightarrow> 'z sock_scheme \<Rightarrow> int \<times> 'z sock_scheme" where
  "rawnet_send_bytes N buf s =
     (let len = c_int (length buf) in
      if len \<le> 0 then (len, s)
      else case send_loop N (take (nat len) buf) s of (r, s') \<Rightarrow> ((case r of None \<Rightarrow> len | Some rc \<Rightarrow> rc), s'))"

definition rawnet_read_bytes :: "net_env \<Rightarrow> nat \<Rightarrow> ('z sock_scheme, int \<times> byte list) comp" where
  "rawnet_read_bytes N n s =
     (let len = c_int n in
      if len \<le> 0 then (Inr (len, []), s)
      else case recv_loop N (nat len) [] s of
        (Inl e, s') \<Rightarrow> (Inl e, s')
      | (Inr (r, d), s') \<Rightarrow> (Inr ((case r of None \<Rightarrow> len | Some rc \<Rightarrow> rc), d), s'))"

section \<open>Connections\<close>

datatype SchannelCommState = SCH_INITIALIZED | SCH_CONNECTING | SCH_CONNECTED | SCH_CLOSED | SCH_ERRORED

datatype SchannelCommType = SCH_UKNOWN | SCH_SERVER | SCH_CLIENT

record net_conn = sock +
  chState :: SchannelCommState
  chType :: SchannelCommType
  socket :: int

text \<open>\<^verbatim>\<open>sk\<close> is the descriptor the system gives for the connection.\<close>

definition net_connect :: "int \<Rightarrow> net_conn \<Rightarrow> int \<times> net_conn" where
  "net_connect sk c =
     (if chType c = SCH_UKNOWN then (- 1, c \<lparr> chState := SCH_ERRORED \<rparr>)
      else if sk \<le> 0 then (- 1, c \<lparr> socket := sk, chState := SCH_ERRORED \<rparr>)
      else (0, c \<lparr> socket := sk, chState := SCH_CONNECTED \<rparr>))"

definition net_disconnect :: "int \<Rightarrow> net_conn \<Rightarrow> int \<times> net_conn" where
  "net_disconnect rc c = (rc, c \<lparr> socket := - 1, chState := SCH_INITIALIZED \<rparr>)"

definition new_conn :: "SchannelCommType \<Rightarrow> net_conn" where
  "new_conn ty = \<lparr> written = [], incoming = [], wr_pos = 0, rd_pos = 0, chState = SCH_INITIALIZED, chType = ty, socket = - 1 \<rparr>"

definition net_accept :: "int \<Rightarrow> net_conn option" where
  "net_accept newsock = (if newsock = - 1 then None
     else Some ((new_conn SCH_CLIENT) \<lparr> chState := SCH_CONNECTED, socket := newsock \<rparr>))"

text \<open>An error becomes 0, like a closed connection.\<close>

definition data_ret :: "int \<Rightarrow> net_conn \<Rightarrow> int \<times> net_conn" where
  "data_ret ret c =
     (if ret = 0 then (0, c \<lparr> chState := SCH_CLOSED \<rparr>)
      else if ret < 0 then (0, c \<lparr> chState := SCH_ERRORED \<rparr>)
      else (ret, c))"

definition sendDataL :: "net_env \<Rightarrow> byte list \<Rightarrow> net_conn \<Rightarrow> int \<times> net_conn" where
  "sendDataL N buf c = (case rawnet_send_bytes N buf c of (ret, c') \<Rightarrow> data_ret ret c')"

definition recvDataL :: "net_env \<Rightarrow> nat \<Rightarrow> (net_conn, int \<times> byte list) comp" where
  "recvDataL N n c = (case rawnet_read_bytes N n c of
       (Inl e, c') \<Rightarrow> (Inl e, c')
     | (Inr (ret, d), c') \<Rightarrow> (case data_ret ret c' of (r, c'') \<Rightarrow> (Inr (r, d), c'')))"

definition htonl :: "nat \<Rightarrow> byte list" where "htonl n = rev (le_bytes 4 n)"
definition ntohl :: "byte list \<Rightarrow> nat" where "ntohl bs = le_val (rev bs)"

definition sendPacketizedDataL :: "net_env \<Rightarrow> byte list \<Rightarrow> net_conn \<Rightarrow> int \<times> net_conn" where
  "sendPacketizedDataL N buf c = (case sendDataL N (htonl (length buf)) c of (ret, c') \<Rightarrow>
     if ret \<noteq> 4 then (ret, c') else sendDataL N buf c')"

text \<open>\<^verbatim>\<open>len\<close> is the size of the caller's buffer.\<close>

definition recvPacketizedDataL :: "net_env \<Rightarrow> nat \<Rightarrow> (net_conn, int \<times> byte list) comp" where
  "recvPacketizedDataL N len =
     bindE (recvDataL N 4) (\<lambda>(ret, hdr).
     if ret \<noteq> 4 then retE (ret, [])
     else if len < ntohl hdr then retE (- 1, [])
     else recvDataL N (ntohl hdr))"

definition sendBuffer :: "net_env \<Rightarrow> flexbuf \<Rightarrow> net_conn \<Rightarrow> int \<times> net_conn" where
  "sendBuffer N fb c = (case rawnet_send_bytes N (fb_data fb) c of (ret, c') \<Rightarrow> data_ret ret c')"

definition sendPacketizedBuffer :: "net_env \<Rightarrow> flexbuf \<Rightarrow> net_conn \<Rightarrow> int \<times> net_conn" where
  "sendPacketizedBuffer N fb c = (case sendDataL N (htonl (blength fb)) c of (ret, c') \<Rightarrow>
     if ret \<noteq> 4 then (ret, c') else sendBuffer N fb c')"

text \<open>A buffer that is filled from the network: allocated with the default paddings, then overwritten from the front.\<close>

definition recvBuffer :: "net_env \<Rightarrow> nat \<Rightarrow> flexbuf \<Rightarrow> (net_conn, int \<times> flexbuf) comp" where
  "recvBuffer N len fb c =
     (case resetWithAlloc len 0 BFSFLEXBUF_DEFAULT_PAD BFSFLEXBUF_DEFAULT_PAD False fb of
        (Inl e, fb') \<Rightarrow> (Inl e, c)
      | (Inr _, fb') \<Rightarrow> (case rawnet_read_bytes N len c of
            (Inl e, c') \<Rightarrow> (Inl e, c')
          | (Inr (ret, d), c') \<Rightarrow> (case data_ret ret c' of (r, c'') \<Rightarrow> (Inr (r, snd (fb_overwrite d fb')), c''))))"

definition recvPacketizedBuffer :: "net_env \<Rightarrow> flexbuf \<Rightarrow> (net_conn, int \<times> flexbuf) comp" where
  "recvPacketizedBuffer N fb =
     bindE (recvDataL N 4) (\<lambda>(ret, hdr). if ret \<noteq> 4 then retE (ret, fb) else recvBuffer N (ntohl hdr) fb)"

section \<open>The connection list\<close>

text \<open>Connections by descriptor.  \<^verbatim>\<open>sel\<close> is what \<^verbatim>\<open>select\<close> reports: its result and the descriptors with data.\<close>

type_synonym conn_list = "int \<Rightarrow> nat option"

definition addConnection :: "int \<Rightarrow> nat \<Rightarrow> conn_list \<Rightarrow> conn_list" where
  "addConnection sk c l = l (sk \<mapsto> c)"

definition removeConnection :: "int \<Rightarrow> conn_list \<Rightarrow> conn_list" where
  "removeConnection sk l = l (sk := None)"

definition waitConnections :: "int \<times> int set \<Rightarrow> conn_list \<Rightarrow> int \<times> conn_list option" where
  "waitConnections sel l = (if fst sel = - 1 then (- 1, None) else (0, Some (\<lambda>sk. if sk \<in> snd sel then l sk else None)))"

section \<open>The loops\<close>

lemma sys_write_some:
  assumes "0 < net_write N (wr_pos s)" "buf \<noteq> []"
  obtains m where "0 < m" "m \<le> length buf" "sys_write N buf s = (int m, s \<lparr> wr_pos := wr_pos s + 1, written := written s @ take m buf \<rparr>)"
  using assms that[of "min (nat (net_write N (wr_pos s))) (length buf)"] by (simp add: sys_write_def Let_def)

lemma sys_read_some:
  assumes "0 < net_read N (rd_pos s)" "incoming s \<noteq> []" "0 < n"
  obtains m where "0 < m" "m \<le> n" "m \<le> length (incoming s)"
    "sys_read N n s = (Inr (int m, take m (incoming s)), s \<lparr> rd_pos := rd_pos s + 1, incoming := drop m (incoming s) \<rparr>)"
  using assms that[of "min (nat (net_read N (rd_pos s))) (min n (length (incoming s)))"] by (simp add: sys_read_def Let_def)

lemma send_loop_all:
  "\<forall>i. 0 < net_write N i \<Longrightarrow> \<exists>w. send_loop N buf s = (None, s \<lparr> written := written s @ buf, wr_pos := w \<rparr>)"
proof (induction N buf s rule: send_loop.induct)
  case (1 N buf s)
  show ?case
  proof (cases "buf = []")
    case True
    then show ?thesis by (intro exI[of _ "wr_pos s"]) (simp add: send_loop.simps)
  next
    case False
    obtain m where m: "0 < m" "m \<le> length buf"
        "sys_write N buf s = (int m, s \<lparr> wr_pos := wr_pos s + 1, written := written s @ take m buf \<rparr>)"
      using sys_write_some[of N s buf] 1(2) False by blast
    then show ?thesis
      using 1(1)[OF False m(3)[symmetric]] 1(2) False by (subst send_loop.simps) auto
  qed
qed

lemma recv_loop_all:
  "\<forall>i. 0 < net_read N i \<Longrightarrow> n \<le> length (incoming s) \<Longrightarrow>
   \<exists>r. recv_loop N n acc s = (Inr (None, acc @ take n (incoming s)), s \<lparr> incoming := drop n (incoming s), rd_pos := r \<rparr>)"
proof (induction N n acc s rule: recv_loop.induct)
  case (1 N n acc s)
  show ?case
  proof (cases "n = 0")
    case True
    then show ?thesis by (intro exI[of _ "rd_pos s"]) (simp add: recv_loop.simps)
  next
    case False
    obtain m where m: "0 < m" "m \<le> n" "m \<le> length (incoming s)"
        "sys_read N n s = (Inr (int m, take m (incoming s)), s \<lparr> rd_pos := rd_pos s + 1, incoming := drop m (incoming s) \<rparr>)"
      by (rule sys_read_some[of N s n]) (use 1(2,3) False in auto)
    have t: "take m (incoming s) @ take (n - m) (drop m (incoming s)) = take n (incoming s)"
      using m(2) by (metis take_add le_add_diff_inverse)
    show ?thesis
      using 1(1)[OF False m(4)[symmetric] refl refl] 1(2,3) m False t
      by (subst recv_loop.simps) (auto simp: m(4))
  qed
qed

section \<open>Packets\<close>

lemma c_int_small [simp]: "n < 2 ^ 31 \<Longrightarrow> c_int n = int n"
  by (simp add: c_int_def u32_def)

lemma sendDataL_all:
  assumes "\<forall>i. 0 < net_write N i" "0 < length buf" "length buf < 2 ^ 31"
  obtains w where "sendDataL N buf c = (int (length buf), c \<lparr> written := written c @ buf, wr_pos := w \<rparr>)"
proof -
  obtain w where "send_loop N buf c = (None, c \<lparr> written := written c @ buf, wr_pos := w \<rparr>)"
    using send_loop_all[OF assms(1)] by blast
  with assms that[of w] show thesis by (auto simp: sendDataL_def rawnet_send_bytes_def data_ret_def Let_def)
qed

lemma read_bytes_all:
  assumes "\<forall>i. 0 < net_read N i" "0 < n" "n < 2 ^ 31" "n \<le> length (incoming c)"
  obtains r where "rawnet_read_bytes N n c = (Inr (int n, take n (incoming c)), c \<lparr> incoming := drop n (incoming c), rd_pos := r \<rparr>)"
proof -
  obtain r where "recv_loop N n [] c = (Inr (None, take n (incoming c)), c \<lparr> incoming := drop n (incoming c), rd_pos := r \<rparr>)"
    using recv_loop_all[OF assms(1,4), of "[]"] by auto
  with assms that[of r] show thesis by (auto simp: rawnet_read_bytes_def Let_def)
qed

lemma length_htonl [simp]: "length (htonl n) = 4" by (simp add: htonl_def)

lemma ntohl_htonl [simp]: "n < 2 ^ 32 \<Longrightarrow> ntohl (htonl n) = n" by (simp add: ntohl_def htonl_def)

text \<open>The bytes of a packet on the wire, and what a packet may be.\<close>

definition frame :: "byte list \<Rightarrow> byte list" where "frame p = htonl (length p) @ p"

definition packet_ok :: "byte list \<Rightarrow> bool" where
  "packet_ok p \<longleftrightarrow> p \<noteq> [] \<and> length p < 2 ^ 31"

lemma sendPacketizedDataL_all:
  assumes "\<forall>i. 0 < net_write N i" "packet_ok p"
  obtains w where "sendPacketizedDataL N p c = (int (length p), c \<lparr> written := written c @ frame p, wr_pos := w \<rparr>)"
proof -
  obtain w where w: "sendDataL N (htonl (length p)) c = (4, c \<lparr> written := written c @ htonl (length p), wr_pos := w \<rparr>)"
    using sendDataL_all[OF assms(1), of "htonl (length p)" c] by auto
  obtain v where "sendDataL N p (c \<lparr> written := written c @ htonl (length p), wr_pos := w \<rparr>) =
      (int (length p), c \<lparr> written := written c @ frame p, wr_pos := v \<rparr>)"
    using sendDataL_all[OF assms(1), of p "c \<lparr> written := written c @ htonl (length p), wr_pos := w \<rparr>"] assms(2)
    by (auto simp: packet_ok_def frame_def)
  with w show thesis using that[of v] by (simp add: sendPacketizedDataL_def)
qed

text \<open>A fresh buffer filled with a packet.\<close>

definition net_buf :: "byte list \<Rightarrow> flexbuf" where
  "net_buf p = snd (fb_overwrite p (snd (resetWithAlloc (length p) 0 BFSFLEXBUF_DEFAULT_PAD BFSFLEXBUF_DEFAULT_PAD False flexbuf_new)))"

lemma net_buf_reset:
  assumes "length p < 2 ^ 31"
  obtains fb where "resetWithAlloc (length p) 0 BFSFLEXBUF_DEFAULT_PAD BFSFLEXBUF_DEFAULT_PAD False flexbuf_new = (Inr (length p), fb)"
    "net_buf p = snd (fb_overwrite p fb)" "fb_ok (net_buf p)" "fb_data (net_buf p) = p"
proof -
  have b: "blength flexbuf_new = 0" by (simp add: flexbuf_new_def)
  obtain fb where fb: "resetWithAlloc (length p) 0 BFSFLEXBUF_DEFAULT_PAD BFSFLEXBUF_DEFAULT_PAD False flexbuf_new = (Inr (length p), fb)"
      "fb_ok fb" "fb_data fb = replicate (length p) 0"
    by (rule resetWithAlloc_rep[of flexbuf_new BFSFLEXBUF_DEFAULT_PAD "length p" BFSFLEXBUF_DEFAULT_PAD 0])
      (use assms b in \<open>auto simp: BFSFLEXBUF_DEFAULT_PAD_def\<close>)
  obtain H T where rep: "fb_rep fb H (replicate (length p) 0) T" using fb_okE[OF fb(2)] fb(3) by metis
  obtain fb' where fb': "fb_overwrite p fb = (Inr (), fb')" "fb_rep fb' H p T" using fb_overwrite_rep[OF rep] by auto
  show thesis using that[OF fb(1)] fb(1) fb'(1) fb_rep_ok[OF fb'(2)] fb_rep_data[OF fb'(2)] by (simp add: net_buf_def)
qed

lemma net_buf_ok:
  assumes "length p < 2 ^ 31"
  shows "fb_ok (net_buf p)" "fb_data (net_buf p) = p"
  by (rule net_buf_reset[OF assms], assumption)+

lemma recvPacketizedBuffer_all:
  assumes r: "\<forall>i. 0 < net_read N i" and p: "packet_ok p" and i: "incoming c = frame p @ rest"
  obtains k where "recvPacketizedBuffer N flexbuf_new c = (Inr (int (length p), net_buf p), c \<lparr> incoming := rest, rd_pos := k \<rparr>)"
proof -
  obtain j where "rawnet_read_bytes N 4 c = (Inr (4, htonl (length p)), c \<lparr> incoming := p @ rest, rd_pos := j \<rparr>)"
    using read_bytes_all[OF r, of 4 c] i by (auto simp: frame_def)
  then have h: "recvDataL N 4 c = (Inr (4, htonl (length p)), c \<lparr> incoming := p @ rest, rd_pos := j \<rparr>)"
    by (simp add: recvDataL_def data_ret_def)
  obtain k where k: "rawnet_read_bytes N (length p) (c \<lparr> incoming := p @ rest, rd_pos := j \<rparr>) =
      (Inr (int (length p), p), c \<lparr> incoming := rest, rd_pos := k \<rparr>)"
    using read_bytes_all[OF r, of "length p" "c \<lparr> incoming := p @ rest, rd_pos := j \<rparr>"] p by (auto simp: packet_ok_def)
  have l: "length p < 2 ^ 31" "length p < 2 ^ 32" "0 < length p" using p by (auto simp: packet_ok_def)
  obtain fb where fb: "resetWithAlloc (length p) 0 BFSFLEXBUF_DEFAULT_PAD BFSFLEXBUF_DEFAULT_PAD False flexbuf_new = (Inr (length p), fb)"
    "net_buf p = snd (fb_overwrite p fb)" using net_buf_reset[OF l(1)] by blast
  show thesis
    by (rule that[of k]) (use h k fb l in \<open>simp add: recvPacketizedBuffer_def bindE_def recvBuffer_def data_ret_def\<close>)
qed

section \<open>Properties\<close>

text \<open>Sending packets one after the other, and receiving a number of packets.\<close>

primrec send_packets :: "net_env \<Rightarrow> byte list list \<Rightarrow> net_conn \<Rightarrow> int list \<times> net_conn" where
  "send_packets N [] c = ([], c)"
| "send_packets N (p # ps) c =
     (case sendPacketizedDataL N p c of (r, c') \<Rightarrow> case send_packets N ps c' of (rs, c'') \<Rightarrow> (r # rs, c''))"

primrec recv_packets :: "net_env \<Rightarrow> nat \<Rightarrow> (net_conn, byte list list) comp" where
  "recv_packets N 0 = retE []"
| "recv_packets N (Suc n) =
     bindE (recvPacketizedBuffer N flexbuf_new) (\<lambda>(r, fb). bindE (recv_packets N n) (\<lambda>ps. retE (fb_data fb # ps)))"

lemma send_packets_all:
  assumes "\<forall>i. 0 < net_write N i" "\<forall>p \<in> set ps. packet_ok p"
  shows "\<exists>w. send_packets N ps c = (map (int \<circ> length) ps, c \<lparr> written := written c @ concat (map frame ps), wr_pos := w \<rparr>)"
  using assms(2)
proof (induction ps arbitrary: c)
  case Nil
  show ?case by (intro exI[of _ "wr_pos c"]) simp
next
  case (Cons p ps)
  obtain w where "sendPacketizedDataL N p c = (int (length p), c \<lparr> written := written c @ frame p, wr_pos := w \<rparr>)"
    using sendPacketizedDataL_all[OF assms(1)] Cons.prems by auto
  then show ?case using Cons.IH[of "c \<lparr> written := written c @ frame p, wr_pos := w \<rparr>"] Cons.prems by auto
qed

lemma recv_packets_all:
  assumes "\<forall>i. 0 < net_read N i" "\<forall>p \<in> set ps. packet_ok p"
  shows "incoming c = concat (map frame ps) @ rest \<Longrightarrow>
    \<exists>k. recv_packets N (length ps) c = (Inr ps, c \<lparr> incoming := rest, rd_pos := k \<rparr>)"
  using assms(2)
proof (induction ps arbitrary: c)
  case Nil
  then show ?case by (intro exI[of _ "rd_pos c"]) (simp add: retE_def)
next
  case (Cons p ps)
  obtain k where k: "recvPacketizedBuffer N flexbuf_new c =
      (Inr (int (length p), net_buf p), c \<lparr> incoming := concat (map frame ps) @ rest, rd_pos := k \<rparr>)"
    using recvPacketizedBuffer_all[OF assms(1), of p c "concat (map frame ps) @ rest"] Cons.prems by auto
  have "fb_data (net_buf p) = p" using net_buf_ok(2)[of p] Cons.prems by (auto simp: packet_ok_def)
  then show ?case
    using k Cons.IH[of "c \<lparr> incoming := concat (map frame ps) @ rest, rd_pos := k \<rparr>"] Cons.prems
    by (auto simp: bindE_def retE_def)
qed

text \<open>C12: Packets keep their boundaries, their contents and their order on a connection, however the system calls of the
  two sides cut the stream into pieces: if every \<^verbatim>\<open>write\<close> takes and every \<^verbatim>\<open>read\<close> delivers at least one byte, sending non-empty
  packets of less than \<^verbatim>\<open>2^31\<close> bytes reports their lengths, and receiving as many packets from the bytes that were
  written, followed by anything, gives those packets and leaves what follows.\<close>

lemma packets_roundtrip:
  assumes "\<forall>i. 0 < net_write N i" "\<forall>i. 0 < net_read M i" "\<forall>p \<in> set ps. packet_ok p"
    and "send_packets N ps c = (rs, c')" "written c = []" "incoming d = written c' @ rest"
  shows "rs = map (int \<circ> length) ps \<and>
    (\<exists>d'. recv_packets M (length ps) d = (Inr ps, d') \<and> incoming d' = rest \<and> chState d' = chState d)"
proof -
  have "rs = map (int \<circ> length) ps" "written c' = concat (map frame ps)"
    using send_packets_all[OF assms(1,3), of c] assms(4,5) by auto
  moreover have "\<exists>k. recv_packets M (length ps) d = (Inr ps, d \<lparr> incoming := rest, rd_pos := k \<rparr>)"
    by (rule recv_packets_all[OF assms(2,3)]) (simp add: assms(6) calculation(2))
  ultimately show ?thesis by auto
qed

text \<open>C39: A failed send is never reported as -1: whatever the system calls do, the packet functions answer 0 or a positive
  number or hand on a short count, so the test for -1 in \<^verbatim>\<open>ocall_handle_out_msg\<close> never sees a failure.\<close>

lemma send_failure_hidden:
  "fst (sendPacketizedDataL N p c) \<noteq> - 1 \<and>
   (net_write N (wr_pos c) < 0 \<longrightarrow> fst (sendPacketizedDataL N p c) = 0 \<and> written (snd (sendPacketizedDataL N p c)) = written c)"
proof -
  have d: "0 \<le> fst (data_ret r x)" for r x by (simp add: data_ret_def)
  then have s: "0 \<le> fst (sendDataL N b x)" for b x by (auto simp: sendDataL_def split: prod.splits)
  obtain x y where e: "sendDataL N (htonl (length p)) c = (x, y)" by force
  have "0 \<le> fst (sendPacketizedDataL N p c)" using s[of "htonl (length p)" c] s[of p y] e by (simp add: sendPacketizedDataL_def)
  moreover have "fst (sendPacketizedDataL N p c) = 0 \<and> written (snd (sendPacketizedDataL N p c)) = written c" if n: "net_write N (wr_pos c) < 0"
  proof -
    have h: "htonl n \<noteq> []" for n using length_htonl[of n] by (metis list.size(3) zero_neq_numeral)
    have "rawnet_send_bytes N (htonl n) c = (- 1, c \<lparr> wr_pos := wr_pos c + 1 \<rparr>)" for n
      using that h[of n] by (simp add: rawnet_send_bytes_def send_loop.simps sys_write_def Let_def)
    then show ?thesis by (simp add: sendPacketizedDataL_def sendDataL_def data_ret_def)
  qed
  ultimately show ?thesis by auto
qed

text \<open>Witnesses: a sender that writes 3 bytes at a time, a receiver that reads 1 byte at a time, and a broken link.\<close>

definition demo_net :: net_env where "demo_net = \<lparr> net_write = (\<lambda>_. 3), net_read = (\<lambda>_. 1) \<rparr>"

lemma packets_roundtrip_witness:
  "\<exists>c' d'. send_packets demo_net [[7, 8], [9]] (new_conn SCH_CLIENT) = ([2, 1], c') \<and>
     recv_packets demo_net 2 ((new_conn SCH_CLIENT) \<lparr> incoming := written c' @ [5] \<rparr>) = (Inr [[7, 8], [9]], d') \<and> incoming d' = [5]"
proof -
  obtain rs c' where c': "send_packets demo_net [[7, 8], [9]] (new_conn SCH_CLIENT) = (rs, c')" by force
  have h: "\<forall>i. 0 < net_write demo_net i" "\<forall>i. 0 < net_read demo_net i" "\<forall>p \<in> set [[7, 8], [9 :: byte]]. packet_ok p"
    by (simp_all add: demo_net_def packet_ok_def)
  have i: "written (new_conn SCH_CLIENT) = []" "incoming ((new_conn SCH_CLIENT) \<lparr> incoming := written c' @ [5] \<rparr>) = written c' @ [5]"
    by (simp_all add: new_conn_def)
  have l: "length [[7, 8], [9 :: byte]] = 2" "map (int \<circ> length) [[7, 8], [9 :: byte]] = [2, 1]" by simp_all
  show ?thesis using packets_roundtrip[OF h c' i] unfolding l using c' by blast
qed

lemma send_failure_hidden_witness:
  "fst (sendPacketizedDataL (demo_net \<lparr> net_write := (\<lambda>_. - 1) \<rparr>) [7, 8] (new_conn SCH_CLIENT)) = 0"
  using send_failure_hidden[of "demo_net \<lparr> net_write := (\<lambda>_. - 1) \<rparr>" "[7, 8]" "new_conn SCH_CLIENT"] by simp

end
