(* ===== verification/Bfs_SharedMutex.thy ===== *)
theory Bfs_SharedMutex
  imports Bfs_Prelude
begin

text \<open>
  The reader-writer lock of the client, class \<^verbatim>\<open>shared_mutex_t\<close> of \<^verbatim>\<open>src/src/bfs_client/bfs_client.cpp\<close>, as a transition
  system of threads that use it.  Each of the four operations runs under \<^verbatim>\<open>mutex_\<close>, so one pass of its body is one
  step; waiting on the condition variable puts a thread to sleep until the next \<^verbatim>\<open>notify_all\<close> or a spurious wake-up, and
  a thread that is awake tests its condition again.

  The operations are shown to keep writers apart from everybody else, and no wake-up is lost.
\<close>

section \<open>Transition systems and their invariants\<close>

inductive reach :: "'s \<Rightarrow> ('s \<Rightarrow> 's \<Rightarrow> bool) \<Rightarrow> 's \<Rightarrow> bool" for ini step where
  reach_init: "reach ini step ini"
| reach_step: "reach ini step s \<Longrightarrow> step s s' \<Longrightarrow> reach ini step s'"

locale step_invariant =
  fixes ini :: 's and step :: "'s \<Rightarrow> 's \<Rightarrow> bool" and inv :: "'s \<Rightarrow> bool"
  assumes inv_init: "inv ini"
    and inv_step: "inv s \<Longrightarrow> step s s' \<Longrightarrow> inv s'"
begin

lemma reach_inv: "reach ini step s \<Longrightarrow> inv s"
  by (induction rule: reach.induct) (auto intro: inv_init inv_step)

end

section \<open>The lock\<close>

record shared_mutex =
  writer_active :: bool
  reader_count :: int

text \<open>One pass of the loop of \<^verbatim>\<open>lock_shared\<close> and of \<^verbatim>\<open>lock\<close>: \<^const>\<open>None\<close> when the thread has to wait.\<close>

definition sm_lock_shared :: "shared_mutex \<Rightarrow> shared_mutex option" where
  "sm_lock_shared m = (if writer_active m then None else Some (m \<lparr> reader_count := reader_count m + 1 \<rparr>))"

definition sm_lock :: "shared_mutex \<Rightarrow> shared_mutex option" where
  "sm_lock m = (if writer_active m \<or> reader_count m > 0 then None else Some (m \<lparr> writer_active := True \<rparr>))"

text \<open>The second component says whether all waiting threads are notified.\<close>

definition sm_unlock_shared :: "shared_mutex \<Rightarrow> shared_mutex \<times> bool" where
  "sm_unlock_shared m = (let n = reader_count m - 1 in (m \<lparr> reader_count := n \<rparr>, n = 0))"

definition sm_unlock :: "shared_mutex \<Rightarrow> shared_mutex \<times> bool" where
  "sm_unlock m = (m \<lparr> writer_active := False \<rparr>, True)"

section \<open>Threads\<close>

datatype phase = Idle | WantShared | SleepShared | Reading | WantLock | SleepLock | Writing

record lock_sys =
  mtx :: shared_mutex
  phase :: "nat \<Rightarrow> phase"

definition lock_init :: lock_sys where
  "lock_init = \<lparr> mtx = \<lparr> writer_active = False, reader_count = 0 \<rparr>, phase = (\<lambda>_. Idle) \<rparr>"

fun wake :: "phase \<Rightarrow> phase" where
  "wake SleepShared = WantShared"
| "wake SleepLock = WantLock"
| "wake p = p"

text \<open>Leaving the lock: the thread becomes idle and the sleeping threads wake up if they are notified.\<close>

definition leave :: "nat \<Rightarrow> shared_mutex \<times> bool \<Rightarrow> lock_sys \<Rightarrow> lock_sys" where
  "leave t r s = \<lparr> mtx = fst r, phase = (if snd r then wake \<circ> (phase s) (t := Idle) else (phase s) (t := Idle)) \<rparr>"

inductive lock_step :: "lock_sys \<Rightarrow> lock_sys \<Rightarrow> bool" where
  call_shared: "phase s t = Idle \<Longrightarrow> lock_step s (s \<lparr> phase := (phase s) (t := WantShared) \<rparr>)"
| call_lock: "phase s t = Idle \<Longrightarrow> lock_step s (s \<lparr> phase := (phase s) (t := WantLock) \<rparr>)"
| shared_wait: "phase s t = WantShared \<Longrightarrow> sm_lock_shared (mtx s) = None \<Longrightarrow>
    lock_step s (s \<lparr> phase := (phase s) (t := SleepShared) \<rparr>)"
| shared_enter: "phase s t = WantShared \<Longrightarrow> sm_lock_shared (mtx s) = Some m \<Longrightarrow>
    lock_step s \<lparr> mtx = m, phase = (phase s) (t := Reading) \<rparr>"
| lock_wait: "phase s t = WantLock \<Longrightarrow> sm_lock (mtx s) = None \<Longrightarrow>
    lock_step s (s \<lparr> phase := (phase s) (t := SleepLock) \<rparr>)"
| lock_enter: "phase s t = WantLock \<Longrightarrow> sm_lock (mtx s) = Some m \<Longrightarrow>
    lock_step s \<lparr> mtx = m, phase = (phase s) (t := Writing) \<rparr>"
| unlock_shared: "phase s t = Reading \<Longrightarrow> lock_step s (leave t (sm_unlock_shared (mtx s)) s)"
| unlock: "phase s t = Writing \<Longrightarrow> lock_step s (leave t (sm_unlock (mtx s)) s)"
| spurious: "lock_step s (s \<lparr> phase := (phase s) (t := wake (phase s t)) \<rparr>)"

lemmas sm_defs = sm_lock_shared_def sm_lock_def sm_unlock_shared_def sm_unlock_def leave_def

section \<open>The invariant\<close>

definition readers :: "lock_sys \<Rightarrow> nat set" where "readers s = {t. phase s t = Reading}"
definition writers :: "lock_sys \<Rightarrow> nat set" where "writers s = {t. phase s t = Writing}"

text \<open>The counters describe the threads, a writer is alone, and a sleeping thread has a reason to sleep.\<close>

definition lock_inv :: "lock_sys \<Rightarrow> bool" where
  "lock_inv s \<longleftrightarrow>
     finite (readers s) \<and> reader_count (mtx s) = int (card (readers s)) \<and>
     (if writer_active (mtx s) then readers s = {} \<and> (\<exists>t. writers s = {t}) else writers s = {}) \<and>
     (\<forall>t. phase s t = SleepShared \<longrightarrow> writer_active (mtx s)) \<and>
     (\<forall>t. phase s t = SleepLock \<longrightarrow> writer_active (mtx s) \<or> readers s \<noteq> {})"

lemma wake_simps [simp]: "wake p = Reading \<longleftrightarrow> p = Reading" "wake p = Writing \<longleftrightarrow> p = Writing"
    "wake p \<noteq> SleepShared" "wake p \<noteq> SleepLock"
  by (cases p; simp)+

text \<open>How a change of one thread changes the two sets.\<close>

lemma readers_upd: "readers (s \<lparr> phase := (phase s) (t := p) \<rparr>) = (if p = Reading then insert t (readers s) else readers s - {t})"
  by (auto simp: readers_def)

lemma writers_upd: "writers (s \<lparr> phase := (phase s) (t := p) \<rparr>) = (if p = Writing then insert t (writers s) else writers s - {t})"
  by (auto simp: writers_def)

lemma readers_mk: "readers \<lparr> mtx = m, phase = f \<rparr> = {t. f t = Reading}" by (simp add: readers_def)
lemma writers_mk: "writers \<lparr> mtx = m, phase = f \<rparr> = {t. f t = Writing}" by (simp add: writers_def)

text \<open>Steps that change a thread outside the lock.\<close>

lemma lock_inv_quiet:
  assumes "lock_inv s" "phase s t \<noteq> Reading" "phase s t \<noteq> Writing" "p \<noteq> Reading" "p \<noteq> Writing"
    and "p = SleepShared \<Longrightarrow> writer_active (mtx s)" "p = SleepLock \<Longrightarrow> writer_active (mtx s) \<or> readers s \<noteq> {}"
  shows "lock_inv (s \<lparr> phase := (phase s) (t := p) \<rparr>)"
proof -
  have r: "readers (s \<lparr> phase := (phase s) (t := p) \<rparr>) = readers s" "writers (s \<lparr> phase := (phase s) (t := p) \<rparr>) = writers s"
    using assms(2-5) by (auto simp: readers_def writers_def)
  show ?thesis using assms unfolding lock_inv_def r by auto
qed

lemma lock_inv_enter_shared:
  assumes "lock_inv s" "phase s t = WantShared" "sm_lock_shared (mtx s) = Some m"
  shows "lock_inv \<lparr> mtx = m, phase = (phase s) (t := Reading) \<rparr>"
proof -
  let ?s = "\<lparr> mtx = m, phase = (phase s) (t := Reading) \<rparr>"
  have r: "readers ?s = insert t (readers s)" "writers ?s = writers s" "t \<notin> readers s"
    using assms(2) by (auto simp: readers_def writers_def)
  show ?thesis using assms unfolding lock_inv_def r by (auto simp: sm_defs r split: if_splits)
qed

lemma lock_inv_enter:
  assumes "lock_inv s" "phase s t = WantLock" "sm_lock (mtx s) = Some m"
  shows "lock_inv \<lparr> mtx = m, phase = (phase s) (t := Writing) \<rparr>"
proof -
  let ?s = "\<lparr> mtx = m, phase = (phase s) (t := Writing) \<rparr>"
  have r: "readers ?s = readers s" "writers ?s = insert t (writers s)"
    using assms(2) by (auto simp: readers_def writers_def)
  show ?thesis using assms unfolding lock_inv_def r by (auto simp: sm_defs split: if_splits)
qed

lemma lock_inv_unlock_shared:
  assumes "lock_inv s" "phase s t = Reading"
  shows "lock_inv (leave t (sm_unlock_shared (mtx s)) s)"
proof -
  let ?s = "leave t (sm_unlock_shared (mtx s)) s"
  have t: "t \<in> readers s" using assms(2) by (simp add: readers_def)
  have r: "readers ?s = readers s - {t}" "writers ?s = writers s"
    using assms(2) by (auto simp: readers_def writers_def leave_def)
  have f: "finite (readers s)" "reader_count (mtx s) = int (card (readers s))" "\<not> writer_active (mtx s)"
    using assms(1) t by (auto simp: lock_inv_def split: if_splits)
  have c: "card (readers s) = Suc (card (readers s - {t}))" using f(1) t by (metis card_Suc_Diff1)
  have e: "snd (sm_unlock_shared (mtx s)) \<longleftrightarrow> readers s - {t} = {}" using f c by (simp add: sm_defs Let_def)
  show ?thesis using assms(1) f c unfolding lock_inv_def r
    by (auto simp: leave_def sm_unlock_shared_def Let_def split: if_splits)
qed

lemma lock_inv_unlock:
  assumes "lock_inv s" "phase s t = Writing"
  shows "lock_inv (leave t (sm_unlock (mtx s)) s)"
proof -
  let ?s = "leave t (sm_unlock (mtx s)) s"
  have r: "readers ?s = readers s" "writers ?s = writers s - {t}"
    using assms(2) by (auto simp: readers_def writers_def leave_def)
  have w: "t \<in> writers s" using assms(2) by (simp add: writers_def)
  show ?thesis using assms(1) w unfolding lock_inv_def r by (auto simp: leave_def sm_unlock_def split: if_splits)
qed

lemma lock_waits:
  assumes "lock_inv s"
  shows "sm_lock_shared (mtx s) = None \<longleftrightarrow> writer_active (mtx s)"
    and "sm_lock (mtx s) = None \<Longrightarrow> writer_active (mtx s) \<or> readers s \<noteq> {}"
  using assms by (auto simp: sm_lock_shared_def sm_lock_def lock_inv_def split: if_splits)

lemma lock_inv_step:
  assumes "lock_inv s" "lock_step s s'"
  shows "lock_inv s'"
  using assms(2,1)
proof cases
  case (spurious t)
  show ?thesis
  proof (cases "phase s t = Reading \<or> phase s t = Writing")
    case True
    then have "s' = s" using spurious by (auto simp: fun_upd_idem)
    then show ?thesis using assms(1) by simp
  next
    case False
    then show ?thesis using assms(1) spurious by (auto intro!: lock_inv_quiet)
  qed
qed (use assms(1) in \<open>auto intro!: lock_inv_quiet lock_inv_enter_shared lock_inv_enter lock_inv_unlock_shared lock_inv_unlock
       simp: lock_waits(1) dest: lock_waits(2)\<close>)

lemma lock_inv_init: "lock_inv lock_init"
  by (simp add: lock_inv_def lock_init_def readers_def writers_def)

interpretation lck: step_invariant lock_init lock_step lock_inv
  by (unfold_locales, rule lock_inv_init, erule (1) lock_inv_step)

section \<open>Progress\<close>

definition free :: "lock_sys \<Rightarrow> bool" where "free s \<longleftrightarrow> readers s = {} \<and> writers s = {}"

lemma lock_inv_free:
  assumes "lock_inv s" "free s"
  shows "\<not> writer_active (mtx s)" "reader_count (mtx s) = 0" "wake (phase s t) = phase s t"
proof -
  show "\<not> writer_active (mtx s)" "reader_count (mtx s) = 0" using assms by (auto simp: lock_inv_def free_def split: if_splits)
  then have "phase s t \<noteq> SleepShared" "phase s t \<noteq> SleepLock" using assms by (auto simp: lock_inv_def free_def)
  then show "wake (phase s t) = phase s t" by (cases "phase s t") auto
qed

text \<open>The threads in the lock can leave it, and then everybody else is awake.\<close>

lemma drain_readers:
  assumes "lock_inv s" "writers s = {}"
  shows "\<exists>s'. lock_step\<^sup>*\<^sup>* s s' \<and> free s' \<and> lock_inv s' \<and> (\<forall>t. t \<notin> readers s \<longrightarrow> wake (phase s' t) = wake (phase s t))"
  using assms
proof (induction "card (readers s)" arbitrary: s)
  case 0
  then have "free s" by (auto simp: free_def lock_inv_def)
  then show ?case using 0 by blast
next
  case (Suc n)
  then have "readers s \<noteq> {}" by (metis card.empty nat.distinct(1))
  then obtain t where t: "phase s t = Reading" by (auto simp: readers_def)
  let ?s = "leave t (sm_unlock_shared (mtx s)) s"
  have st: "lock_step s ?s" by (rule unlock_shared[OF t])
  have r: "readers ?s = readers s - {t}" "writers ?s = {}"
    using t Suc.prems(2) by (auto simp: readers_def writers_def leave_def)
  have "t \<in> readers s" "finite (readers s)" using t Suc.prems(1) by (auto simp: readers_def lock_inv_def)
  then have "n = card (readers ?s)" using Suc.hyps(2) r by simp
  from Suc.hyps(1)[OF this lock_inv_step[OF Suc.prems(1) st] r(2)]
  obtain s' where s': "lock_step\<^sup>*\<^sup>* ?s s'" "free s'" "lock_inv s'" "\<forall>u. u \<notin> readers ?s \<longrightarrow> wake (phase s' u) = wake (phase ?s u)" by blast
  have "wake (wake p) = wake p" for p by (cases p) auto
  then have "wake (phase s' u) = wake (phase s u)" if "u \<notin> readers s" for u
    using s'(4) that r(1) t by (auto simp: leave_def readers_def)
  then show ?case using converse_rtranclp_into_rtranclp[OF st s'(1)] s'(2,3) by blast
qed

lemma drain:
  assumes "lock_inv s"
  shows "\<exists>s'. lock_step\<^sup>*\<^sup>* s s' \<and> free s' \<and> lock_inv s' \<and>
    (\<forall>t. t \<notin> readers s \<and> t \<notin> writers s \<longrightarrow> phase s' t = wake (phase s t))"
proof (cases "writers s = {}")
  case True
  obtain s' where s': "lock_step\<^sup>*\<^sup>* s s'" "free s'" "lock_inv s'" "\<forall>t. t \<notin> readers s \<longrightarrow> wake (phase s' t) = wake (phase s t)"
    using drain_readers[OF assms True] by blast
  then have "\<forall>t. t \<notin> readers s \<longrightarrow> phase s' t = wake (phase s t)" using lock_inv_free(3)[OF s'(3,2)] by simp
  then show ?thesis using s' by blast
next
  case False
  then obtain t where t: "writers s = {t}" "readers s = {}" using assms by (auto simp: lock_inv_def split: if_splits)
  then have pt: "phase s t = Writing" by (auto simp: writers_def)
  let ?s = "leave t (sm_unlock (mtx s)) s"
  have st: "lock_step s ?s" by (rule unlock[OF pt])
  have i: "lock_inv ?s" by (rule lock_inv_step[OF assms st])
  have f: "free ?s" using t by (auto simp: free_def readers_def writers_def leave_def)
  have "phase ?s u = wake (phase s u)" if "u \<notin> writers s" for u
    using that t by (auto simp: leave_def sm_unlock_def)
  then show ?thesis using st i f by blast
qed

lemma free_enter:
  assumes "lock_inv s" "free s"
  shows "phase s t = WantLock \<Longrightarrow> \<exists>s'. lock_step s s' \<and> phase s' t = Writing"
    and "phase s t = WantShared \<Longrightarrow> \<exists>s'. lock_step s s' \<and> phase s' t = Reading"
proof -
  note f = lock_inv_free[OF assms]
  show "\<exists>s'. lock_step s s' \<and> phase s' t = Writing" if "phase s t = WantLock"
    using lock_enter[OF that, of "(mtx s) \<lparr> writer_active := True \<rparr>"] f by (fastforce simp: sm_lock_def)
  show "\<exists>s'. lock_step s s' \<and> phase s' t = Reading" if "phase s t = WantShared"
    using shared_enter[OF that, of "(mtx s) \<lparr> reader_count := reader_count (mtx s) + 1 \<rparr>"] f by (fastforce simp: sm_lock_shared_def)
qed

lemma drain_enter:
  assumes i: "lock_inv s" and p: "phase s t \<noteq> Reading" "phase s t \<noteq> Writing"
  shows "wake (phase s t) = WantLock \<Longrightarrow> \<exists>s'. lock_step\<^sup>*\<^sup>* s s' \<and> phase s' t = Writing"
    and "wake (phase s t) = WantShared \<Longrightarrow> \<exists>s'. lock_step\<^sup>*\<^sup>* s s' \<and> phase s' t = Reading"
proof -
  obtain s' where s': "lock_step\<^sup>*\<^sup>* s s'" "free s'" "lock_inv s'" "phase s' t = wake (phase s t)"
    using drain[OF i] p by (auto simp: readers_def writers_def)
  show "\<exists>s'. lock_step\<^sup>*\<^sup>* s s' \<and> phase s' t = Writing" if "wake (phase s t) = WantLock"
    using free_enter(1)[OF s'(3,2), of t] s'(1,4) that by (metis rtranclp.rtrancl_into_rtrancl)
  show "\<exists>s'. lock_step\<^sup>*\<^sup>* s s' \<and> phase s' t = Reading" if "wake (phase s t) = WantShared"
    using free_enter(2)[OF s'(3,2), of t] s'(1,4) that by (metis rtranclp.rtrancl_into_rtrancl)
qed

section \<open>Properties\<close>

text \<open>C13: In every state the threads can reach, under any interleaving and with spurious wake-ups, the reader count is the
  number of threads that hold the lock shared, and while a thread holds it exclusively no other thread holds it.\<close>

lemma shared_mutex_exclusive:
  assumes "reach lock_init lock_step s"
  shows "reader_count (mtx s) = int (card {t. phase s t = Reading}) \<and>
    (\<forall>t u. phase s t = Writing \<and> u \<noteq> t \<longrightarrow> phase s u \<noteq> Reading \<and> phase s u \<noteq> Writing)"
  using lck.reach_inv[OF assms] by (auto simp: lock_inv_def readers_def writers_def set_eq_iff split: if_splits)

text \<open>C14: No wake-up is lost: in every reachable state a thread sleeps only while another thread holds the lock, and a
  thread that waits for the lock, shared or not, awake or asleep, still gets it on some continuation.\<close>

lemma shared_mutex_progress:
  assumes "reach lock_init lock_step s"
  shows "(phase s t \<in> {SleepShared, SleepLock} \<longrightarrow> (\<exists>u. phase s u = Reading \<or> phase s u = Writing)) \<and>
    (phase s t \<in> {WantLock, SleepLock} \<longrightarrow> (\<exists>s'. lock_step\<^sup>*\<^sup>* s s' \<and> phase s' t = Writing)) \<and>
    (phase s t \<in> {WantShared, SleepShared} \<longrightarrow> (\<exists>s'. lock_step\<^sup>*\<^sup>* s s' \<and> phase s' t = Reading))"
proof -
  note i = lck.reach_inv[OF assms]
  have "\<exists>u. phase s u = Reading \<or> phase s u = Writing" if "phase s t \<in> {SleepShared, SleepLock}"
    using i that by (auto simp: lock_inv_def readers_def writers_def split: if_splits)
  then show ?thesis using drain_enter[OF i, of t] by auto
qed

text \<open>A run in which thread 1 sleeps while thread 0 writes.\<close>

definition demo_locked :: lock_sys where
  "demo_locked = \<lparr> mtx = \<lparr> writer_active = True, reader_count = 0 \<rparr>, phase = (\<lambda>_. Idle) (0 := Writing, 1 := SleepShared) \<rparr>"

lemma demo_locked_reach: "reach lock_init lock_step demo_locked"
proof -
  let ?m0 = "\<lparr> writer_active = False, reader_count = 0 \<rparr>" and ?m1 = "\<lparr> writer_active = True, reader_count = 0 \<rparr>"
  have s1: "lock_step lock_init \<lparr> mtx = ?m0, phase = (\<lambda>_. Idle) (0 := WantLock) \<rparr>"
    using call_lock[of lock_init 0] by (simp add: lock_init_def)
  have s2: "lock_step \<lparr> mtx = ?m0, phase = (\<lambda>_. Idle) (0 := WantLock) \<rparr> \<lparr> mtx = ?m1, phase = (\<lambda>_. Idle) (0 := Writing) \<rparr>"
    using lock_enter[of "\<lparr> mtx = ?m0, phase = (\<lambda>_. Idle) (0 := WantLock) \<rparr>" 0 ?m1] by (simp add: sm_lock_def)
  have s3: "lock_step \<lparr> mtx = ?m1, phase = (\<lambda>_. Idle) (0 := Writing) \<rparr> \<lparr> mtx = ?m1, phase = (\<lambda>_. Idle) (0 := Writing, 1 := WantShared) \<rparr>"
    using call_shared[of "\<lparr> mtx = ?m1, phase = (\<lambda>_. Idle) (0 := Writing) \<rparr>" 1] by simp
  have s4: "lock_step \<lparr> mtx = ?m1, phase = (\<lambda>_. Idle) (0 := Writing, 1 := WantShared) \<rparr> demo_locked"
    using shared_wait[of "\<lparr> mtx = ?m1, phase = (\<lambda>_. Idle) (0 := Writing, 1 := WantShared) \<rparr>" 1]
    by (simp add: sm_lock_shared_def demo_locked_def)
  show ?thesis by (rule reach_step[where step = lock_step, OF _ s4], rule reach_step[where step = lock_step, OF _ s3], rule reach_step[where step = lock_step, OF _ s2], rule reach_step[where step = lock_step, OF _ s1], rule reach_init)
qed

lemma shared_mutex_exclusive_witness:
  "phase demo_locked 0 = Writing \<and> phase demo_locked 1 \<noteq> Reading \<and> phase demo_locked 1 \<noteq> Writing"
proof -
  have "phase demo_locked 0 = Writing" by (simp add: demo_locked_def)
  then show ?thesis using shared_mutex_exclusive[OF demo_locked_reach] by (metis zero_neq_one)
qed

lemma shared_mutex_progress_witness: "phase demo_locked 1 = SleepShared \<and> (\<exists>s'. lock_step\<^sup>*\<^sup>* demo_locked s' \<and> phase s' 1 = Reading)"
proof -
  have "phase demo_locked 1 = SleepShared" by (simp add: demo_locked_def)
  then show ?thesis using shared_mutex_progress[OF demo_locked_reach, of 1] by simp
qed

end
