(* ===== verification/Bfs_Session.thy ===== *)
theory Bfs_Session
  imports Bfs_Crypto
begin

text \<open>
  Messages between two security associations with the same key: the versions of \<^verbatim>\<open>encryptData\<close> and \<^verbatim>\<open>decryptData\<close> of
  \<^verbatim>\<open>src/src/bfs_utils/bfsSecAssociation.cpp\<close> that the client (in place) and the server (into another buffer) use.
  \<^verbatim>\<open>sa_ready\<close> is what an association keeps from one message to the next, \<^verbatim>\<open>sealed_msg\<close> is what a message is.
\<close>

section \<open>Associations and messages\<close>

definition sa_ready :: "byte list \<Rightarrow> sa_ctx \<Rightarrow> bool" where
  "sa_ready K s \<longleftrightarrow> (\<exists>k. saKey s = Some k \<and> key_ok k \<and> take 16 (keydat k) = K) \<and> fb_ok (sa_iv s) \<and> blength (sa_iv s) \<le> 44"

definition sealed_msg :: "gcrypt \<Rightarrow> byte list \<Rightarrow> byte list \<Rightarrow> byte list \<Rightarrow> byte list \<Rightarrow> bool" where
  "sealed_msg G K aad d msg \<longleftrightarrow>
     (\<exists>iv ct p. length iv = 12 \<and> msg = iv @ ct @ gcry_tag G K iv aad ct \<and>
        gcry_decrypt G K iv aad ct = Some (d @ replicate p (word_of_nat p)) \<and> 0 < p \<and> p \<le> 16 \<and> length ct = length d + p)"

lemma sealed_msg_length:
  assumes "sealed_msg G K aad d msg" "gcm_ok G"
  shows "length d + 28 < length msg" "length msg \<le> length d + 44"
  using assms by (auto simp: sealed_msg_def gcm_ok_def)

lemma sa_readyE:
  assumes "sa_ready K s"
  obtains k where "saKey s = Some k" "key_ok k" "take 16 (keydat k) = K" "fb_ok (sa_iv s)" "blength (sa_iv s) \<le> 44"
  using assms by (auto simp: sa_ready_def)

lemma sa_ready_bufs [simp]: "sa_ready K (s \<lparr> sa_buf := b \<rparr>) = sa_ready K s" "sa_ready K (s \<lparr> sa_out := b \<rparr>) = sa_ready K s"
  by (simp_all add: sa_ready_def)

lemma sa_ready_upd:
  assumes "key_ok k" "take 16 (keydat k) = K" "fb_ok iv" "blength iv \<le> 44"
  shows "sa_ready K (s \<lparr> sa_iv := iv, saKey := Some (k \<lparr> handle := h \<rparr>) \<rparr>)"
    "sa_ready K (s \<lparr> saKey := Some (k \<lparr> handle := h \<rparr>), sa_iv := iv \<rparr>)"
  using assms by (auto simp: sa_ready_def key_ok_def)

text \<open>The tag of a message that is built in the second buffer.\<close>

definition sa_swap :: "sa_ctx \<Rightarrow> sa_ctx" where
  "sa_swap s = s \<lparr> sa_buf := sa_out s, sa_out := sa_buf s \<rparr>"

lemma macData_swap: "macData G on_out on_out s = apsnd sa_swap (macData G on_buf on_buf (sa_swap s))"
  by (simp add: macData_def bindE_def seqE_def getE_def guardE_def throwE_def retE_def on_out_def on_buf_def on_key_def sa_swap_def
      Let_def split: prod.splits sum.splits option.splits) auto

lemma macData_out_ok:
  assumes G: "gcm_ok G" and key: "saKey s = Some k" "key_ok k" "handle k = Some (iv, aad, ct)"
    and out: "fb_ok (sa_out s)" "16 < blength (sa_out s)" "allocation (sa_out s) + 48 < 2 ^ 32"
  obtains b where "macData G on_out on_out s = (Inr (), s \<lparr> sa_out := b \<rparr>)" "fb_ok b"
    "fb_data b = fb_data (sa_out s) @ gcry_tag G (take 16 (keydat k)) iv aad ct"
proof -
  obtain b where b: "macData G on_buf on_buf (sa_swap s) = (Inr (), (sa_swap s) \<lparr> sa_buf := b \<rparr>)" "fb_ok b"
    "fb_data b = fb_data (sa_buf (sa_swap s)) @ gcry_tag G (take 16 (keydat k)) iv aad ct"
    by (rule macData_ok[OF G, of "sa_swap s" k iv aad ct]) (use key out in \<open>simp_all add: sa_swap_def\<close>)
  show thesis by (rule that[of b]) (use b in \<open>simp_all add: macData_swap sa_swap_def\<close>)
qed

section \<open>In place\<close>

text \<open>A successful operation leaves the association ready for the next message.\<close>

lemma macData_saKey:
  assumes "macData G on_buf on_buf s = (Inr (), s')" "sa_ready K s"
  shows "sa_ready K s'"
proof -
  obtain k where k: "saKey s = Some k" "key_ok k" "take 16 (keydat k) = K" "fb_ok (sa_iv s)" "blength (sa_iv s) \<le> 44"
    by (rule sa_readyE[OF assms(2)])
  have "saKey s' = Some k \<and> sa_iv s' = sa_iv s"
    using assms(1) k(1)
    by (auto simp: macData_def bindE_eq_Inr seqE_eq_Inr getE_def guardE_run on_eq on_key_eq_Inr Let_def doMAC_def retE_def throwE_def
        split: if_splits option.splits)
  then show ?thesis using k by (auto simp: sa_ready_def)
qed

lemma encryptData_ready:
  assumes "encryptData G rnd aad True s = (Inr (), s')" "sa_ready K s"
  shows "sa_ready K s'"
proof -
  obtain k where k: "saKey s = Some k" "key_ok k" "take 16 (keydat k) = K" "fb_ok (sa_iv s)" "blength (sa_iv s) \<le> 44"
    by (rule sa_readyE[OF assms(2)])
  have l: "ivlen k = 12" using k(2) by (simp add: key_ok_def)
  obtain iv1 where iv1: "random_iv rnd 12 (sa_iv s) = (Inr (map rnd [0..<12]), iv1)" "fb_ok iv1" "blength iv1 = 12"
    by (rule random_iv_ok[OF k(4,5)])
  obtain iv ct b where m: "macData G on_buf on_buf (s \<lparr> sa_iv := iv1, saKey := Some (k \<lparr> handle := Some (iv, aad, ct) \<rparr>), sa_buf := b \<rparr>) = (Inr (), s')"
    using assms(1) k(1) iv1(1) l
    by (auto simp: encryptData_def bindE_eq_Inr seqE_eq_Inr getE_def on_eq on_key_eq_Inr sa_key_eq_Inr key_encryptData_def
        guardE_run retE_def throwE_def modE_def split: option.splits if_splits)
  have "sa_ready K (s \<lparr> sa_iv := iv1, saKey := Some (k \<lparr> handle := Some (iv, aad, ct) \<rparr>), sa_buf := b \<rparr>)"
    using sa_ready_upd(1)[OF k(2,3) iv1(2)] iv1(3) by simp
  then show ?thesis by (rule macData_saKey[OF m])
qed

lemma iv_store:
  assumes "fb_ok iv" "blength iv \<le> 44"
    and "resetWithAlloc 12 0 BFSFLEXBUF_DEFAULT_PAD BFSFLEXBUF_DEFAULT_PAD False iv = (Inr r, iv1)"
    and "fb_overwrite d iv1 = (Inr (), iv2)" "length d = 12"
  shows "fb_ok iv2 \<and> blength iv2 \<le> 44"
proof -
  obtain iv1' where 1: "resetWithAlloc 12 0 BFSFLEXBUF_DEFAULT_PAD BFSFLEXBUF_DEFAULT_PAD False iv = (Inr 12, iv1')" "fb_ok iv1'"
      "fb_data iv1' = replicate 12 0"
    by (rule resetWithAlloc_rep[OF assms(1), of BFSFLEXBUF_DEFAULT_PAD 12 BFSFLEXBUF_DEFAULT_PAD 0])
      (use assms(2) in \<open>simp_all add: BFSFLEXBUF_DEFAULT_PAD_def\<close>)
  then have e: "iv1 = iv1'" using assms(3) by simp
  obtain iv2' where 2: "fb_overwrite d iv1' = (Inr (), iv2')" "fb_ok iv2'" "fb_data iv2' = d"
    using fb.over[OF 1(2), of d] 1(3) assms(5) by auto
  then show ?thesis using assms(4,5) e length_fb_data[OF 2(2)] by simp
qed

lemma doMAC_key: "doMAC G t v k = (r, k') \<Longrightarrow> k' = k"
  by (auto simp: doMAC_def bindE_def seqE_def getE_def guardE_def retE_def throwE_def Let_def split: if_splits option.splits)

lemma decryptData_ready:
  assumes "decryptData G aad True s = (Inr t, s')" "sa_ready K s" "fb_ok (sa_buf s)"
  shows "sa_ready K s'"
proof -
  obtain k where k: "saKey s = Some k" "key_ok k" "take 16 (keydat k) = K" "fb_ok (sa_iv s)" "blength (sa_iv s) \<le> 44"
    by (rule sa_readyE[OF assms(2)])
  have l: "ivlen k = 12" using k(2) by (simp add: key_ok_def)
  obtain b1 iv iv1 iv2 b2 pt k1 k2 r q where
    1: "removeTrailer (maclen k) (sa_buf s) = (Inr t, b1)"
    and 2: "resetWithAlloc 12 0 BFSFLEXBUF_DEFAULT_PAD BFSFLEXBUF_DEFAULT_PAD False (sa_iv s) = (Inr r, iv1)"
    and 3: "removeHeader 12 b1 = (Inr iv, b2)" "fb_overwrite iv iv1 = (Inr (), iv2)"
    and 5: "key_decryptData G iv aad (fb_data b2) k = (Inr pt, k1)" "doMAC G t True k1 = (Inr q, k2)"
    and 6: "saKey s' = Some k2" "sa_iv s' = iv2"
    using assms(1) k(1) l
    by (fastforce simp: decryptData_def bindE_eq_Inr seqE_eq_Inr getE_def on_eq on_key_eq_Inr sa_key_eq_Inr retE_def)
  have "k2 = k \<lparr> handle := Some (iv, aad, fb_data b2) \<rparr>" using doMAC_key[OF 5(2)] key_decryptData_Inr[OF 5(1)] by simp
  then have k2: "key_ok k2" "take 16 (keydat k2) = K" using k by (simp_all add: key_ok_def)
  have "length iv = 12" using removeHeader_Inr[OF _ 3(1)] removeTrailer_Inr[OF assms(3) 1] by simp
  from iv_store[OF k(4,5) 2 3(2) this] show ?thesis using k2 6 by (auto simp: sa_ready_def)
qed

lemma seal:
  assumes G: "gcm_ok G" and r: "sa_ready K s" and b: "fb_ok b" "allocation b + 200 < 2 ^ 32"
  obtains s' where "encryptData G rnd aad True (s \<lparr> sa_buf := b \<rparr>) = (Inr (), s')" "sa_ready K s'" "fb_ok (sa_buf s')"
    "sealed_msg G K aad (fb_data b) (fb_data (sa_buf s'))"
proof -
  let ?s = "s \<lparr> sa_buf := b \<rparr>"
  obtain k where k: "saKey s = Some k" "key_ok k" "take 16 (keydat k) = K" "fb_ok (sa_iv s)" "blength (sa_iv s) \<le> 44"
    by (rule sa_readyE[OF r])
  obtain s' p ct where e: "encryptData G rnd aad True ?s = (Inr (), s')" "fb_ok (sa_buf s')"
    "fb_data (sa_buf s') = map rnd [0..<12] @ ct @ gcry_tag G (take 16 (keydat k)) (map rnd [0..<12]) aad ct"
    "gcry_decrypt G (take 16 (keydat k)) (map rnd [0..<12]) aad ct = Some (fb_data (sa_buf ?s) @ replicate p (word_of_nat p))"
    "0 < p" "p \<le> 16" "length ct = blength (sa_buf ?s) + p"
    by (rule encryptData_ok[OF G, of ?s k rnd aad]) (use k b in auto)
  have "sealed_msg G K aad (fb_data b) (fb_data (sa_buf s'))"
    unfolding sealed_msg_def using e(3-7) k(3) b(1) by (intro exI[of _ "map rnd [0..<12]"] exI[of _ ct] exI[of _ p]) simp
  with that[OF e(1) encryptData_ready[OF e(1)] e(2)] r show thesis by simp
qed

lemma unseal:
  assumes G: "gcm_ok G" and r: "sa_ready K s" and b: "fb_ok b" and m: "sealed_msg G K aad d (fb_data b)"
  obtains s' t where "decryptData G aad True (s \<lparr> sa_buf := b \<rparr>) = (Inr t, s')" "sa_ready K s'" "fb_ok (sa_buf s')"
    "fb_data (sa_buf s') = d"
proof -
  let ?s = "s \<lparr> sa_buf := b \<rparr>"
  obtain k where k: "saKey s = Some k" "key_ok k" "take 16 (keydat k) = K" "fb_ok (sa_iv s)" "blength (sa_iv s) \<le> 44"
    by (rule sa_readyE[OF r])
  obtain iv ct p where p: "length iv = 12" "fb_data b = iv @ ct @ gcry_tag G K iv aad ct"
    "gcry_decrypt G K iv aad ct = Some (d @ replicate p (word_of_nat p))" "0 < p" "p \<le> 16" "length ct = length d + p"
    using m by (auto simp: sealed_msg_def)
  have t: "length (gcry_tag G K iv aad ct) = 16" "ct \<noteq> []" using G p(4,6) by (auto simp: gcm_ok_def)
  obtain s' where s': "decryptData G aad True ?s = (Inr (gcry_tag G K iv aad ct), s')" "fb_ok (sa_buf s')" "fb_data (sa_buf s') = d"
    by (rule decryptData_ok[of ?s k iv ct "gcry_tag G K iv aad ct" G aad d p]) (use k b p t in auto)
  with that[OF s'(1) decryptData_ready[OF s'(1)] s'(2,3)] r b show thesis by simp
qed

section \<open>Into another buffer\<close>

lemma resize_allocation:
  "resizeAllocation a b c fb = (Inr r, fb') \<Longrightarrow> allocation fb' \<le> max (allocation fb) (a + b + c)"
  by (auto simp: resizeAllocation_def Let_def u32_def split: if_splits sum.splits)

lemma fb_write_allocation: "fb_write off src fb = (Inr (), fb') \<Longrightarrow> allocation fb' = allocation fb"
  by (auto simp: fb_write_def split: if_splits option.splits)

lemma reset_allocation:
  "resetWithAlloc n f hp tp False fb = (Inr r, fb') \<Longrightarrow> allocation fb' \<le> max (allocation fb) (hp + n + tp)"
  by (auto simp: resetWithAlloc_def bindE_eq_Inr seqE_eq_Inr getE_def retE_def dest!: fb_write_allocation resize_allocation split: if_splits)

lemma reset_new:
  assumes "hp + n + tp < 2 ^ 32"
  obtains fb where "resetWithAlloc n 0 hp tp False flexbuf_new = (Inr n, fb)" "fb_ok fb"
    "fb_data fb = replicate n 0" "allocation fb \<le> hp + n + tp"
proof -
  have b: "blength flexbuf_new = 0" "allocation flexbuf_new = 0" by (simp_all add: flexbuf_new_def)
  obtain fb where fb: "resetWithAlloc n 0 hp tp False flexbuf_new = (Inr n, fb)" "fb_ok fb" "fb_data fb = replicate n 0"
    by (rule resetWithAlloc_rep[of flexbuf_new hp n tp 0]) (use assms b in auto)
  show thesis using that[OF fb] reset_allocation[OF fb(1)] b(2) by simp
qed

lemma seal_out:
  assumes G: "gcm_ok G" and r: "sa_ready K s" and b: "fb_ok b" "allocation b + 300 < 2 ^ 32"
  obtains s' where "encryptData_out G rnd aad True (s \<lparr> sa_buf := b, sa_out := flexbuf_new \<rparr>) = (Inr (), s')" "sa_ready K s'"
    "fb_ok (sa_out s')" "sealed_msg G K aad (fb_data b) (fb_data (sa_out s'))"
proof -
  let ?iv = "map rnd [0..<12]"
  obtain k where k: "saKey s = Some k" "key_ok k" "take 16 (keydat k) = K" "fb_ok (sa_iv s)" "blength (sa_iv s) \<le> 44"
    by (rule sa_readyE[OF r])
  obtain b1 p where b1: "addPKCS7Padding 16 b = (Inr p, b1)" "fb_ok b1" "fb_data b1 = fb_data b @ replicate p (word_of_nat p)"
      "0 < p" "p \<le> 16" "allocation b1 \<le> allocation b + 48"
    by (rule addPKCS7Padding_ok[OF b(1)]) (use b(2) in auto)
  have lb: "length (fb_data b) \<le> allocation b" using b(1) by (auto simp: fb_ok_def split: option.splits)
  let ?pt = "fb_data b1"
  have lp: "length ?pt = length (fb_data b) + p" using b1(3) by simp
  obtain o1 where o1: "resetWithAlloc (length ?pt) 0 BFSFLEXBUF_DEFAULT_PAD BFSFLEXBUF_DEFAULT_PAD False flexbuf_new = (Inr (length ?pt), o1)"
      "fb_ok o1" "fb_data o1 = replicate (length ?pt) 0" "allocation o1 \<le> BFSFLEXBUF_DEFAULT_PAD + length ?pt + BFSFLEXBUF_DEFAULT_PAD"
    by (rule reset_new[of BFSFLEXBUF_DEFAULT_PAD "length ?pt" BFSFLEXBUF_DEFAULT_PAD])
      (use lp b1(5) lb b(2) in \<open>auto simp: BFSFLEXBUF_DEFAULT_PAD_def\<close>)
  obtain iv1 where iv1: "random_iv rnd 12 (sa_iv s) = (Inr ?iv, iv1)" "fb_ok iv1" "blength iv1 = 12"
    by (rule random_iv_ok[OF k(4,5)])
  obtain ct where ct: "gcry_encrypt G K ?iv aad ?pt = Some ct" "length ct = length ?pt" "gcry_decrypt G K ?iv aad ct = Some ?pt"
    using G by (rule gcm_okE)
  let ?k = "k \<lparr> handle := Some (?iv, aad, ct) \<rparr>"
  have enc: "key_encryptData G ?iv aad ?pt k = (Inr ct, ?k)" using key_encrypt_run[OF k(2)] k(3) ct(1) by simp
  obtain o2 where o2: "fb_overwrite ct o1 = (Inr (), o2)" "fb_ok o2" "fb_data o2 = ct" "allocation o2 = allocation o1"
    using fb.over[OF o1(2), of ct] ct(2) o1(3) by auto
  have a2: "allocation o2 \<le> allocation b + 80" using o2(4) o1(4) lp b1(5) lb by (simp add: BFSFLEXBUF_DEFAULT_PAD_def)
  have "allocation o2 + length ?iv + BFSFLEXBUF_DEFAULT_PAD < 2 ^ 32" using a2 b(2) by (simp add: BFSFLEXBUF_DEFAULT_PAD_def)
  from fb.addH[OF o2(2) this] obtain o3 where o3: "addHeader ?iv o2 = (Inr (length (?iv @ ct)), o3)" "fb_ok o3"
      "fb_data o3 = ?iv @ ct" "allocation o3 \<le> allocation o2 + 44"
    using o2(3) by (auto simp: BFSFLEXBUF_DEFAULT_PAD_def)
  obtain b2 where b2: "removePKCS7Padding 16 b1 = (Inr p, b2)" by (rule removePKCS7Padding_ok[OF b1(2,3,4,5)])
  define s3 where "s3 = s \<lparr> sa_iv := iv1, saKey := Some ?k, sa_out := o3, sa_buf := b2 \<rparr>"
  have l3: "blength o3 = 12 + length ct" using length_fb_data[OF o3(2)] o3(3) by simp
  have m: "16 < blength (sa_out s3)" "allocation (sa_out s3) + 48 < 2 ^ 32" "saKey s3 = Some ?k" "key_ok ?k"
      "handle ?k = Some (?iv, aad, ct)" "fb_ok (sa_out s3)"
    using l3 ct(2) lp addPKCS7Padding_aligned[OF b1(1)] b(1) o3(2,4) a2 b(2) k(2) by (simp_all add: s3_def key_ok_def)
  obtain o4 where o4: "macData G on_out on_out s3 = (Inr (), s3 \<lparr> sa_out := o4 \<rparr>)" "fb_ok o4"
      "fb_data o4 = fb_data (sa_out s3) @ gcry_tag G (take 16 (keydat ?k)) ?iv aad ct"
    by (rule macData_out_ok[OF G m(3,4,5,6,1,2)])
  have run: "encryptData_out G rnd aad True (s \<lparr> sa_buf := b, sa_out := flexbuf_new \<rparr>) = (Inr (), s3 \<lparr> sa_out := o4 \<rparr>)"
    using k b1(1) o1(1) iv1(1) enc o2(1) o3(1) b2 o4(1) by (simp add: encryptData_out_def comp_simps key_ok_def s3_def)
  have "sealed_msg G K aad (fb_data b) (fb_data o4)"
    unfolding sealed_msg_def using o4(3) o3(3) ct(2,3) b1(3-5) k(3)
    by (intro exI[of _ ?iv] exI[of _ ct] exI[of _ p]) (simp add: s3_def)
  moreover have "sa_ready K s3" unfolding s3_def using k iv1 by (simp add: sa_ready_def key_ok_def)
  ultimately show thesis using that[OF run] o4(2) by simp
qed

lemma unseal_out:
  assumes G: "gcm_ok G" and r: "sa_ready K s" and b: "fb_ok b" "length (fb_data b) + 100 < 2 ^ 32" and m: "sealed_msg G K aad d (fb_data b)"
  obtains s' t where "decryptData_out G aad True (s \<lparr> sa_buf := b, sa_out := flexbuf_new \<rparr>) = (Inr t, s')" "sa_ready K s'"
    "fb_ok (sa_out s')" "fb_data (sa_out s') = d"
proof -
  obtain k where k: "saKey s = Some k" "key_ok k" "take 16 (keydat k) = K" "fb_ok (sa_iv s)" "blength (sa_iv s) \<le> 44"
    by (rule sa_readyE[OF r])
  obtain iv ct p where p: "length iv = 12" "fb_data b = iv @ ct @ gcry_tag G K iv aad ct"
    "gcry_decrypt G K iv aad ct = Some (d @ replicate p (word_of_nat p))" "0 < p" "p \<le> 16" "length ct = length d + p"
    using m by (auto simp: sealed_msg_def)
  let ?t = "gcry_tag G K iv aad ct" and ?pt = "d @ replicate p (word_of_nat p)" and ?k = "k \<lparr> handle := Some (iv, aad, ct) \<rparr>"
  have t: "length ?t = 16" "ct \<noteq> []" using G p(4,6) by (auto simp: gcm_ok_def)
  have "fb_data b = (iv @ ct) @ ?t" "fb_data b \<noteq> []" using p(2) t(2) by auto
  from fb.remT[OF b(1) this] t(1) obtain b1 where b1: "removeTrailer 16 b = (Inr ?t, b1)" "fb_ok b1" "fb_data b1 = iv @ ct" by auto
  obtain iv1 where iv1: "resetWithAlloc 12 0 BFSFLEXBUF_DEFAULT_PAD BFSFLEXBUF_DEFAULT_PAD False (sa_iv s) = (Inr 12, iv1)" "fb_ok iv1"
      "fb_data iv1 = replicate 12 0"
    by (rule resetWithAlloc_rep[OF k(4), of BFSFLEXBUF_DEFAULT_PAD 12 BFSFLEXBUF_DEFAULT_PAD 0])
      (use k(5) in \<open>simp_all add: BFSFLEXBUF_DEFAULT_PAD_def\<close>)
  have "fb_data b1 \<noteq> []" using b1(3) t(2) by simp
  from fb.remH[OF b1(2,3) this] p(1) obtain b2 where b2: "removeHeader 12 b1 = (Inr iv, b2)" "fb_ok b2" "fb_data b2 = ct" by auto
  obtain iv2 where iv2: "fb_overwrite iv iv1 = (Inr (), iv2)" using fb.over[OF iv1(2), of iv] iv1(3) p(1) by auto
  have ivok: "fb_ok iv2" "blength iv2 \<le> 44" using iv_store[OF k(4,5) iv1(1) iv2 p(1)] by auto
  obtain o1 where o1: "resetWithAlloc (length ct) 0 BFSFLEXBUF_DEFAULT_PAD BFSFLEXBUF_DEFAULT_PAD False flexbuf_new = (Inr (length ct), o1)"
      "fb_ok o1" "fb_data o1 = replicate (length ct) 0"
    by (rule reset_new[of BFSFLEXBUF_DEFAULT_PAD "length ct" BFSFLEXBUF_DEFAULT_PAD])
      (use b(2) p(2) in \<open>auto simp: BFSFLEXBUF_DEFAULT_PAD_def\<close>)
  have dk: "key_decryptData G iv aad ct k = (Inr ?pt, ?k)" using key_decrypt_run[OF k(2)] k(3) p(3) by simp
  obtain o2 where o2: "fb_overwrite ?pt o1 = (Inr (), o2)" "fb_ok o2" "fb_data o2 = ?pt"
    using fb.over[OF o1(2), of ?pt] o1(3) p(6) by auto
  have ver: "doMAC G ?t True ?k = (Inr ?t, ?k)" using k(2,3) by (simp add: doMAC_def comp_simps key_ok_def)
  obtain o3 where o3: "removePKCS7Padding 16 o2 = (Inr p, o3)" "fb_ok o3" "fb_data o3 = d"
    by (rule removePKCS7Padding_ok[OF o2(2,3) p(4,5)])
  have run: "decryptData_out G aad True (s \<lparr> sa_buf := b, sa_out := flexbuf_new \<rparr>) =
      (Inr ?t, s \<lparr> sa_buf := b2, sa_iv := iv2, saKey := Some ?k, sa_out := o3 \<rparr>)"
    using k b1(1) iv1(1) b2(1,3) iv2 o1(1) dk o2(1) ver o3(1) by (simp add: decryptData_out_def comp_simps key_ok_def)
  show thesis by (rule that[OF run]) (use k ivok o3 in \<open>auto simp: sa_ready_def key_ok_def\<close>)
qed

text \<open>A message that is accepted carries the tag of its parts and the associated data.\<close>

lemma on_out_eq: "on_out m s = (r, s') \<longleftrightarrow> (\<exists>b. m (sa_out s) = (r, b) \<and> s' = s \<lparr> sa_out := b \<rparr>)"
  by (auto simp: on_out_def split: prod.splits)

lemma decryptData_out_tag:
  assumes ok: "fb_ok (sa_buf s)" and r: "sa_ready K s" and acc: "decryptData_out G aad True s = (Inr t, s')"
  shows "\<exists>iv ct. fb_data (sa_buf s) = iv @ ct @ t \<and> length iv = 12 \<and> length t = 16 \<and> t = gcry_tag G K iv aad ct"
proof -
  obtain k where k: "saKey s = Some k" "key_ok k" "take 16 (keydat k) = K" by (rule sa_readyE[OF r])
  have kk: "ivlen k = 12" "maclen k = 16" using k(2) by (simp_all add: key_ok_def)
  from acc obtain b1 iv b2 pt k1 q k2 where 1: "removeTrailer (maclen k) (sa_buf s) = (Inr t, b1)"
    and 2: "removeHeader (ivlen k) b1 = (Inr iv, b2)"
    and 3: "key_decryptData G iv aad (fb_data b2) k = (Inr pt, k1)"
    and 4: "doMAC G t True k1 = (Inr q, k2)"
    by (fastforce simp: decryptData_out_def bindE_eq_Inr seqE_eq_Inr on_eq on_out_eq on_key_eq_Inr sa_key_eq_Inr getE_def retE_def k(1))
  have ok1: "fb_ok b1" and d1: "fb_data (sa_buf s) = fb_data b1 @ t" and t: "length t = 16"
    using removeTrailer_Inr[OF ok 1] kk by auto
  have d2: "fb_data b1 = iv @ fb_data b2" and iv: "length iv = 12" using removeHeader_Inr[OF ok1 2] kk by auto
  have "handle k1 = Some (iv, aad, fb_data b2)" "take 16 (keydat k1) = K" using key_decryptData_Inr[OF 3] k(3) by simp_all
  with doMAC_verify_Inr[OF 4] d1 d2 t iv show ?thesis by (intro exI[of _ iv] exI[of _ "fb_data b2"]) simp
qed

end
