(* ===== verification/Bfs_Frames.thy ===== *)
theory Bfs_Frames
  imports Bfs_Files Bfs_Format
begin

text \<open>
  What the file operations leave alone.  \<^verbatim>\<open>spares f m\<close> says that the computation \<^verbatim>\<open>m\<close> does not change \<^verbatim>\<open>f\<close> of the state,
  whether it succeeds or raises.  The rules follow the structure of the computations, so each operation takes one
  line; the collection \<^verbatim>\<open>spare_rules\<close> grows with the operations.

  The result is that no operation of the file system, mounting and formatting included, touches the users, their keys,
  their sequence numbers or anything else outside the handle.
\<close>

definition spares :: "('s \<Rightarrow> 'b) \<Rightarrow> ('s, 'a) comp \<Rightarrow> bool" where
  "spares f m \<longleftrightarrow> (\<forall>s. f (snd (m s)) = f s)"

named_theorems spare_rules \<open>computations that leave a part of the state alone\<close>

lemma sparesD: "spares f m \<Longrightarrow> m s = (r, s') \<Longrightarrow> f s' = f s"
  by (metis spares_def snd_conv)

lemma spares_basic [spare_rules]:
  "spares f (retE x)" "spares f (throwE e)" "spares f (getE g)" "spares f (guardE b e)" "spares f (liftS r)" "spares f (lift_buf q fb)"
  by (auto simp: spares_def retE_def throwE_def getE_def guardE_def liftS_def lift_buf_def split: prod.splits sum.splits)

lemma spares_mod [spare_rules]: "(\<And>s. f (g s) = f s) \<Longrightarrow> spares f (modE g)"
  by (simp add: spares_def modE_def)

lemma spares_bind [spare_rules]: "spares f m \<Longrightarrow> (\<And>x. spares f (k x)) \<Longrightarrow> spares f (bindE m k)"
  by (simp add: spares_def bindE_def split: prod.splits sum.splits) (metis snd_conv)

lemma spares_seq [spare_rules]: "spares f m \<Longrightarrow> spares f k \<Longrightarrow> spares f (seqE m k)"
  by (simp add: seqE_def spares_bind)

lemma spares_catch [spare_rules]: "spares f m \<Longrightarrow> (\<And>e. spares f (h e)) \<Longrightarrow> spares f (catchE m h)"
  by (simp add: spares_def catchE_def split: prod.splits sum.splits) (metis snd_conv)

lemma spares_if [spare_rules]: "spares f a \<Longrightarrow> spares f b \<Longrightarrow> spares f (if c then a else b)"
  by simp

lemma spares_let [spare_rules]: "spares f (g x) \<Longrightarrow> spares f (Let x g)"
  by simp

lemma spares_option [spare_rules]: "spares f a \<Longrightarrow> (\<And>x. spares f (b x)) \<Longrightarrow> spares f (case o1 of None \<Rightarrow> a | Some x \<Rightarrow> b x)"
  by (cases o1) simp_all

lemma spares_prod [spare_rules]: "(\<And>x y. spares f (c x y)) \<Longrightarrow> spares f (case p of (x, y) \<Rightarrow> c x y)"
  by (cases p) simp

lemma spares_prod_app [spare_rules]: "(\<And>x y. spares f (c x y z)) \<Longrightarrow> spares f ((case p of (x, y) \<Rightarrow> c x y) z)"
  by (cases p) simp

lemma spares_list [spare_rules]: "spares f a \<Longrightarrow> (\<And>x xs. spares f (b x xs)) \<Longrightarrow> spares f (case l of [] \<Rightarrow> a | x # xs \<Rightarrow> b x xs)"
  by (cases l) simp_all

lemma spares_sum [spare_rules]: "(\<And>x. spares f (a x)) \<Longrightarrow> (\<And>x. spares f (b x)) \<Longrightarrow> spares f (case r of Inl x \<Rightarrow> a x | Inr x \<Rightarrow> b x)"
  by (cases r) simp_all

section \<open>The block layers\<close>

text \<open>They leave alone what extends their state.\<close>

lemma spares_on_vbc [spare_rules]: "spares fs_layer.more (on_vbc m)"
  by (simp add: spares_def on_vbc_def split: prod.splits)

lemma spares_on_sa [spare_rules]: "spares fs_layer.more (on_sa m d)"
  by (simp add: spares_def on_sa_def split: prod.splits option.splits)

lemma spares_node_ptr [spare_rules]: "spares fs_layer.more (node_ptr i)"
  by (simp add: spares_def node_ptr_def)

lemma spares_block [spare_rules]:
  "spares fs_layer.more need_key" "spares fs_layer.more (do_get_block b)" "spares fs_layer.more (do_put_block b d)"
  by (unfold need_key_def do_get_block_def do_put_block_def; intro spare_rules; simp)+

lemma spares_catch_block [spare_rules]: "spares f m \<Longrightarrow> spares f h \<Longrightarrow> spares f (catch_block_error m h)" "spares f m \<Longrightarrow> spares f (catch_crypto m)"
  by (unfold catch_block_error_def catch_crypto_def; intro spare_rules; simp)+

lemma spares_block_helpers [spare_rules]: "spares fs_layer.more (read_block_helper E v)" "spares fs_layer.more (write_block_helper E v d)"
  by (unfold read_block_helper_def write_block_helper_def; intro spare_rules; simp)+

lemma spares_blk_meta [spare_rules]: "spares fs_layer.more (read_blk_meta E b iv mac rt)" "spares fs_layer.more (write_blk_meta E b iv mac rt)"
  by (unfold read_blk_meta_def write_blk_meta_def; intro spare_rules; simp)+

lemma spares_nodes [spare_rules]:
  "spares fs_layer.more (node_write i v)" "spares fs_layer.more (node_assign i p)" "spares fs_layer.more (child_bytes i n)"
  by (unfold node_write_def node_assign_def child_bytes_def; intro spare_rules; simp)+

lemma spares_hash [spare_rules]: "spares fs_layer.more (hash_node E i p)"
  by (unfold hash_node_def; intro spare_rules; simp)

lemma spares_rehash [spare_rules]: "spares fs_layer.more (rehash E i)"
  by (unfold rehash_def; intro spare_rules; simp)

lemma spares_rehash_up [spare_rules]: "spares fs_layer.more (rehash_up E i :: ('z fs_layer_scheme, unit) comp)"
proof (induction E i rule: rehash_up.induct)
  case (1 E i)
  show ?case by (subst rehash_up.simps) (auto intro!: spare_rules 1)
qed

lemma spares_tree [spare_rules]:
  "spares fs_layer.more (mt_setup E)" "spares fs_layer.more (save_parent i)" "spares fs_layer.more (parent_changed i)" "spares fs_layer.more (save_root_hash E)"
  by (unfold mt_setup_def save_parent_def parent_changed_def save_root_hash_def; intro spare_rules; simp add: Let_def)+

lemma spares_init_nodes [spare_rules]: "spares fs_layer.more (init_nodes E ini n)"
  by (induction n) (simp only: init_nodes.simps, intro spare_rules; simp)+

lemma spares_merkle [spare_rules]:
  "spares fs_layer.more (init_merkle_tree E ini)" "spares fs_layer.more (flush_merkle_tree E)"
  "spares fs_layer.more (mt_write_blk E v d)" "spares fs_layer.more (mt_read_blk E v d)"
  by (unfold init_merkle_tree_def flush_merkle_tree_def mt_write_blk_def mt_read_blk_def; intro spare_rules; simp)+

lemma spares_crypt [spare_rules]:
  "spares fs_layer.more (next_random E n)" "spares fs_layer.more (in_meta_range v)" "spares fs_layer.more data_start"
  by (unfold next_random_def in_meta_range_def data_start_def; intro spare_rules; simp)+

lemma spares_crypt_blk [spare_rules]: "spares fs_layer.more (encrypt_blk E a d)" "spares fs_layer.more (decrypt_blk E a iv mac d)"
  by (unfold encrypt_blk_def decrypt_blk_def; intro spare_rules; simp)+

lemma spares_core: "spares fs_layer.more m \<Longrightarrow> spares core_blk.more (m :: ('z core_blk_scheme, 'a) comp)"
  unfolding spares_def
proof (intro allI)
  fix s :: "'z core_blk_scheme"
  assume "\<forall>s. fs_layer.more (snd (m s)) = fs_layer.more s"
  then have "fs_layer.more (snd (m s)) = fs_layer.more s" by simp
  then show "core_blk.more (snd (m s)) = core_blk.more s" by (cases "snd (m s)"; cases s) simp
qed

lemmas spares_core_lift [spare_rules] = spares_crypt[THEN spares_core] spares_crypt_blk[THEN spares_core] spares_merkle[THEN spares_core]
  spares_block[THEN spares_core] spares_block_helpers[THEN spares_core] spares_blk_meta[THEN spares_core] spares_on_vbc[THEN spares_core]

lemma spares_rw_blk [spare_rules]: "spares core_blk.more (read_blk E v)" "spares core_blk.more (write_blk E v d sync)"
  by (unfold read_blk_def write_blk_def; intro spare_rules; simp)+

lemma spares_read_blks [spare_rules]: "spares core_blk.more (read_blks E vs)"
  by (induction vs) (simp only: read_blks.simps, intro spare_rules; simp)+

lemma spares_inode [spare_rules]: "spares core_blk.more (read_inode E i)" "spares core_blk.more (write_inode E j a b c)"
  by (unfold read_inode_def write_inode_def; intro spare_rules; simp)+

lemma spares_chain [spare_rules]: "spares core_blk.more (write_chain E vs d)"
  by (induction vs arbitrary: d) (simp only: write_chain.simps, intro spare_rules; simp)+

lemma spares_burned [spare_rules]: "spares core_blk.more (write_burned E vs d)"
  by (induction vs arbitrary: d) (simp only: write_burned.simps, intro spare_rules; simp)+

lemma spares_mkfs_parts [spare_rules]:
  "spares core_blk.more (mkfs_super E n)" "spares core_blk.more (mkfs_ibm E n t)" "spares core_blk.more (mkfs_itab E r t)"
  "spares core_blk.more (mkfs_root E n r t)" "spares core_blk.more (mkfs_rest E n t)"
  by (unfold mkfs_super_def mkfs_ibm_def mkfs_itab_def mkfs_root_def mkfs_rest_def; intro spare_rules; simp)+

lemma spares_mkfs [spare_rules]: "spares core_blk.more (mkfs E)"
  by (unfold mkfs_def; intro spare_rules; simp)

section \<open>The handle\<close>

text \<open>The users and everything that extends the handle.\<close>

definition sess :: "'z bfs_handle_scheme \<Rightarrow> acl \<times> 'z" where
  "sess s = (acl_layer s, bfs_handle.more s)"

lemma spares_sess: "spares core_blk.more m \<Longrightarrow> spares sess (m :: ('z bfs_handle_scheme, 'a) comp)"
  unfolding spares_def
proof (intro allI)
  fix s :: "'z bfs_handle_scheme"
  assume "\<forall>s. core_blk.more (snd (m s)) = core_blk.more s"
  then have "core_blk.more (snd (m s)) = core_blk.more s" by simp
  then show "sess (snd (m s)) = sess s" by (cases "snd (m s)"; cases s) (simp add: sess_def)
qed

lemmas spares_sess_lift [spare_rules] = spares_core_lift[THEN spares_sess] spares_rw_blk[THEN spares_sess] spares_read_blks[THEN spares_sess]
  spares_inode[THEN spares_sess] spares_mkfs[THEN spares_sess]

lemma sess_upd [simp]:
  "sess (s \<lparr> sb := a \<rparr>) = sess s" "sess (s \<lparr> open_file_tab := b \<rparr>) = sess s" "sess (s \<lparr> next_fd := n \<rparr>) = sess s"
  "sess (s \<lparr> status := t \<rparr>) = sess s" "sess (s \<lparr> curr_par := p \<rparr>) = sess s"
  by (simp_all add: sess_def)

lemma spares_super [spare_rules]: "spares sess sb_alloc" "spares sess (sb_dealloc v)"
  by (simp_all add: spares_def sb_alloc_def sb_dealloc_def bindE_def getE_def split: prod.splits)

lemma spares_alloc_fd [spare_rules]: "spares sess alloc_fd"
  by (unfold alloc_fd_def; intro spare_rules; simp)

lemma spares_at_blk [spare_rules]: "spares f (at_blk xs i)"
  by (unfold at_blk_def; intro spare_rules; simp)

lemma spares_dealloc_until [spare_rules]: "spares sess (dealloc_until vs)"
  by (induction vs) (simp only: dealloc_until.simps, intro spare_rules; simp)+

lemma spares_inodes [spare_rules]: "spares sess (alloc_ino E)" "spares sess (delete_inode_iblks E i)"
  by (unfold alloc_ino_def delete_inode_iblks_def; intro spare_rules; simp)+

lemma spares_dealloc_ino [spare_rules]: "spares sess (dealloc_ino E i)"
  by (unfold dealloc_ino_def; intro spare_rules; simp)

section \<open>Directories and files\<close>

lemma spares_checks [spare_rules]: "spares sess (check_access u i)" "spares f (check_name_len nm)" "spares f (usr_id u)" "spares sess (open_at fh)"
  by (unfold check_access_def check_name_len_def usr_id_def open_at_def; intro spare_rules; simp)+

lemma spares_dir_inode [spare_rules]: "spares sess (dir_inode E u i)" "spares sess (open_insert fh o1)"
  by (unfold dir_inode_def open_insert_def; intro spare_rules; simp)+

lemma spares_check_blks [spare_rules]: "spares sess (check_blks E ino nm i vs sc)"
  by (induction vs arbitrary: sc) (simp only: check_blks.simps, intro spare_rules; simp)+

lemma spares_direct [spare_rules]: "spares sess (check_direct_blks E u nm a b sc)" "spares sess (check_indirect_blks E u nm a b sc)"
  by (unfold check_direct_blks_def check_indirect_blks_def; intro spare_rules; simp)+

lemma spares_get_de_loop [spare_rules]: "spares sess (get_de_loop E u ps a de b)"
  by (induction ps arbitrary: a de b) (simp only: get_de_loop.simps, intro spare_rules; simp)+

lemma spares_get_de [spare_rules]: "spares sess (get_de E u nm)" "spares sess (fill_slot E de ino nm j d i)"
  by (unfold get_de_def fill_slot_def; intro spare_rules; simp)+

lemma spares_add_direct_loop [spare_rules]: "spares sess (add_direct_loop E ino nm vs i b sc)"
  by (induction vs arbitrary: i b sc) (simp only: add_direct_loop.simps, intro spare_rules; simp)+

lemma spares_add_indirect_loop [spare_rules]: "spares sess (add_indirect_loop E ino nm vs v d ib i b sc)"
  by (induction vs arbitrary: v d ib i b sc) (simp only: add_indirect_loop.simps, intro spare_rules; simp)+

lemma spares_add [spare_rules]: "spares sess (add_dentry_to_direct_blks E i j nm)" "spares sess (add_dentry_to_indirect_blks E i j nm)"
  by (unfold add_dentry_to_direct_blks_def add_dentry_to_indirect_blks_def; intro spare_rules; simp)+

lemma spares_add_dentry [spare_rules]: "spares sess (add_dentry E i j nm)"
  by (unfold add_dentry_def; intro spare_rules; simp)

lemma spares_path [spare_rules]:
  "spares sess (path_inode E u nm)" "spares sess (parent_inode E u nm)" "spares sess (store_dentry E de)" "spares sess (drop_link E i)"
  by (unfold path_inode_def parent_inode_def store_dentry_def drop_link_def; intro spare_rules; simp)+

lemma spares_new_entry [spare_rules]: "spares sess (new_entry E u nm)"
  by (unfold new_entry_def; intro spare_rules; simp)

lemma spares_prealloc_list [spare_rules]: "spares sess (prealloc_list n)"
  by (induction n) (simp only: prealloc_list.simps, intro spare_rules; simp)+

lemma spares_prealloc [spare_rules]: "spares sess (prealloc_blks E i)" "spares sess (open_inode E u fh)"
  by (unfold prealloc_blks_def open_inode_def; intro spare_rules; simp)+

lemma spares_handlers [spare_rules]:
  "spares sess (bfs_getattr E u nm)" "spares sess (bfs_opendir E u nm)" "spares sess (bfs_readdir E u fh)"
  "spares sess (bfs_mkdir E u nm m)" "spares sess (bfs_rmdir E u nm)" "spares sess (bfs_unlink E u nm)"
  "spares sess (bfs_rename E u nm nm')" "spares sess (bfs_create E u nm m)" "spares sess (bfs_chmod E u nm m)"
  "spares sess (bfs_open E u nm m)" "spares sess (bfs_fsync E u fh)" "spares sess (bfs_release E u fh)"
  by (unfold bfs_getattr_def bfs_opendir_def bfs_readdir_def bfs_mkdir_def bfs_rmdir_def bfs_unlink_def bfs_rename_def bfs_create_def
      bfs_chmod_def bfs_open_def bfs_fsync_def bfs_release_def; intro spare_rules; simp)+

lemma spares_of_set_offset [spare_rules]: "spares sess (of_set_offset fh off)" "spares sess (read_pos E i off a ib b)"
  by (unfold of_set_offset_def read_pos_def; intro spare_rules; simp)+

lemma spares_file_pos [spare_rules]:
  "spares f a \<Longrightarrow> spares f b \<Longrightarrow> (\<And>v i ib j. spares f (c v i ib j)) \<Longrightarrow>
   spares f (case p of FP_break \<Rightarrow> a | FP_full \<Rightarrow> b | FP_blk v i ib j \<Rightarrow> c v i ib j)"
  by (cases p) simp_all

lemma spares_read_loop [spare_rules]: "spares sess (read_loop E i sz n num off idx ib iidx buf)"
  by (induction n arbitrary: num off idx ib iidx buf) (simp only: read_loop.simps, intro spare_rules; simp)+

lemma spares_write_pos [spare_rules]: "spares sess (write_pos E i idx ib iidx u)"
  by (unfold write_pos_def; intro spare_rules; simp)

lemma spares_write_loop [spare_rules]: "spares sess (write_loop E w n num i off idx ib iidx u)"
  by (induction n arbitrary: num i off idx ib iidx u) (simp only: write_loop.simps, intro spare_rules; simp)+

lemma spares_files [spare_rules]: "spares sess (bfs_read E u fh buf off)" "spares sess (bfs_write E u fh dat off)"
  by (unfold bfs_read_def bfs_write_def; intro spare_rules; simp)+

section \<open>Mounting\<close>

lemma spares_mount_dentry [spare_rules]: "spares f (mount_dentry blk i nm)"
  by (unfold mount_dentry_def; intro spare_rules; simp)

lemma sess_new_par [simp]: "sess (new_par n s) = sess s"
  by (simp add: sess_def new_par_def)

lemma sess_BfsHandle [simp]: "sess (BfsHandle_init s) = sess s" "sess (BfsHandle_destroy s) = sess s"
  by (simp_all add: sess_def BfsHandle_init_def BfsHandle_destroy_def)

lemma spares_mount [spare_rules]: "spares sess (mount E)"
  by (unfold mount_def; intro spare_rules; simp)

end
