(* ===== verification/Bfs_Server.thy ===== *)
theory Bfs_Server
  imports Bfs_Format Bfs_Network
begin

text \<open>
  The request handlers of the server, \<^verbatim>\<open>src/src/bfs_fs/bfs_server_ecalls.cpp\<close>: the entry point that decrypts a
  message and dispatches on its operation code, and one handler per operation that reads the arguments from the
  packet, runs the operation on the file system handle, turns exceptions into return codes and sends the encrypted
  reply.

  The handlers are those of the native file system with the performance measurements switched off.
\<close>

section \<open>Codes and state\<close>

definition FROM_SERVER :: int where "FROM_SERVER = 0"
definition TO_SERVER :: int where "TO_SERVER = 1"

definition CLIENT_GETATTR_OP :: int where "CLIENT_GETATTR_OP = 0"
definition CLIENT_MKDIR_OP :: int where "CLIENT_MKDIR_OP = 1"
definition CLIENT_UNLINK_OP :: int where "CLIENT_UNLINK_OP = 2"
definition CLIENT_RMDIR_OP :: int where "CLIENT_RMDIR_OP = 3"
definition CLIENT_RENAME_OP :: int where "CLIENT_RENAME_OP = 4"
definition CLIENT_OPEN_OP :: int where "CLIENT_OPEN_OP = 5"
definition CLIENT_READ_OP :: int where "CLIENT_READ_OP = 6"
definition CLIENT_WRITE_OP :: int where "CLIENT_WRITE_OP = 7"
definition CLIENT_RELEASE_OP :: int where "CLIENT_RELEASE_OP = 8"
definition CLIENT_FSYNC_OP :: int where "CLIENT_FSYNC_OP = 9"
definition CLIENT_OPENDIR_OP :: int where "CLIENT_OPENDIR_OP = 10"
definition CLIENT_READDIR_OP :: int where "CLIENT_READDIR_OP = 11"
definition CLIENT_INIT_OP :: int where "CLIENT_INIT_OP = 12"
definition CLIENT_INIT_MKFS_OP :: int where "CLIENT_INIT_MKFS_OP = 13"
definition CLIENT_DESTROY_OP :: int where "CLIENT_DESTROY_OP = 14"
definition CLIENT_CREATE_OP :: int where "CLIENT_CREATE_OP = 15"
definition CLIENT_CHMOD_OP :: int where "CLIENT_CHMOD_OP = 16"
definition CLIENT_TRUNCATE_OP :: int where "CLIENT_TRUNCATE_OP = 17"

lemmas op_codes = FROM_SERVER_def TO_SERVER_def CLIENT_GETATTR_OP_def CLIENT_MKDIR_OP_def CLIENT_UNLINK_OP_def
  CLIENT_RMDIR_OP_def CLIENT_RENAME_OP_def CLIENT_OPEN_OP_def CLIENT_READ_OP_def CLIENT_WRITE_OP_def CLIENT_RELEASE_OP_def
  CLIENT_FSYNC_OP_def CLIENT_OPENDIR_OP_def CLIENT_READDIR_OP_def CLIENT_INIT_OP_def CLIENT_INIT_MKFS_OP_def
  CLIENT_DESTROY_OP_def CLIENT_CREATE_OP_def CLIENT_CHMOD_OP_def CLIENT_TRUNCATE_OP_def

text \<open>The return codes of the handlers: \<^verbatim>\<open>BFS_SUCCESS\<close> and \<^verbatim>\<open>BFS_FAILURE\<close>, and the error numbers of the system.\<close>

abbreviation rc_success :: int where "rc_success \<equiv> 0"
abbreviation rc_failure :: int where "rc_failure \<equiv> - 1"

definition EPERM :: int where "EPERM = 1"
definition ENOENT :: int where "ENOENT = 2"

text \<open>What the handlers find outside the handle: whether the layers below start, the security association that the
  configuration gives a new user (\<^const>\<open>None\<close>: the section is missing), and what uninitialised variables hold.\<close>

record srv_env =
  srv_boot :: bool
  srv_sa :: "sa_ctx option"
  srv_stack :: "nat \<Rightarrow> int"

text \<open>The static variables of the file and what the handlers reach through a user context.  \<^verbatim>\<open>sent\<close> are the packets
  handed to the network, in order; nothing can be written to a connection that is not \<^verbatim>\<open>link_up\<close>.\<close>

record server = bfs_handle +
  handle_set :: bool
  fs_initialized :: bool
  enclave_initialized :: bool
  user_sas :: "nat \<Rightarrow> sa_ctx option"
  link_up :: "nat \<Rightarrow> bool"
  sent :: "(nat \<times> byte list) list"

section \<open>Packets\<close>

text \<open>\<^verbatim>\<open>std::string (&rpkt.getBuffer () [off])\<close> reads to the first zero byte of the allocation.\<close>

definition c_str :: "nat \<Rightarrow> flexbuf \<Rightarrow> bfs_error + string" where
  "c_str off fb = (case buffer fb of
     None \<Rightarrow> Inl BfsBadPointer
   | Some b \<Rightarrow>
       (let p = drop (hlength fb + off) b in
        if 0 \<in> set p then Inr (map char_of_byte (takeWhile (\<lambda>c. c \<noteq> 0) p)) else Inl BfsOutOfBounds))"

definition on_acl :: "(acl, 'a) comp \<Rightarrow> ('z bfs_handle_scheme, 'a) comp" where
  "on_acl m = (\<lambda>s. case m (acl_layer s) of (r, a) \<Rightarrow> (r, s \<lparr> acl_layer := a \<rparr>))"

definition seq_aad :: "nat \<Rightarrow> byte list" where
  "seq_aad n = fb_encode U32T (int n)"

definition map_user :: "nat \<Rightarrow> (user_ctx \<Rightarrow> user_ctx) \<Rightarrow> 'z bfs_handle_scheme \<Rightarrow> 'z bfs_handle_scheme" where
  "map_user conn f s =
     s \<lparr> acl_layer := (acl_layer s) \<lparr> user_contexts := (user_contexts (acl_layer s)) (conn := map_option f (user_contexts (acl_layer s) conn)) \<rparr> \<rparr>"

definition the_user :: "nat \<Rightarrow> ('z bfs_handle_scheme, user_ctx) comp" where
  "the_user conn = bindE (getE (\<lambda>s. user_contexts (acl_layer s) conn)) (\<lambda>u. case u of
     None \<Rightarrow> throwE BfsBadPointer | Some c \<Rightarrow> retE c)"

text \<open>An operation of the security association of a connection, with the given source buffer and an empty target.  The
  result has the target.\<close>

definition on_user_sa :: "nat \<Rightarrow> (sa_ctx, 'a) comp \<Rightarrow> flexbuf \<Rightarrow> ('z server_scheme, flexbuf) comp" where
  "on_user_sa conn m inp = (\<lambda>s. case user_sas s conn of
     None \<Rightarrow> (Inl BfsBadPointer, s)
   | Some sa \<Rightarrow> (case m (sa \<lparr> sa_buf := inp, sa_out := flexbuf_new \<rparr>) of (r, sa') \<Rightarrow>
       (map_sum id (\<lambda>_. sa_out sa') r, s \<lparr> user_sas := (user_sas s) (conn \<mapsto> sa') \<rparr>)))"

text \<open>The handler for \<^verbatim>\<open>bfsCryptoError\<close>; \<^const>\<open>None\<close> means that the caller returns \<^verbatim>\<open>BFS_FAILURE\<close>.\<close>

definition no_crypto_error :: "('s, 'a) comp \<Rightarrow> ('s, 'a option) comp" where
  "no_crypto_error m = catchE (bindE m (\<lambda>x. retE (Some x))) (\<lambda>e. if e = bfsCryptoError then retE None else throwE e)"

definition decrypt_msg :: "bfs_env \<Rightarrow> nat \<Rightarrow> byte list \<Rightarrow> ('z server_scheme, flexbuf option) comp" where
  "decrypt_msg E conn pkt = no_crypto_error
     (bindE (the_user conn) (\<lambda>usr.
      bindE (on_user_sa conn (decryptData_out (env_gcrypt E) (seq_aad (user_recv_seq usr)) True) (net_buf pkt)) (\<lambda>rpkt.
      seqE (modE (map_user conn inc_recv_seq)) (retE rpkt))))"

definition encrypt_msg :: "bfs_env \<Rightarrow> nat \<Rightarrow> flexbuf \<Rightarrow> ('z server_scheme, byte list option) comp" where
  "encrypt_msg E conn spkt = no_crypto_error
     (bindE (the_user conn) (\<lambda>usr.
      bindE (getE (\<lambda>s. case user_sas s conn of None \<Rightarrow> 0 | Some sa \<Rightarrow> (case saKey sa of None \<Rightarrow> 0 | Some k \<Rightarrow> ivlen k))) (\<lambda>n.
      bindE (next_random E n) (\<lambda>rnd.
      bindE (on_user_sa conn (encryptData_out (env_gcrypt E) rnd (seq_aad (user_send_seq usr)) True) spkt) (\<lambda>enc.
      seqE (modE (map_user conn inc_send_seq)) (retE (fb_data enc)))))))"

text \<open>What \<^verbatim>\<open>sendPacketizedDataL\<close> returns: the length, and 0 when the bytes cannot be written.  The caller compares it with -1.\<close>

definition net_send :: "nat \<Rightarrow> byte list \<Rightarrow> ('z server_scheme, int) comp" where
  "net_send conn pkt = bindE (getE (\<lambda>s. link_up s conn)) (\<lambda>up.
     if up then seqE (modE (\<lambda>s. s \<lparr> sent := sent s @ [(conn, pkt)] \<rparr>)) (retE (int (length pkt))) else retE 0)"

definition ocall_handle_out_msg :: "nat \<Rightarrow> byte list \<Rightarrow> ('z server_scheme, int) comp" where
  "ocall_handle_out_msg conn pkt = bindE (net_send conn pkt) (\<lambda>n. retE (if n = - 1 then rc_failure else rc_success))"

text \<open>The end of every handler: encrypt and send.\<close>

definition send_pkt :: "bfs_env \<Rightarrow> nat \<Rightarrow> flexbuf \<Rightarrow> ('z server_scheme, int) comp" where
  "send_pkt E conn spkt =
     bindE (encrypt_msg E conn spkt) (\<lambda>r. case r of
       None \<Rightarrow> retE rc_failure
     | Some pkt \<Rightarrow> bindE (ocall_handle_out_msg conn pkt) (\<lambda>rc. retE (if rc \<noteq> rc_success then rc_failure else rc_success)))"

text \<open>A reply that consists of scalars, in the order they are streamed.\<close>

definition send_reply :: "bfs_env \<Rightarrow> nat \<Rightarrow> (fb_type \<times> int) list \<Rightarrow> ('z server_scheme, int) comp" where
  "send_reply E conn vals =
     bindE (lift_buf (seqE (resetWithAlloc 0 0 (sum_list (map (fb_sizeof \<circ> fst) vals)) 0 False) (stream_all vals)) flexbuf_new)
       (\<lambda>(_, spkt). send_pkt E conn spkt)"

text \<open>The exception handlers around an operation.  A refused access and a failed request become codes; the errors in
  \<^verbatim>\<open>fails\<close> end the handler with \<^verbatim>\<open>BFS_FAILURE\<close> and no reply (\<^const>\<open>None\<close>); others are not caught.\<close>

definition with_codes :: "bfs_error list \<Rightarrow> int \<Rightarrow> ('s, int) comp \<Rightarrow> ('s, int option) comp" where
  "with_codes fails code m = catchE (bindE m (\<lambda>r. retE (Some r))) (\<lambda>e.
     if e = BfsAccessDeniedError then retE (Some (- EPERM))
     else if e = BfsClientRequestFailedError then retE (Some code)
     else if e \<in> set fails then retE None
     else throwE e)"

definition on_handle :: "('z server_scheme, 'a) comp \<Rightarrow> ('z server_scheme, 'a) comp" where
  "on_handle m = bindE (getE handle_set) (\<lambda>p. if p then m else throwE BfsBadPointer)"

text \<open>A handler whose reply is the return code and the two types.\<close>

definition reply_code :: "bfs_env \<Rightarrow> nat \<Rightarrow> fb_type \<Rightarrow> int \<Rightarrow> int option \<Rightarrow> ('z server_scheme, int) comp" where
  "reply_code E conn ty otype r = (case r of
     None \<Rightarrow> retE rc_failure
   | Some ret \<Rightarrow> send_reply E conn [(ty, ret), (I32T, otype), (I32T, FROM_SERVER)])"

definition try_op :: "('z server_scheme, int) comp \<Rightarrow> ('z server_scheme, int option) comp" where
  "try_op m = with_codes [bfsUtilError, BfsServerError] rc_failure (on_handle m)"

section \<open>Handlers with a path\<close>

text \<open>Reading scalars and then the path; the last scalar is the length of the path.\<close>

definition path_args :: "fb_type list \<Rightarrow> flexbuf \<Rightarrow> ('s, int list \<times> string) comp" where
  "path_args tys rpkt =
     bindE (lift_buf (unstream_all tys) rpkt) (\<lambda>(vs, b).
     seqE (guardE (0 < last vs) BfsAbort)
     (bindE (liftS (c_str 0 b)) (\<lambda>nm. retE (vs, nm))))"

text \<open>\<^verbatim>\<open>bfsUtilError\<close> is not caught here, and the three times of the reply are not set.\<close>

definition handle_getattr :: "srv_env \<Rightarrow> bfs_env \<Rightarrow> nat \<Rightarrow> flexbuf \<Rightarrow> ('z server_scheme, int) comp" where
  "handle_getattr S E conn rpkt =
     bindE (path_args [U32T] rpkt) (\<lambda>(vs, fname).
     bindE (the_user conn) (\<lambda>usr.
     bindE (catchE (bindE (on_handle (bfs_getattr E (Some usr) fname)) (\<lambda>(uid, ino, mode, sz). retE (Some (rc_success, uid, ino, mode, sz))))
       (\<lambda>e. if e = BfsAccessDeniedError then retE (Some (- EPERM, 0, 0, 0, 0))
            else if e = BfsClientRequestFailedError then retE (Some (- ENOENT, 0, 0, 0, 0))
            else if e = BfsServerError then retE None
            else throwE e)) (\<lambda>r. case r of
       None \<Rightarrow> retE rc_failure
     | Some (ret, uid, ino, mode, sz) \<Rightarrow>
         send_reply E conn [(U64T, int sz), (U32T, int mode), (U64T, int ino), (U32T, srv_stack S 0), (U32T, srv_stack S 1),
           (U32T, srv_stack S 2), (U32T, int uid), (I32T, ret), (I32T, CLIENT_GETATTR_OP), (I32T, FROM_SERVER)])))"

definition handle_mkdir :: "bfs_env \<Rightarrow> nat \<Rightarrow> flexbuf \<Rightarrow> ('z server_scheme, int) comp" where
  "handle_mkdir E conn rpkt =
     bindE (path_args [U32T, U32T] rpkt) (\<lambda>(vs, fname).
     bindE (the_user conn) (\<lambda>usr.
     bindE (try_op (seqE (bfs_mkdir E (Some usr) fname (nat (hd vs))) (retE rc_success)))
       (reply_code E conn I32T CLIENT_MKDIR_OP)))"

definition handle_unlink :: "bfs_env \<Rightarrow> nat \<Rightarrow> flexbuf \<Rightarrow> ('z server_scheme, int) comp" where
  "handle_unlink E conn rpkt =
     bindE (path_args [U32T] rpkt) (\<lambda>(vs, fname).
     bindE (the_user conn) (\<lambda>usr.
     bindE (try_op (seqE (bfs_unlink E (Some usr) fname) (retE rc_success)))
       (reply_code E conn I32T CLIENT_UNLINK_OP)))"

definition handle_rmdir :: "bfs_env \<Rightarrow> nat \<Rightarrow> flexbuf \<Rightarrow> ('z server_scheme, int) comp" where
  "handle_rmdir E conn rpkt =
     bindE (path_args [U32T] rpkt) (\<lambda>(vs, fname).
     bindE (the_user conn) (\<lambda>usr.
     bindE (try_op (seqE (bfs_rmdir E (Some usr) fname) (retE rc_success)))
       (reply_code E conn I32T CLIENT_RMDIR_OP)))"

definition handle_rename :: "bfs_env \<Rightarrow> nat \<Rightarrow> flexbuf \<Rightarrow> ('z server_scheme, int) comp" where
  "handle_rename E conn rpkt =
     bindE (lift_buf (unstream_all [U32T, U32T]) rpkt) (\<lambda>(vs, b).
     seqE (guardE (0 < vs ! 0 \<and> 0 < vs ! 1) BfsAbort)
     (bindE (liftS (c_str 0 b)) (\<lambda>fr.
      bindE (liftS (c_str (nat (vs ! 0)) b)) (\<lambda>to.
      bindE (the_user conn) (\<lambda>usr.
      bindE (try_op (seqE (bfs_rename E (Some usr) fr to) (retE rc_success)))
        (reply_code E conn I32T CLIENT_RENAME_OP))))))"

definition handle_open :: "bfs_env \<Rightarrow> nat \<Rightarrow> flexbuf \<Rightarrow> ('z server_scheme, int) comp" where
  "handle_open E conn rpkt =
     bindE (path_args [U32T] rpkt) (\<lambda>(vs, fname).
     bindE (the_user conn) (\<lambda>usr.
     bindE (try_op (bindE (bfs_open E (Some usr) fname 511) (\<lambda>fh. retE (int fh))))
       (reply_code E conn U64T CLIENT_OPEN_OP)))"

definition handle_opendir :: "bfs_env \<Rightarrow> nat \<Rightarrow> flexbuf \<Rightarrow> ('z server_scheme, int) comp" where
  "handle_opendir E conn rpkt =
     bindE (path_args [U32T] rpkt) (\<lambda>(vs, fname).
     bindE (the_user conn) (\<lambda>usr.
     bindE (try_op (bindE (bfs_opendir E (Some usr) fname) (\<lambda>fh. retE (int fh))))
       (reply_code E conn U64T CLIENT_OPENDIR_OP)))"

definition handle_create :: "bfs_env \<Rightarrow> nat \<Rightarrow> flexbuf \<Rightarrow> ('z server_scheme, int) comp" where
  "handle_create E conn rpkt =
     bindE (path_args [U32T, U32T] rpkt) (\<lambda>(vs, fname).
     bindE (the_user conn) (\<lambda>usr.
     bindE (try_op (bindE (bfs_create E (Some usr) fname (nat (hd vs))) (\<lambda>fh. retE (int fh))))
       (reply_code E conn U64T CLIENT_CREATE_OP)))"

definition handle_chmod :: "bfs_env \<Rightarrow> nat \<Rightarrow> flexbuf \<Rightarrow> ('z server_scheme, int) comp" where
  "handle_chmod E conn rpkt =
     bindE (path_args [U32T, U32T] rpkt) (\<lambda>(vs, fname).
     bindE (the_user conn) (\<lambda>usr.
     bindE (try_op (seqE (bfs_chmod E (Some usr) fname (nat (hd vs))) (retE rc_success)))
       (reply_code E conn U64T CLIENT_CHMOD_OP)))"

text \<open>The native file system has no truncation: the code is always -1.\<close>

definition handle_ftruncate :: "bfs_env \<Rightarrow> nat \<Rightarrow> flexbuf \<Rightarrow> ('z server_scheme, int) comp" where
  "handle_ftruncate E conn rpkt =
     bindE (path_args [U64T, U32T, U32T] rpkt) (\<lambda>_. reply_code E conn U64T CLIENT_TRUNCATE_OP (Some (- 1)))"

section \<open>Handlers with a file handle\<close>

text \<open>The bytes reachable through \<^verbatim>\<open>getBuffer\<close>, up to the end of the allocation.\<close>

definition buf_rest :: "flexbuf \<Rightarrow> byte list" where
  "buf_rest fb = (case buffer fb of None \<Rightarrow> [] | Some b \<Rightarrow> drop (hlength fb) b)"

text \<open>The reply buffer has the low 32 bits of the requested size; a read that returns more bytes writes past it.\<close>

definition handle_read :: "bfs_env \<Rightarrow> nat \<Rightarrow> flexbuf \<Rightarrow> ('z server_scheme, int) comp" where
  "handle_read E conn rpkt =
     bindE (lift_buf (unstream_all [U64T, U64T, U64T]) rpkt) (\<lambda>(vs, b).
     let fh = nat (vs ! 0); sz = nat (vs ! 1); off = nat (vs ! 2) in
     bindE (lift_buf (resetWithAlloc (u32 sz) 0 16 0 False) flexbuf_new) (\<lambda>(_, spkt).
     bindE (the_user conn) (\<lambda>usr.
     bindE (catchE (bindE (on_handle (bfs_read E (Some usr) fh (replicate sz 0) off)) (\<lambda>(n, dat).
         seqE (guardE (n \<le> u32 sz) BfsOutOfBounds) (retE (Some (int n, take (u32 sz) dat)))))
       (\<lambda>e. if e = BfsAccessDeniedError then retE (Some (- EPERM, []))
            else if e = BfsClientRequestFailedError then retE (Some (rc_failure, []))
            else if e = bfsUtilError \<or> e = BfsServerError then retE None
            else throwE e)) (\<lambda>r. case r of
       None \<Rightarrow> retE rc_failure
     | Some (ret, dat) \<Rightarrow>
         bindE (lift_buf (seqE (fb_overwrite dat) (stream_all [(U64T, ret), (I32T, CLIENT_READ_OP), (I32T, FROM_SERVER)])) spkt)
           (\<lambda>(_, spkt'). send_pkt E conn spkt')))))"

text \<open>The size is taken from the message; the bytes are read from the packet without comparing it to its length.\<close>

definition handle_write :: "bfs_env \<Rightarrow> nat \<Rightarrow> flexbuf \<Rightarrow> ('z server_scheme, int) comp" where
  "handle_write E conn rpkt =
     bindE (lift_buf (unstream_all [U64T, U64T, U64T]) rpkt) (\<lambda>(vs, b).
     let fh = nat (vs ! 0); sz = nat (vs ! 1); off = nat (vs ! 2) in
     bindE (the_user conn) (\<lambda>usr.
     bindE (try_op (if sz \<le> length (buf_rest b)
         then bindE (bfs_write E (Some usr) fh (take sz (buf_rest b)) off) (\<lambda>n. retE (int n))
         else throwE BfsOutOfBounds))
       (reply_code E conn U64T CLIENT_WRITE_OP)))"

definition handle_release :: "bfs_env \<Rightarrow> nat \<Rightarrow> flexbuf \<Rightarrow> ('z server_scheme, int) comp" where
  "handle_release E conn rpkt =
     bindE (lift_buf (unstream_all [U64T]) rpkt) (\<lambda>(vs, b).
     seqE (guardE (int ROOT_INO \<le> vs ! 0) BfsAbort)
     (bindE (the_user conn) (\<lambda>usr.
      bindE (try_op (seqE (bfs_release E (Some usr) (nat (vs ! 0))) (retE rc_success)))
        (reply_code E conn I32T CLIENT_RELEASE_OP))))"

definition handle_fsync :: "bfs_env \<Rightarrow> nat \<Rightarrow> flexbuf \<Rightarrow> ('z server_scheme, int) comp" where
  "handle_fsync E conn rpkt =
     bindE (lift_buf (unstream_all [U64T, U32T]) rpkt) (\<lambda>(vs, b).
     seqE (guardE (int ROOT_INO \<le> vs ! 0) BfsAbort)
     (bindE (the_user conn) (\<lambda>usr.
      bindE (try_op (seqE (bfs_fsync E (Some usr) (nat (vs ! 0))) (retE rc_success)))
        (reply_code E conn I32T CLIENT_FSYNC_OP))))"

text \<open>One entry of the second reply of \<^verbatim>\<open>readdir\<close>: the name goes into its slot of the data, then the attributes are
  streamed, which moves the start of the data down by \<^verbatim>\<open>de_len\<close>; \<^verbatim>\<open>pos\<close> is \<^verbatim>\<open>de_data_off + off\<close>.  The inode is read
  outside the exception handlers, and the three times are not set.\<close>

definition DE_LEN :: nat where "DE_LEN = 8 + 4 + 8 + 4 + 4 * 3"

definition put_name :: "nat \<Rightarrow> string \<Rightarrow> (flexbuf, unit) comp" where
  "put_name pos nm =
     (let bs = map byte_of_char nm @ [0] in
      bindE (getE hlength) (\<lambda>h.
      seqE (fb_write (h + pos) bs)
      (if length bs \<le> MAX_FILE_NAME_LEN then fb_write (h + pos + length bs) (replicate (MAX_FILE_NAME_LEN - length bs) 0)
       else throwE BfsOutOfBounds)))"

primrec put_entries :: "srv_env \<Rightarrow> bfs_env \<Rightarrow> nat \<Rightarrow> direntry list \<Rightarrow> flexbuf \<Rightarrow> ('z server_scheme, flexbuf) comp" where
  "put_entries S E pos [] spkt = retE spkt"
| "put_entries S E pos (e # es) spkt =
     (let nm = bfs_basename (de_name e) in
      bindE (lift_buf (put_name pos nm) spkt) (\<lambda>(_, spkt1).
      bindE (on_handle (read_inode E (de_ino e))) (\<lambda>i.
      bindE (lift_buf (stream_all [(U32T, int (length nm) + 1), (U64T, int (i_size i)), (U32T, int (i_mode i)), (U64T, int (de_ino e)),
          (U32T, srv_stack S 0), (U32T, srv_stack S 1), (U32T, srv_stack S 2)]) spkt1) (\<lambda>(_, spkt2).
      put_entries S E (pos + MAX_FILE_NAME_LEN + DE_LEN) es spkt2))))"

text \<open>A refused or failed request is answered as an empty directory.\<close>

definition handle_readdir :: "srv_env \<Rightarrow> bfs_env \<Rightarrow> nat \<Rightarrow> flexbuf \<Rightarrow> ('z server_scheme, int) comp" where
  "handle_readdir S E conn rpkt =
     bindE (lift_buf (unstream_all [U64T]) rpkt) (\<lambda>(vs, b).
     seqE (guardE (int ROOT_INO \<le> vs ! 0) BfsAbort)
     (bindE (the_user conn) (\<lambda>usr.
      bindE (catchE (bindE (on_handle (bfs_readdir E (Some usr) (nat (vs ! 0)))) (\<lambda>es. retE (Some es)))
        (\<lambda>e. if e = BfsAccessDeniedError \<or> e = BfsClientRequestFailedError then retE (Some [])
             else if e = bfsUtilError \<or> e = BfsServerError then retE None
             else throwE e)) (\<lambda>r. case r of
        None \<Rightarrow> retE rc_failure
      | Some ents \<Rightarrow>
          bindE (lift_buf (seqE (resetWithAlloc 0 0 16 0 False)
            (stream_all [(U64T, int (length ents)), (I32T, CLIENT_READDIR_OP), (I32T, FROM_SERVER)])) flexbuf_new) (\<lambda>(_, spkt).
          bindE (send_pkt E conn spkt) (\<lambda>rc.
          if rc \<noteq> rc_success then retE rc_failure
          else bindE (lift_buf (resetWithAlloc (u32 (length ents * MAX_FILE_NAME_LEN)) 0 (u32 (length ents * DE_LEN)) 0 False) spkt) (\<lambda>(_, spkt1).
            bindE (put_entries S E 0 ents spkt1) (send_pkt E conn))))))))"

section \<open>Starting and stopping the file system\<close>

definition handle_init :: "bfs_env \<Rightarrow> nat \<Rightarrow> bool \<Rightarrow> ('z server_scheme, int) comp" where
  "handle_init E conn do_mkfs =
     bindE (with_codes [bfsUtilError, BfsServerError] rc_failure
       (bindE (getE fs_initialized) (\<lambda>ini.
        if ini then retE rc_success
        else seqE (modE (\<lambda>s. (BfsHandle_init s) \<lparr> handle_set := True \<rparr>))
          (seqE (if do_mkfs then mkfs E else retE ())
          (seqE (mount E)
          (seqE (modE (\<lambda>s. s \<lparr> fs_initialized := True \<rparr>)) (retE rc_success)))))))
     (reply_code E conn I32T CLIENT_INIT_OP)"

text \<open>\<^verbatim>\<open>fs_initialized\<close> stays set.\<close>

definition handle_destroy :: "bfs_env \<Rightarrow> nat \<Rightarrow> ('z server_scheme, int) comp" where
  "handle_destroy E conn =
     seqE (modE (\<lambda>s. (if handle_set s then BfsHandle_destroy s else s) \<lparr> handle_set := False \<rparr>))
       (reply_code E conn I32T CLIENT_DESTROY_OP (Some rc_success))"

section \<open>The entry point\<close>

definition dispatch :: "srv_env \<Rightarrow> bfs_env \<Rightarrow> nat \<Rightarrow> int \<Rightarrow> flexbuf \<Rightarrow> ('z server_scheme, int) comp" where
  "dispatch S E conn otype rpkt =
     (if otype = CLIENT_GETATTR_OP then handle_getattr S E conn rpkt
      else if otype = CLIENT_MKDIR_OP then handle_mkdir E conn rpkt
      else if otype = CLIENT_UNLINK_OP then handle_unlink E conn rpkt
      else if otype = CLIENT_RMDIR_OP then handle_rmdir E conn rpkt
      else if otype = CLIENT_RENAME_OP then handle_rename E conn rpkt
      else if otype = CLIENT_OPEN_OP then handle_open E conn rpkt
      else if otype = CLIENT_READ_OP then handle_read E conn rpkt
      else if otype = CLIENT_WRITE_OP then handle_write E conn rpkt
      else if otype = CLIENT_RELEASE_OP then handle_release E conn rpkt
      else if otype = CLIENT_FSYNC_OP then handle_fsync E conn rpkt
      else if otype = CLIENT_OPENDIR_OP then handle_opendir E conn rpkt
      else if otype = CLIENT_READDIR_OP then handle_readdir S E conn rpkt
      else if otype = CLIENT_INIT_OP then handle_init E conn False
      else if otype = CLIENT_INIT_MKFS_OP then handle_init E conn True
      else if otype = CLIENT_DESTROY_OP then handle_destroy E conn
      else if otype = CLIENT_CREATE_OP then handle_create E conn rpkt
      else if otype = CLIENT_CHMOD_OP then handle_chmod E conn rpkt
      else if otype = CLIENT_TRUNCATE_OP then handle_ftruncate E conn rpkt
      else retE rc_failure)"

text \<open>The first message of a connection is the null pointer; it creates the user.  Only \<^verbatim>\<open>bfsCryptoError\<close> is caught: a
  packet too short for a tag and an IV raises \<^verbatim>\<open>bfsUtilError\<close>.\<close>

definition ecall_bfs_handle_in_msg :: "srv_env \<Rightarrow> bfs_env \<Rightarrow> nat \<Rightarrow> byte list option \<Rightarrow> ('z server_scheme, int) comp" where
  "ecall_bfs_handle_in_msg S E conn msg =
     seqE (bindE (getE enclave_initialized) (\<lambda>ini.
       if ini then retE ()
       else seqE (guardE (srv_boot S) BfsAbort) (modE (\<lambda>s. s \<lparr> enclave_initialized := True \<rparr>))))
     (bindE (getE acl_layer) (\<lambda>a.
      if \<not> ACLayerInitialized a then retE rc_failure
      else case get_user_context conn a of
        None \<Rightarrow>
          bindE (on_acl (add_user_context (srv_sa S \<noteq> None) conn)) (\<lambda>u. case u of
            None \<Rightarrow> retE rc_failure
          | Some _ \<Rightarrow>
              seqE (modE (\<lambda>s. s \<lparr> user_sas := (user_sas s) (conn := srv_sa S) \<rparr>))
              (retE (if msg \<noteq> None then rc_failure else rc_success)))
      | Some usr \<Rightarrow> (case msg of
          None \<Rightarrow> throwE BfsBadPointer
        | Some pkt \<Rightarrow>
            bindE (decrypt_msg E conn pkt) (\<lambda>r. case r of
              None \<Rightarrow> retE rc_failure
            | Some rpkt \<Rightarrow>
                bindE (lift_buf (unstream_all [I32T, I32T]) rpkt) (\<lambda>(vs, rpkt').
                if vs ! 0 \<noteq> TO_SERVER then retE rc_failure else dispatch S E conn (vs ! 1) rpkt')))))"

end
