(* ===== verification/Bfs_Isolation.thy ===== *)
theory Bfs_Isolation
  imports Bfs_Server Bfs_Session Bfs_Frames
begin

text \<open>
  What one request can touch.  The entry point of the server, with all its handlers, works on behalf of one connection:
  the users, keys and sequence numbers of the other connections stay as they are and every packet goes to the connection
  the request came from.  A message is accepted only under the sequence number it was sealed for.

  The proofs extend the frame rules of \<^verbatim>\<open>Bfs_Frames\<close> to the handlers.
\<close>

section \<open>The session\<close>

lemma sess_more:
  fixes s :: "'z server_scheme"
  shows "bfs_handle.more s = server.server_ext (handle_set s) (fs_initialized s) (enclave_initialized s) (user_sas s) (link_up s) (sent s) (server.more s)"
  by (cases s) simp

lemma sess_server:
  assumes "sess t = sess (s :: 'z server_scheme)"
  shows "acl_layer t = acl_layer s" "user_sas t = user_sas s" "link_up t = link_up s" "sent t = sent s" "handle_set t = handle_set s"
    "enclave_initialized t = enclave_initialized s" "fs_initialized t = fs_initialized s"
  using assms unfolding sess_def sess_more prod.inject server.ext_inject by blast+

lemma map_user_simps [simp]:
  "user_contexts (acl_layer (map_user conn f s)) = (user_contexts (acl_layer s)) (conn := map_option f (user_contexts (acl_layer s) conn))"
  "ACLayerInitialized (acl_layer (map_user conn f s)) = ACLayerInitialized (acl_layer s)"
  by (simp_all add: map_user_def)

lemma map_user_server [simp]:
  "user_sas (map_user conn f s) = user_sas s" "link_up (map_user conn f s) = link_up s" "sent (map_user conn f s) = sent s"
  "handle_set (map_user conn f s) = handle_set s" "enclave_initialized (map_user conn f s) = enclave_initialized s"
  "fs_initialized (map_user conn f s) = fs_initialized s"
  by (simp_all add: map_user_def)

section \<open>The other connections\<close>

definition others :: "nat \<Rightarrow> 'z server_scheme \<Rightarrow> (nat \<Rightarrow> (user_ctx option \<times> sa_ctx option) option) \<times> (nat \<Rightarrow> bool) \<times> (nat \<times> byte list) list" where
  "others conn s = (\<lambda>c. if c = conn then None else Some (user_contexts (acl_layer s) c, user_sas s c), link_up s, filter (\<lambda>x. fst x \<noteq> conn) (sent s))"

lemma others_sess: "sess t = sess s \<Longrightarrow> others conn t = others conn s"
  unfolding others_def by (simp only: sess_server(1-4)[of t s])

lemma others_upd [simp]:
  "others conn (s \<lparr> handle_set := a \<rparr>) = others conn s" "others conn (s \<lparr> fs_initialized := b \<rparr>) = others conn s"
  "others conn (s \<lparr> enclave_initialized := b \<rparr>) = others conn s" "others conn (map_user conn f s) = others conn s"
  "others conn (s \<lparr> user_sas := (user_sas s) (conn := k) \<rparr>) = others conn s"
  "others conn (s \<lparr> sent := sent s @ [(conn, p)] \<rparr>) = others conn s"
  by (simp_all add: others_def fun_eq_iff)

section \<open>Handlers\<close>

lemma spares_the_user [spare_rules]: "spares f (the_user conn)"
  unfolding the_user_def by (intro spare_rules)

lemma spares_crypto_msg [spare_rules]: "spares f m \<Longrightarrow> spares f (no_crypto_error m)"
  unfolding no_crypto_error_def by (intro spare_rules)

lemma spares_codes [spare_rules]: "spares f m \<Longrightarrow> spares f (with_codes es c m)" "spares f m' \<Longrightarrow> spares f (on_handle m')"
  "spares f m'' \<Longrightarrow> spares f (try_op m'')"
  unfolding with_codes_def on_handle_def try_op_def by (intro spare_rules; assumption)+

lemma spares_if_cond: "(c \<Longrightarrow> spares f a) \<Longrightarrow> (\<not> c \<Longrightarrow> spares f b) \<Longrightarrow> spares f (if c then a else b)"
  by simp

lemma spares_path_args [spare_rules]: "spares f (path_args tys b)"
  unfolding path_args_def by (intro spare_rules)

text \<open>A view of the server that the file system and the session of one connection do not touch.  No handler of that
  connection changes it, except those that start the file system.\<close>

locale conn_view =
  fixes conn :: nat and f :: "'z server_scheme \<Rightarrow> 'b"
  assumes view_sess: "sess t = sess s \<Longrightarrow> f t = f s"
    and view_user: "f (map_user conn g s) = f s"
    and view_sas: "f (s \<lparr> user_sas := (user_sas s) (conn := k) \<rparr>) = f s"
    and view_sent: "f (s \<lparr> sent := sent s @ [(conn, p)] \<rparr>) = f s"
    and view_handle: "f (s \<lparr> handle_set := a \<rparr>) = f s"
begin

lemma view_BfsHandle: "f (BfsHandle_init s) = f s" "f (BfsHandle_destroy s) = f s"
  by (rule view_sess, rule sess_BfsHandle)+

lemmas view_simps = view_user view_sas view_sent view_handle view_BfsHandle

lemma spares_view: "spares sess m \<Longrightarrow> spares f m"
  unfolding spares_def using view_sess by blast

lemmas spares_view_lift [spare_rules] = spares_handlers[THEN spares_view] spares_files[THEN spares_view] spares_mount[THEN spares_view]
  spares_mkfs[THEN spares_sess, THEN spares_view] spares_inode[THEN spares_sess, THEN spares_view]
  spares_crypt[THEN spares_core, THEN spares_sess, THEN spares_view]

lemma spares_on_user_sa [spare_rules]: "spares f (on_user_sa conn m b)"
  by (auto simp: spares_def on_user_sa_def view_simps split: prod.splits option.splits)

lemma spares_msgs [spare_rules]: "spares f (decrypt_msg E conn p)" "spares f (encrypt_msg E conn b)" "spares f (net_send conn p)"
  unfolding decrypt_msg_def encrypt_msg_def net_send_def by (intro spare_rules; simp add: view_simps)+

lemma spares_out [spare_rules]: "spares f (ocall_handle_out_msg conn p)"
  unfolding ocall_handle_out_msg_def by (intro spare_rules)

lemma spares_send_pkt [spare_rules]: "spares f (send_pkt E conn b)"
  unfolding send_pkt_def by (intro spare_rules)

lemma spares_send_reply [spare_rules]: "spares f (send_reply E conn vs)"
  unfolding send_reply_def by (intro spare_rules)

lemma spares_reply [spare_rules]: "spares f (reply_code E conn ty ot r)"
  unfolding reply_code_def by (intro spare_rules)

lemma spares_path_handlers [spare_rules]:
  "spares f (handle_getattr S E conn b)" "spares f (handle_mkdir E conn b)" "spares f (handle_unlink E conn b)"
  "spares f (handle_rmdir E conn b)" "spares f (handle_rename E conn b)" "spares f (handle_open E conn b)"
  "spares f (handle_opendir E conn b)" "spares f (handle_create E conn b)" "spares f (handle_chmod E conn b)"
  "spares f (handle_ftruncate E conn b)"
  unfolding handle_getattr_def handle_mkdir_def handle_unlink_def handle_rmdir_def handle_rename_def handle_open_def handle_opendir_def
    handle_create_def handle_chmod_def handle_ftruncate_def
  by (intro spare_rules)+

lemma spares_put_entries [spare_rules]: "spares f (put_entries S E pos es b)"
  by (induction es arbitrary: pos b) (simp only: put_entries.simps, intro spare_rules; simp)+

lemma spares_fh_handlers [spare_rules]:
  "spares f (handle_read E conn b)" "spares f (handle_write E conn b)" "spares f (handle_release E conn b)"
  "spares f (handle_fsync E conn b)" "spares f (handle_readdir S E conn b)"
  unfolding handle_read_def handle_write_def handle_release_def handle_fsync_def handle_readdir_def
  by (intro spare_rules)+

lemma spares_destroy [spare_rules]: "spares f (handle_destroy E conn)"
  unfolding handle_destroy_def by (intro spare_rules; simp add: view_simps)

lemma spares_dispatch:
  assumes "ot = CLIENT_INIT_OP \<Longrightarrow> spares f (handle_init E conn False)" "ot = CLIENT_INIT_MKFS_OP \<Longrightarrow> spares f (handle_init E conn True)"
  shows "spares f (dispatch S E conn ot b)"
  unfolding dispatch_def by (intro spares_if_cond; (rule spare_rules | rule assms, assumption))

end

interpretation ov: conn_view conn "others conn" for conn
  by unfold_locales (auto dest: others_sess)

interpretation iv: conn_view conn fs_initialized for conn
  by unfold_locales (auto dest: sess_server(7))

lemma spares_others_init: "spares (others conn) (handle_init E conn mk)"
  unfolding handle_init_def by (intro spare_rules; simp add: ov.view_simps)

lemma spares_add_user [spare_rules]: "spares (others conn) (on_acl (add_user_context cfg conn))"
  by (auto simp: spares_def on_acl_def others_def add_user_context_def alloc_uid_def bindE_def getE_def retE_def seqE_def modE_def
      split: prod.splits option.splits)

lemma spares_others_msg: "spares (others conn) (ecall_bfs_handle_in_msg S E conn msg)"
  unfolding ecall_bfs_handle_in_msg_def by (intro spare_rules ov.spares_dispatch spares_others_init; simp)

section \<open>A connection that is served\<close>

text \<open>A connection with a user and a ready association.\<close>

definition on_line :: "byte list \<Rightarrow> nat \<Rightarrow> user_ctx \<Rightarrow> 'z server_scheme \<Rightarrow> bool" where
  "on_line K conn u s \<longleftrightarrow> user_contexts (acl_layer s) conn = Some u \<and> (\<exists>sa. user_sas s conn = Some sa \<and> sa_ready K sa)"

lemma the_user_run: "user_contexts (acl_layer s) conn = Some u \<Longrightarrow> the_user conn s = (Inr u, s)"
  by (simp add: the_user_def comp_simps)

lemma on_line_sess: "sess t = sess s \<Longrightarrow> on_line K conn u t = on_line K conn u s"
  unfolding on_line_def by (simp only: sess_server(1,2)[of t s])

definition serving :: "nat \<Rightarrow> 'z server_scheme \<Rightarrow> bool" where
  "serving conn s \<longleftrightarrow> enclave_initialized s \<and> ACLayerInitialized (acl_layer s) \<and> link_up s conn \<and> handle_set s"

section \<open>Properties\<close>

text \<open>C8: Requests are isolated from each other's sessions: whatever message arrives on a connection and whatever it makes
  the server do, including errors and aborts, the users, sequence numbers, keys and links of all other connections are as
  before, and every packet the server sends goes to that connection.\<close>

theorem request_isolated:
  assumes "ecall_bfs_handle_in_msg S E conn msg s = (r, s')" "c \<noteq> conn"
  shows "user_contexts (acl_layer s') c = user_contexts (acl_layer s) c \<and> user_sas s' c = user_sas s c \<and> link_up s' c = link_up s c \<and>
    filter (\<lambda>x. fst x = c) (sent s') = filter (\<lambda>x. fst x = c) (sent s)"
proof -
  from sparesD[OF spares_others_msg assms(1)] have o: "(if c = conn then None else Some (user_contexts (acl_layer s') c, user_sas s' c)) =
      (if c = conn then None else Some (user_contexts (acl_layer s) c, user_sas s c))" "link_up s' = link_up s"
    "filter (\<lambda>x. fst x \<noteq> conn) (sent s') = filter (\<lambda>x. fst x \<noteq> conn) (sent s)"
    by (auto simp: others_def fun_eq_iff)
  have f: "filter (\<lambda>x. fst x = c) xs = filter (\<lambda>x. fst x = c) (filter (\<lambda>x. fst x \<noteq> conn) xs)" for xs :: "(nat \<times> byte list) list"
    using assms(2) by (induction xs) auto
  show ?thesis using o assms(2) f[of "sent s'"] f[of "sent s"] by simp
qed

text \<open>A server after the first message of connection 5.\<close>

definition demo_user :: user_ctx where
  "demo_user = the (user_contexts (snd (add_user_context True 5 demo_acl)) 5)"

definition demo_server :: server where
  "demo_server = bfs_handle.extend (zero_handle \<lparr> acl_layer := demo_acl \<lparr> user_contexts := [5 \<mapsto> demo_user] \<rparr> \<rparr>)
     (server.fields True True True (\<lambda>_. Some demo_sa) (\<lambda>_. True) [])"

definition demo_srv :: srv_env where
  "demo_srv = \<lparr> srv_boot = True, srv_sa = Some demo_sa, srv_stack = (\<lambda>_. 0) \<rparr>"

lemma demo_server_sel:
  "acl_layer demo_server = demo_acl \<lparr> user_contexts := [5 \<mapsto> demo_user] \<rparr>" "user_sas demo_server = (\<lambda>_. Some demo_sa)" "link_up demo_server = (\<lambda>_. True)"
  "handle_set demo_server" "enclave_initialized demo_server"
  unfolding demo_server_def bfs_handle.defs server.defs by simp_all

lemma sa_ready_demo: "sa_ready (replicate 16 1) demo_sa"
  using demo_sa_ok(3) fb_ok_new by (auto simp: sa_ready_def demo_sa_def setKeyData_def flexbuf_new_def)

lemma request_isolated_witness:
  "\<exists>r s'. ecall_bfs_handle_in_msg demo_srv demo_env 7 None demo_server = (r, s') \<and>
     user_contexts (acl_layer s') 5 = Some demo_user \<and> user_sas s' 5 = Some demo_sa"
proof -
  obtain r s' where e: "ecall_bfs_handle_in_msg demo_srv demo_env 7 None demo_server = (r, s')" by force
  then show ?thesis using request_isolated[OF e, of 5] by (simp add: demo_server_sel)
qed

section \<open>Messages under another number\<close>

text \<open>The cipher is a stream cipher: it keeps lengths.\<close>

definition gcm_len :: "gcrypt \<Rightarrow> bool" where
  "gcm_len G \<longleftrightarrow> (\<forall>k iv aad c p. gcry_decrypt G k iv aad c = Some p \<longrightarrow> length p = length c)"

lemma unseal_bad:
  assumes G: "gcm_len G" and r: "sa_ready K s" and b: "fb_ok b" "length (fb_data b) + 100 < 2 ^ 32" and d: "fb_data b = iv @ ct @ t" "length iv = 12" "length t = 16" "ct \<noteq> []"
    and bad: "t \<noteq> gcry_tag G K iv aad ct"
  shows "fst (decryptData_out G aad True (s \<lparr> sa_buf := b, sa_out := flexbuf_new \<rparr>)) = Inl bfsCryptoError"
proof -
  obtain k where k: "saKey s = Some k" "key_ok k" "take 16 (keydat k) = K" "fb_ok (sa_iv s)" "blength (sa_iv s) \<le> 44"
    by (rule sa_readyE[OF r])
  let ?k = "k \<lparr> handle := Some (iv, aad, ct) \<rparr>"
  have "fb_data b = (iv @ ct) @ t" "fb_data b \<noteq> []" using d by auto
  from fb.remT[OF b(1) this] d(3) obtain b1 where b1: "removeTrailer 16 b = (Inr t, b1)" "fb_ok b1" "fb_data b1 = iv @ ct" by auto
  obtain iv1 where iv1: "resetWithAlloc 12 0 BFSFLEXBUF_DEFAULT_PAD BFSFLEXBUF_DEFAULT_PAD False (sa_iv s) = (Inr 12, iv1)" "fb_ok iv1"
      "fb_data iv1 = replicate 12 0"
    by (rule resetWithAlloc_rep[OF k(4), of BFSFLEXBUF_DEFAULT_PAD 12 BFSFLEXBUF_DEFAULT_PAD 0])
      (use k(5) in \<open>simp_all add: BFSFLEXBUF_DEFAULT_PAD_def\<close>)
  have "fb_data b1 \<noteq> []" using b1(3) d(4) by simp
  from fb.remH[OF b1(2,3) this] d(2) obtain b2 where b2: "removeHeader 12 b1 = (Inr iv, b2)" "fb_ok b2" "fb_data b2 = ct" by auto
  obtain iv2 where iv2: "fb_overwrite iv iv1 = (Inr (), iv2)" using fb.over[OF iv1(2), of iv] iv1(3) d(2) by auto
  obtain o1 where o1: "resetWithAlloc (length ct) 0 BFSFLEXBUF_DEFAULT_PAD BFSFLEXBUF_DEFAULT_PAD False flexbuf_new = (Inr (length ct), o1)"
      "fb_ok o1" "fb_data o1 = replicate (length ct) 0"
    by (rule reset_new[of BFSFLEXBUF_DEFAULT_PAD "length ct" BFSFLEXBUF_DEFAULT_PAD])
      (use b(2) d(1) in \<open>auto simp: BFSFLEXBUF_DEFAULT_PAD_def\<close>)
  show ?thesis
  proof (cases "gcry_decrypt G K iv aad ct")
    case None
    then have "key_decryptData G iv aad ct k = (Inl bfsCryptoError, k)" using k(2,3) by (simp add: key_decryptData_def comp_simps key_ok_def)
    then show ?thesis using k b1(1) iv1(1) b2(1,3) iv2 o1(1) by (simp add: decryptData_out_def comp_simps key_ok_def)
  next
    case (Some pt)
    then have dk: "key_decryptData G iv aad ct k = (Inr pt, ?k)" using key_decrypt_run[OF k(2)] k(3) by simp
    have "length pt = length ct" using G Some by (simp add: gcm_len_def)
    then obtain o2 where o2: "fb_overwrite pt o1 = (Inr (), o2)" using fb.over[OF o1(2), of pt] o1(3) by auto
    have "doMAC G t True ?k = (Inl bfsCryptoError, ?k)" using k(2,3) bad by (simp add: doMAC_def comp_simps key_ok_def)
    then show ?thesis using k b1(1) iv1(1) b2(1,3) iv2 o1(1) dk o2(1) by (simp add: decryptData_out_def comp_simps key_ok_def)
  qed
qed

lemma le_val_seq_aad: "q < 2 ^ 32 \<Longrightarrow> le_val (seq_aad q) = q"
  by (simp add: seq_aad_def fb_encode_def nat_mod_distrib)

lemma seq_aad_inj: "q < 2 ^ 32 \<Longrightarrow> n < 2 ^ 32 \<Longrightarrow> seq_aad q = seq_aad n \<Longrightarrow> q = n"
  by (metis le_val_seq_aad)

text \<open>C9: Replayed and reordered messages are rejected.  A packet that was sealed under one sequence number and arrives when
  the server expects another is answered with a failure and without a reply, and changes nothing but scratch data of the
  connection's security association: no operation runs and no number is consumed.  Otherwise two different
  numbers have the same authentication tag for some IV and ciphertext.\<close>

theorem replay_rejected:
  assumes "gcm_ok (env_gcrypt E)" "gcm_len (env_gcrypt E)" "on_line K conn u s" "serving conn s"
    and "sealed_msg (env_gcrypt E) K (seq_aad q) d pkt" "length d + 200 < 2 ^ 31" "q < 2 ^ 32" "user_recv_seq u < 2 ^ 32" "q \<noteq> user_recv_seq u"
  shows "(\<exists>k. ecall_bfs_handle_in_msg S E conn (Some pkt) s = (Inr rc_failure, s \<lparr> user_sas := k \<rparr>)) \<or>
    (\<exists>iv ct. seq_aad q \<noteq> seq_aad (user_recv_seq u) \<and>
       gcry_tag (env_gcrypt E) K iv (seq_aad q) ct = gcry_tag (env_gcrypt E) K iv (seq_aad (user_recv_seq u)) ct)"
proof -
  let ?G = "env_gcrypt E" and ?n = "seq_aad (user_recv_seq u)"
  obtain sa where sa: "user_sas s conn = Some sa" "sa_ready K sa" and u: "user_contexts (acl_layer s) conn = Some u"
    using assms(3) by (auto simp: on_line_def)
  obtain iv ct p where m: "length iv = 12" "pkt = iv @ ct @ gcry_tag ?G K iv (seq_aad q) ct" "length ct = length d + p" "0 < p"
    using assms(5) by (auto simp: sealed_msg_def)
  have l: "length pkt < 2 ^ 31" "length pkt + 100 < 2 ^ 32" using sealed_msg_length[OF assms(5,1)] assms(6) by simp_all
  note nb = net_buf_ok[OF l(1)]
  have t: "length (gcry_tag ?G K iv (seq_aad q) ct) = 16" "ct \<noteq> []" using assms(1) m(3,4) by (auto simp: gcm_ok_def)
  show ?thesis
  proof (cases "gcry_tag ?G K iv (seq_aad q) ct = gcry_tag ?G K iv ?n ct")
    case True
    then show ?thesis using seq_aad_inj[OF assms(7,8)] assms(9) by blast
  next
    case False
    have bad: "fst (decryptData_out ?G ?n True (sa \<lparr> sa_buf := net_buf pkt, sa_out := flexbuf_new \<rparr>)) = Inl bfsCryptoError"
      by (rule unseal_bad[OF assms(2) sa(2) nb(1), of iv ct "gcry_tag ?G K iv (seq_aad q) ct"]) (use l(2) nb(2) m(1,2) t False in auto)
    then obtain sa' where sa': "decryptData_out ?G ?n True (sa \<lparr> sa_buf := net_buf pkt, sa_out := flexbuf_new \<rparr>) = (Inl bfsCryptoError, sa')"
      by (metis prod.collapse)
    have "decrypt_msg E conn pkt s = (Inr None, s \<lparr> user_sas := (user_sas s) (conn \<mapsto> sa') \<rparr>)"
      using u sa(1) sa' by (simp add: decrypt_msg_def no_crypto_error_def catchE_def comp_simps the_user_run on_user_sa_def)
    then have "ecall_bfs_handle_in_msg S E conn (Some pkt) s = (Inr rc_failure, s \<lparr> user_sas := (user_sas s) (conn \<mapsto> sa') \<rparr>)"
      using assms(4) u by (simp add: ecall_bfs_handle_in_msg_def serving_def get_user_context_def comp_simps)
    then show ?thesis by blast
  qed
qed

section \<open>Starting the file system\<close>

text \<open>Requests of any connections, one after the other, as the entry point hands them to the handlers.\<close>

primrec requests :: "srv_env \<Rightarrow> bfs_env \<Rightarrow> (nat \<times> int \<times> flexbuf) list \<Rightarrow> 'z server_scheme \<Rightarrow> 'z server_scheme" where
  "requests S E [] s = s"
| "requests S E (r # rs) s = (case r of (conn, otype, rpkt) \<Rightarrow> requests S E rs (snd (dispatch S E conn otype rpkt s)))"

lemma init_fails:
  assumes "\<not> fs_initialized s"
  shows "handle_init E conn False s = (Inr rc_failure, (BfsHandle_init s) \<lparr> handle_set := True \<rparr>)"
proof -
  have "status (BfsHandle_init s) = INITIALIZED" "INITIALIZED \<noteq> FORMATTED"
    by (simp_all add: BfsHandle_init_def INITIALIZED_def FORMATTED_def)
  then show ?thesis using assms by (simp add: handle_init_def with_codes_def catchE_def comp_simps mount_def reply_code_def)
qed

lemma dispatch_uninitialised:
  fixes s :: "'z server_scheme"
  assumes "\<not> fs_initialized s" "ot \<noteq> CLIENT_INIT_MKFS_OP"
  shows "\<not> fs_initialized (snd (dispatch S E conn ot b s))"
proof (cases "ot = CLIENT_INIT_OP")
  case True
  then have "dispatch S E conn ot b s = handle_init E conn False s" by (simp add: dispatch_def op_codes)
  then show ?thesis using assms(1) by (simp add: init_fails iv.view_simps)
next
  case False
  have "spares fs_initialized (dispatch S E conn ot b :: ('z server_scheme, int) comp)" by (rule iv.spares_dispatch) (use False assms(2) in auto)
  then show ?thesis using assms(1) by (simp add: spares_def)
qed

lemma requests_uninitialised:
  "\<not> fs_initialized s \<Longrightarrow> \<forall>(conn, ot, b) \<in> set rs. ot \<noteq> CLIENT_INIT_MKFS_OP \<Longrightarrow> \<not> fs_initialized (requests S E rs s)"
proof (induction rs arbitrary: s)
  case (Cons r rs)
  obtain c ot b where r: "r = (c, ot, b)" by (cases r)
  have "\<not> fs_initialized (snd (dispatch S E c ot b s))" by (rule dispatch_uninitialised) (use Cons.prems r in auto)
  from Cons.IH[OF this] show ?case using Cons.prems(2) r by simp
qed simp

text \<open>C32: A formatted disk cannot be mounted again.  Start from a server whose file system is not initialised, with any
  contents of the disk, and run any requests of any connections other than the one that formats.  The file system
  is still not initialised, and a request to mount without formatting fails, sends no reply and leaves the disk alone,
  although \<^verbatim>\<open>mount\<close> is written to read the contents of a formatted disk.\<close>

theorem init_needs_mkfs:
  assumes "\<not> fs_initialized s" "\<forall>(conn, ot, b) \<in> set rs. ot \<noteq> CLIENT_INIT_MKFS_OP" "requests S E rs s = t"
  shows "\<not> fs_initialized t \<and> (\<exists>t'. dispatch S E conn CLIENT_INIT_OP b t = (Inr rc_failure, t') \<and> sent t' = sent t \<and> vbc t' = vbc t)"
proof -
  have t: "\<not> fs_initialized t"
    using requests_uninitialised[OF assms(1,2)] assms(3) by blast
  moreover have "dispatch S E conn CLIENT_INIT_OP b t = handle_init E conn False t" by (simp add: dispatch_def op_codes)
  moreover have "sent (BfsHandle_init t) = sent t" "vbc (BfsHandle_init t) = vbc t"
    using sess_server(4)[OF sess_BfsHandle(1)[of t]] by (auto simp: BfsHandle_init_def)
  ultimately show ?thesis by (simp add: init_fails[OF t])
qed

text \<open>Witnesses, with a cipher whose tag begins with the associated data.\<close>

definition aad_gcrypt :: gcrypt where
  "aad_gcrypt = demo_gcrypt \<lparr> gcry_tag := (\<lambda>k iv aad d. take 16 (aad @ replicate 16 0)) \<rparr>"

definition late_msg :: "byte list" where
  "late_msg = replicate 12 0 @ replicate 16 16 @ gcry_tag aad_gcrypt (replicate 16 1) (replicate 12 0) (seq_aad 3) (replicate 16 16)"

lemma late_msg_sealed: "sealed_msg aad_gcrypt (replicate 16 1) (seq_aad 3) [] late_msg"
  unfolding sealed_msg_def late_msg_def
  by (rule exI[of _ "replicate 12 0"], rule exI[of _ "replicate 16 16"], rule exI[of _ 16])
    (simp add: aad_gcrypt_def demo_gcrypt_def)

lemma demo_on_line: "on_line (replicate 16 1) 5 demo_user demo_server" "serving 5 demo_server" "user_recv_seq demo_user = 0"
  using sa_ready_demo
  by (simp_all add: on_line_def serving_def demo_server_sel demo_acl_def demo_user_def add_user_context_def alloc_uid_def comp_simps BfsUserContext_def)

lemma replay_rejected_witness:
  "\<exists>k. ecall_bfs_handle_in_msg demo_srv (demo_env \<lparr> env_gcrypt := aad_gcrypt \<rparr>) 5 (Some late_msg) demo_server =
     (Inr rc_failure, demo_server \<lparr> user_sas := k \<rparr>)"
proof -
  let ?E = "demo_env \<lparr> env_gcrypt := aad_gcrypt \<rparr>"
  have G: "gcm_ok (env_gcrypt ?E)" "gcm_len (env_gcrypt ?E)" by (simp_all add: gcm_ok_def gcm_len_def aad_gcrypt_def demo_gcrypt_def min_def)
  have s: "sealed_msg (env_gcrypt ?E) (replicate 16 1) (seq_aad 3) [] late_msg" using late_msg_sealed by simp
  have n: "length ([] :: byte list) + 200 < 2 ^ 31" "3 < (2 ^ 32 :: nat)" "user_recv_seq demo_user < 2 ^ 32" "3 \<noteq> user_recv_seq demo_user"
    by (simp_all add: demo_on_line(3))
  have "gcry_tag (env_gcrypt ?E) K iv (seq_aad 3) ct \<noteq> gcry_tag (env_gcrypt ?E) K iv (seq_aad 0) ct" for K iv ct
  proof
    assume e: "gcry_tag (env_gcrypt ?E) K iv (seq_aad 3) ct = gcry_tag (env_gcrypt ?E) K iv (seq_aad 0) ct"
    have t: "take 4 (gcry_tag (env_gcrypt ?E) K iv (seq_aad q) ct) = seq_aad q" for q by (simp add: aad_gcrypt_def seq_aad_def)
    have "seq_aad 3 = seq_aad 0" using arg_cong[OF e, of "take 4"] unfolding t .
    then show False using seq_aad_inj[of 3 0] by simp
  qed
  then show ?thesis using replay_rejected[OF G demo_on_line(1,2) s n] by (simp add: demo_on_line(3))
qed

lemma init_needs_mkfs_witness:
  "\<exists>t t'. requests demo_srv demo_env [(5, CLIENT_INIT_OP, flexbuf_new), (5, CLIENT_DESTROY_OP, flexbuf_new)] (demo_server \<lparr> fs_initialized := False \<rparr>) = t \<and>
     \<not> fs_initialized t \<and> dispatch demo_srv demo_env 5 CLIENT_INIT_OP flexbuf_new t = (Inr rc_failure, t')"
proof -
  let ?rs = "[(5 :: nat, CLIENT_INIT_OP, flexbuf_new), (5, CLIENT_DESTROY_OP, flexbuf_new)]"
  have "\<not> fs_initialized (demo_server \<lparr> fs_initialized := False \<rparr>)" "\<forall>(conn, ot, b) \<in> set ?rs. ot \<noteq> CLIENT_INIT_MKFS_OP"
    by (simp_all add: op_codes)
  from init_needs_mkfs[OF this refl, of demo_srv demo_env 5 flexbuf_new] show ?thesis by blast
qed

end
