(* ===== verification/Bfs_Client.thy ===== *)
theory Bfs_Client
  imports Bfs_Server
begin

text \<open>
  The client, \<^verbatim>\<open>src/src/bfs_client/bfs_client.cpp\<close>: the file operations it offers to FUSE, each of which sends an
  encrypted request and decodes the reply, and the cache of file data in local files with its dirty chunks.  The names of
  the definitions are those of the code with \<^verbatim>\<open>c_\<close> for \<^verbatim>\<open>bfs_\<close>.

  The model is of one thread, with the measurements switched off and without the background thread that writes dirty
  chunks back.  A lock that is taken while it is held, and waiting for a message that does not come, is the error
  \<^const>\<open>BfsBlocked\<close>.
\<close>

section \<open>State\<close>

text \<open>What is outside the client: the cipher, the stream of random bytes, and the other end of the connection, which
  takes a packet and gives the packets that come back (\<^const>\<open>None\<close>: the packet could not be sent).  An empty packet
  says that the connection was closed.\<close>

record 'n cl_env =
  cl_gcrypt :: gcrypt
  cl_random :: "nat \<Rightarrow> byte"
  cl_peer :: "byte list \<Rightarrow> 'n \<Rightarrow> byte list list option \<times> 'n"

text \<open>\<^verbatim>\<open>c_live\<close>: the objects that \<^verbatim>\<open>cleanup\<close> deletes exist.  Local files are named by their path; \<^verbatim>\<open>local_ok\<close> says
  that they can be opened.\<close>

record 'n client =
  c_live :: bool
  c_sa :: sa_ctx
  c_send_seq :: nat
  c_recv_seq :: nat
  c_random_pos :: nat
  mux_locked :: bool
  c_net :: 'n
  inbox :: "byte list list"
  client_status :: bool
  direct_io_flag :: bool
  writeback_locked :: bool
  file_cache :: "nat \<Rightarrow> string option"
  dirty_chunks :: "nat \<Rightarrow> nat set option"
  total_dirty_chunks :: nat
  local_ok :: bool
  local_files :: "string \<Rightarrow> byte list"

definition chunk_size :: nat where "chunk_size = 1024 * 1024"

section \<open>Messages\<close>

definition lock_mux :: "('n client, unit) comp" where
  "lock_mux = bindE (getE mux_locked) (\<lambda>l. if l then throwE BfsBlocked else modE (\<lambda>c. c \<lparr> mux_locked := True \<rparr>))"

definition unlock_mux :: "('n client, unit) comp" where
  "unlock_mux = modE (\<lambda>c. c \<lparr> mux_locked := False \<rparr>)"

text \<open>Operations of the security association on a packet, in place.\<close>

definition on_c_sa :: "(sa_ctx, 'a) comp \<Rightarrow> flexbuf \<Rightarrow> ('n client, flexbuf) comp" where
  "on_c_sa m pkt = (\<lambda>c. if \<not> c_live c then (Inl BfsBadPointer, c)
     else case m ((c_sa c) \<lparr> sa_buf := pkt \<rparr>) of (r, sa') \<Rightarrow> (map_sum id (\<lambda>_. sa_buf sa') r, c \<lparr> c_sa := sa' \<rparr>))"

definition c_next_random :: "'n cl_env \<Rightarrow> ('n client, nat \<Rightarrow> byte) comp" where
  "c_next_random C = (\<lambda>c.
     let n = (case saKey (c_sa c) of None \<Rightarrow> 0 | Some k \<Rightarrow> ivlen k) in
     (Inr (\<lambda>i. cl_random C (c_random_pos c + i)), c \<lparr> c_random_pos := c_random_pos c + n \<rparr>))"

definition send_msgp :: "'n cl_env \<Rightarrow> byte list \<Rightarrow> ('n client, unit) comp" where
  "send_msgp C pkt = (\<lambda>c. case cl_peer C pkt (c_net c) of (r, n') \<Rightarrow>
     (case r of None \<Rightarrow> (Inl StdRuntimeError, c \<lparr> c_net := n' \<rparr>)
      | Some ps \<Rightarrow> (Inr (), c \<lparr> c_net := n', inbox := inbox c @ ps \<rparr>)))"

text \<open>Building, encrypting and sending a request: the body (if there is one), then the scalars.\<close>

definition request_pkt :: "byte list option \<Rightarrow> (fb_type \<times> int) list \<Rightarrow> (flexbuf, unit) comp" where
  "request_pkt body vals =
     seqE (resetWithAlloc (case body of None \<Rightarrow> 0 | Some d \<Rightarrow> length d) 0 (sum_list (map (fb_sizeof \<circ> fst) vals)) 0 False)
     (seqE (case body of None \<Rightarrow> retE 0 | Some d \<Rightarrow> setData d) (stream_all vals))"

definition send_request :: "'n cl_env \<Rightarrow> byte list option \<Rightarrow> (fb_type \<times> int) list \<Rightarrow> ('n client, unit) comp" where
  "send_request C body vals =
     bindE (lift_buf (request_pkt body vals) flexbuf_new) (\<lambda>(_, spkt).
     seqE lock_mux
     (bindE (c_next_random C) (\<lambda>rnd.
      bindE (getE c_send_seq) (\<lambda>sq.
      bindE (on_c_sa (encryptData (cl_gcrypt C) rnd (seq_aad sq) True) spkt) (\<lambda>enc.
      seqE (modE (\<lambda>c. c \<lparr> c_send_seq := u32 (sq + 1) \<rparr>))
      (send_msgp C (fb_data enc)))))))"

text \<open>Receiving: \<^verbatim>\<open>otype\<close> is \<^const>\<open>None\<close> where the code passes \<^verbatim>\<open>INVALID_OP\<close>.  The lock is released when the connection is
  closed, and not on the other errors.\<close>

definition recv_msgp :: "'n cl_env \<Rightarrow> nat \<Rightarrow> int option \<Rightarrow> bool \<Rightarrow> ('n client, flexbuf) comp" where
  "recv_msgp C len otype allow_short =
     bindE (getE inbox) (\<lambda>ps. case ps of
       [] \<Rightarrow> throwE BfsBlocked
     | p # rest \<Rightarrow>
         seqE (modE (\<lambda>c. c \<lparr> inbox := rest \<rparr>))
         (if p = [] then seqE unlock_mux (throwE StdRuntimeError)
          else
            bindE (getE c_recv_seq) (\<lambda>sq.
            bindE (on_c_sa (decryptData (cl_gcrypt C) (seq_aad sq) True) (net_buf p)) (\<lambda>rpkt.
            seqE (modE (\<lambda>c. c \<lparr> c_recv_seq := u32 (sq + 1) \<rparr>))
            (let bytes_read = blength rpkt in
             bindE (case otype of
                 None \<Rightarrow> retE rpkt
               | Some op \<Rightarrow> bindE (lift_buf (unstream_all [I32T, I32T]) rpkt) (\<lambda>(vs, rpkt').
                   seqE (guardE (vs ! 0 = FROM_SERVER \<and> vs ! 1 = op) StdRuntimeError) (retE rpkt'))) (\<lambda>r.
             seqE (guardE (\<not> (allow_short \<and> bytes_read < 8 \<or> \<not> allow_short \<and> bytes_read \<noteq> len)) StdRuntimeError)
             (retE r)))))))"

definition c_cleanup :: "('n client, unit) comp" where
  "c_cleanup = bindE (getE c_live) (\<lambda>l. if l then modE (\<lambda>c. c \<lparr> c_live := False \<rparr>) else throwE BfsBadPointer)"

text \<open>The exception handlers of the operations: \<^const>\<open>Inl\<close> is the value that the operation returns at once.\<close>

definition c_try :: "('n client, 'a) comp \<Rightarrow> ('n client, int + 'a) comp" where
  "c_try m = catchE (bindE m (\<lambda>x. retE (Inr x))) (\<lambda>e.
     if e = bfsCryptoError \<or> e = bfsUtilError then retE (Inl rc_failure)
     else if e = StdRuntimeError then seqE c_cleanup (retE (Inl rc_failure))
     else throwE e)"

text \<open>A request and its reply, with the two types taken off.\<close>

definition rpc :: "'n cl_env \<Rightarrow> byte list option \<Rightarrow> (fb_type \<times> int) list \<Rightarrow> int \<Rightarrow> int \<Rightarrow> nat \<Rightarrow> bool \<Rightarrow> ('n client, flexbuf) comp" where
  "rpc C body vals otype rtype len allow_short =
     seqE (send_request C body (vals @ [(I32T, otype), (I32T, TO_SERVER)]))
     (bindE (recv_msgp C len (Some rtype) allow_short) (\<lambda>rpkt. seqE unlock_mux (retE rpkt)))"

definition path_body :: "string \<Rightarrow> byte list" where
  "path_body path = map byte_of_char path @ [0]"

definition path_len :: "string \<Rightarrow> int" where
  "path_len path = int (length path) + 1"

text \<open>A request whose reply is one scalar: the value is handed on, an exception ends the operation.\<close>

definition rpc_code :: "'n cl_env \<Rightarrow> byte list option \<Rightarrow> (fb_type \<times> int) list \<Rightarrow> int \<Rightarrow> fb_type \<Rightarrow> bool \<Rightarrow> ('n client, int + int) comp" where
  "rpc_code C body vals otype ty allow_short = c_try
     (bindE (rpc C body vals otype otype (8 + fb_sizeof ty) allow_short) (\<lambda>rpkt.
      bindE (lift_buf (unstream_all [ty]) rpkt) (\<lambda>(vs, _). retE (hd vs))))"

definition rpc_ret :: "'n cl_env \<Rightarrow> byte list option \<Rightarrow> (fb_type \<times> int) list \<Rightarrow> int \<Rightarrow> ('n client, int) comp" where
  "rpc_ret C body vals otype = bindE (rpc_code C body vals otype I32T False) (\<lambda>r. retE (case r of Inl rc \<Rightarrow> rc | Inr ret \<Rightarrow> ret))"

text \<open>The conversion of the unsigned handle to \<^verbatim>\<open>int\<close>.\<close>

definition to_int :: "int \<Rightarrow> int" where
  "to_int v = (let w = v mod 2 ^ 32 in if w < 2 ^ 31 then w else w - 2 ^ 32)"

definition to_int64 :: "int \<Rightarrow> int" where
  "to_int64 v = (let w = v mod 2 ^ 64 in if w < 2 ^ 63 then w else w - 2 ^ 64)"

section \<open>Operations on paths\<close>

text \<open>The attributes that are filled in: inode number, mode, size.\<close>

definition c_getattr :: "'n cl_env \<Rightarrow> string \<Rightarrow> ('n client, int + int \<times> int \<times> int) comp" where
  "c_getattr C path = bindE (c_try
     (bindE (rpc C (Some (path_body path)) [(U32T, path_len path)] CLIENT_GETATTR_OP CLIENT_GETATTR_OP 48 False) (\<lambda>rpkt.
      bindE (lift_buf (unstream_all [I32T, U32T, U32T, U32T, U32T, U64T]) rpkt) (\<lambda>(vs, b).
      if vs ! 0 \<noteq> rc_success \<and> vs ! 5 < int ROOT_INO then retE (Inl (- ENOENT))
      else bindE (lift_buf (unstream_all [U32T, I64T]) b) (\<lambda>(ws, _). retE (Inr (vs ! 5, ws ! 0, ws ! 1)))))))
     (\<lambda>r. retE (case r of Inl rc \<Rightarrow> Inl rc | Inr a \<Rightarrow> a))"

definition c_mkdir :: "'n cl_env \<Rightarrow> string \<Rightarrow> nat \<Rightarrow> ('n client, int) comp" where
  "c_mkdir C path mode = rpc_ret C (Some (path_body path)) [(I32T, path_len path), (U32T, int mode)] CLIENT_MKDIR_OP"

definition c_unlink :: "'n cl_env \<Rightarrow> string \<Rightarrow> ('n client, int) comp" where
  "c_unlink C path = rpc_ret C (Some (path_body path)) [(I32T, path_len path)] CLIENT_UNLINK_OP"

definition c_rmdir :: "'n cl_env \<Rightarrow> string \<Rightarrow> ('n client, int) comp" where
  "c_rmdir C path = rpc_ret C (Some (path_body path)) [(I32T, path_len path)] CLIENT_RMDIR_OP"

definition c_rename :: "'n cl_env \<Rightarrow> string \<Rightarrow> string \<Rightarrow> ('n client, int) comp" where
  "c_rename C fr to = rpc_ret C (Some (path_body fr @ path_body to)) [(I32T, path_len to), (I32T, path_len fr)] CLIENT_RENAME_OP"

definition c_chmod :: "'n cl_env \<Rightarrow> string \<Rightarrow> nat \<Rightarrow> ('n client, int) comp" where
  "c_chmod C path mode =
     bindE (rpc_code C (Some (path_body path)) [(I32T, path_len path), (U32T, int mode)] CLIENT_CHMOD_OP U64T False) (\<lambda>r.
       retE (case r of Inl rc \<Rightarrow> rc | Inr ret \<Rightarrow> to_int ret))"

text \<open>The requests of these two are commented out.\<close>

definition c_chown :: "('n client, int) comp" where "c_chown = retE rc_success"
definition c_utimens :: "('n client, int) comp" where "c_utimens = retE rc_success"

text \<open>Opening the local file of a path; \<^verbatim>\<open>writeback_lock\<close> is not released when that fails.\<close>

definition lock_writeback :: "('n client, unit) comp" where
  "lock_writeback = bindE (getE writeback_locked) (\<lambda>l.
     if l then throwE BfsBlocked else modE (\<lambda>c. c \<lparr> writeback_locked := True \<rparr>))"

definition unlock_writeback :: "('n client, unit) comp" where
  "unlock_writeback = modE (\<lambda>c. c \<lparr> writeback_locked := False \<rparr>)"

definition open_local :: "bool \<Rightarrow> string \<Rightarrow> nat \<Rightarrow> ('n client, int) comp" where
  "open_local trunc path fh =
     seqE lock_writeback
     (bindE (getE local_ok) (\<lambda>ok.
      if \<not> ok then retE rc_failure
      else seqE (modE (\<lambda>c. c \<lparr> local_files := (if trunc then (local_files c) (path := []) else local_files c),
              file_cache := (file_cache c) (fh \<mapsto> path), dirty_chunks := (dirty_chunks c) (fh \<mapsto> {}) \<rparr>))
        (seqE unlock_writeback (retE rc_success))))"

text \<open>The second component is the handle stored in \<^verbatim>\<open>fi\<close>.\<close>

definition c_open :: "'n cl_env \<Rightarrow> string \<Rightarrow> ('n client, int \<times> nat option) comp" where
  "c_open C path =
     bindE (rpc_code C (Some (path_body path)) [(I32T, path_len path)] CLIENT_OPEN_OP U64T False) (\<lambda>r. case r of
       Inl rc \<Rightarrow> retE (rc, None)
     | Inr ret \<Rightarrow>
         if to_int64 ret < int START_FD then retE (to_int ret, None)
         else bindE (open_local False path (nat ret)) (\<lambda>rc. retE (rc, Some (nat ret))))"

definition c_create :: "'n cl_env \<Rightarrow> string \<Rightarrow> nat \<Rightarrow> ('n client, int \<times> nat option) comp" where
  "c_create C path mode =
     bindE (rpc_code C (Some (path_body path)) [(I32T, path_len path), (U32T, int mode)] CLIENT_CREATE_OP U64T False) (\<lambda>r. case r of
       Inl rc \<Rightarrow> retE (rc, None)
     | Inr ret \<Rightarrow>
         if to_int64 ret < int START_FD then retE (to_int ret, None)
         else bindE (open_local True path (nat ret)) (\<lambda>rc. retE (rc, Some (nat ret))))"

definition c_opendir :: "'n cl_env \<Rightarrow> string \<Rightarrow> ('n client, int \<times> nat option) comp" where
  "c_opendir C path =
     bindE (rpc_code C (Some (path_body path)) [(I32T, path_len path)] CLIENT_OPENDIR_OP U64T False) (\<lambda>r. case r of
       Inl rc \<Rightarrow> retE (rc, None)
     | Inr ret \<Rightarrow> if to_int64 ret < int ROOT_INO then retE (to_int ret, None) else retE (rc_success, Some (nat ret)))"

text \<open>The handle must be that of an open file; the local file is cut or extended with zeros.\<close>

definition c_truncate :: "'n cl_env \<Rightarrow> string \<Rightarrow> nat \<Rightarrow> nat \<Rightarrow> ('n client, int) comp" where
  "c_truncate C path len fh =
     seqE (guardE (START_FD \<le> fh) BfsAbort)
     (bindE (rpc_code C (Some (path_body path)) [(I32T, path_len path), (U32T, int (u32 len)), (U64T, int fh)] CLIENT_TRUNCATE_OP U64T False) (\<lambda>r.
      case r of
        Inl rc \<Rightarrow> retE rc
      | Inr ret \<Rightarrow>
          if ret \<noteq> rc_success then retE (to_int ret)
          else seqE lock_writeback
            (bindE (getE (\<lambda>c. file_cache c fh)) (\<lambda>f. case f of
               None \<Rightarrow> throwE BfsBadPointer
             | Some nm \<Rightarrow>
                 seqE (modE (\<lambda>c. c \<lparr> local_files := (local_files c)
                     (nm := take len (local_files c nm) @ replicate (len - length (local_files c nm)) 0) \<rparr>))
                 (seqE unlock_writeback (retE rc_success))))))"

section \<open>File data\<close>

text \<open>A handle without local file stands for descriptor 0 in the code; the model stops there.\<close>

definition local_of :: "nat \<Rightarrow> ('n client, string) comp" where
  "local_of fh = bindE (getE (\<lambda>c. file_cache c fh)) (\<lambda>f. case f of None \<Rightarrow> throwE BfsBadPointer | Some nm \<Rightarrow> retE nm)"

definition pwrite :: "nat \<Rightarrow> byte list \<Rightarrow> byte list \<Rightarrow> byte list" where
  "pwrite off dat f = (if dat = [] then f
     else take off f @ replicate (off - length f) 0 @ dat @ drop (off + length dat) f)"

definition pread :: "nat \<Rightarrow> nat \<Rightarrow> byte list \<Rightarrow> byte list" where
  "pread off n f = take n (drop off f)"

text \<open>With direct I/O the code copies as many bytes as the reply says, from the packet to the caller's buffer.\<close>

definition c_read :: "'n cl_env \<Rightarrow> nat \<Rightarrow> nat \<Rightarrow> nat \<Rightarrow> ('n client, int \<times> byte list) comp" where
  "c_read C sz off fh =
     seqE lock_writeback
     (bindE (getE direct_io_flag) (\<lambda>direct.
      if \<not> direct then
        bindE (getE (\<lambda>c. file_cache c fh)) (\<lambda>f. case f of
          None \<Rightarrow> throwE BfsAbort
        | Some nm \<Rightarrow>
            bindE (getE (\<lambda>c. pread off sz (local_files c nm))) (\<lambda>dat.
            seqE unlock_writeback (retE (to_int (int (length dat)), dat))))
      else
        seqE unlock_writeback
        (seqE (guardE (START_FD \<le> fh) BfsAbort)
        (bindE (c_try
          (bindE (rpc C None [(U64T, int off), (U64T, int sz), (U64T, int fh)] CLIENT_READ_OP CLIENT_READ_OP (u32 (16 + sz)) True) (\<lambda>rpkt.
           bindE (lift_buf (unstream_all [U64T]) rpkt) (\<lambda>(vs, b).
           seqE (guardE (nat (hd vs) \<le> sz \<and> nat (hd vs) \<le> length (buf_rest b)) BfsOutOfBounds)
           (retE (nat (hd vs), take (nat (hd vs)) (buf_rest b)))))))
          (\<lambda>r. retE (case r of Inl rc \<Rightarrow> (rc, []) | Inr (n, dat) \<Rightarrow> (to_int (int n), dat)))))))"

text \<open>A cached write: the local file, then the chunks are marked.  The number of chunks is that of the length alone.\<close>

definition written_chunks :: "nat \<Rightarrow> nat \<Rightarrow> nat set" where
  "written_chunks off n = {off div chunk_size ..< off div chunk_size + (n div chunk_size + (if n mod chunk_size \<noteq> 0 then 1 else 0))}"

definition cached_write :: "byte list \<Rightarrow> nat \<Rightarrow> nat \<Rightarrow> ('n client, int) comp" where
  "cached_write buf off fh =
     seqE lock_writeback
     (bindE (local_of fh) (\<lambda>nm.
      seqE (modE (\<lambda>c. c \<lparr> local_files := (local_files c) (nm := pwrite off buf (local_files c nm)) \<rparr>))
      (bindE (getE (\<lambda>c. dirty_chunks c fh)) (\<lambda>d. case d of
         None \<Rightarrow> throwE BfsBadPointer
       | Some D \<Rightarrow>
           seqE (modE (\<lambda>c. c \<lparr> dirty_chunks := (dirty_chunks c) (fh \<mapsto> D \<union> written_chunks off (length buf)),
               total_dirty_chunks := total_dirty_chunks c + card (written_chunks off (length buf) - D) \<rparr>))
           (seqE unlock_writeback (retE (to_int (int (length buf)))))))))"

text \<open>The loop that fills the write buffer, in \<^verbatim>\<open>n\<close> rounds at most (\<^const>\<open>None\<close>: it has not ended).  \<^verbatim>\<open>tbw\<close> is
  \<^verbatim>\<open>total_bytes_written\<close>, \<^verbatim>\<open>loc\<close> is \<^verbatim>\<open>dirty_chunks_local\<close>.\<close>

primrec prep_loop :: "nat \<Rightarrow> bool \<Rightarrow> byte list \<Rightarrow> byte list \<Rightarrow> nat \<Rightarrow> nat \<Rightarrow> nat \<Rightarrow> nat set \<Rightarrow> byte list \<Rightarrow> nat list \<Rightarrow> nat \<Rightarrow>
    (nat set \<times> byte list \<times> nat list \<times> nat) option" where
  "prep_loop 0 flush buf file off tot tbw D wbuf loc tdc = None"
| "prep_loop (Suc n) flush buf file off tot tbw D wbuf loc tdc =
     (if tbw < tot \<or> D \<noteq> {} then
        (let wb = min chunk_size (tot - tbw); idx = (off + tbw) div chunk_size in
         if flush then
           (if idx \<notin> D then prep_loop n flush buf file off tot (tbw + wb) D wbuf loc tdc
            else prep_loop n flush buf file off tot (tbw + wb) (D - {idx}) (pwrite tbw (pread (off + tbw) wb file) wbuf) (loc @ [idx]) (sub64 tdc 1))
         else prep_loop n flush buf file off tot (tbw + wb) D (pwrite tbw (pread tbw wb buf) wbuf) loc tdc)
      else Some (D, wbuf, loc, tdc))"

text \<open>One write request; a number of bytes below the requested one is a failure.\<close>

definition write_chunk :: "'n cl_env \<Rightarrow> nat \<Rightarrow> nat \<Rightarrow> byte list \<Rightarrow> ('n client, int + unit) comp" where
  "write_chunk C fh off dat =
     seqE (guardE (START_FD \<le> fh) BfsAbort)
     (bindE (rpc_code C (Some dat) [(U64T, int off), (U64T, int (length dat)), (U64T, int fh)] CLIENT_WRITE_OP U64T True) (\<lambda>r.
      retE (case r of Inl rc \<Rightarrow> Inl rc | Inr n \<Rightarrow> if n < int (length dat) then Inl rc_failure else Inr ())))"

text \<open>The loop that sends: the buffer is read from its start, chunk after chunk, and the offsets are those of the dirty
  chunks (\<^verbatim>\<open>flush\<close>) or those of the buffer.\<close>

primrec send_dirty :: "'n cl_env \<Rightarrow> nat \<Rightarrow> nat \<Rightarrow> byte list \<Rightarrow> nat list \<Rightarrow> nat \<Rightarrow> ('n client, int + nat) comp" where
  "send_dirty C fh tot wbuf [] tbw = retE (Inr tbw)"
| "send_dirty C fh tot wbuf (i # loc) tbw =
     (let wb = min chunk_size (tot - tbw) in
      bindE (write_chunk C fh (i * chunk_size) (pread tbw wb wbuf)) (\<lambda>r. case r of
        Inl rc \<Rightarrow> retE (Inl rc)
      | Inr _ \<Rightarrow> send_dirty C fh tot wbuf loc (tbw + wb)))"

primrec send_all :: "nat \<Rightarrow> 'n cl_env \<Rightarrow> nat \<Rightarrow> nat \<Rightarrow> nat \<Rightarrow> byte list \<Rightarrow> nat \<Rightarrow> ('n client, int + nat) comp" where
  "send_all 0 C fh off tot wbuf tbw = throwE BfsBlocked"
| "send_all (Suc n) C fh off tot wbuf tbw =
     (if tbw < tot then
        (let wb = min chunk_size (tot - tbw) in
         bindE (write_chunk C fh (off + tbw) (pread tbw wb wbuf)) (\<lambda>r. case r of
           Inl rc \<Rightarrow> retE (Inl rc)
         | Inr _ \<Rightarrow> send_all n C fh off tot wbuf (tbw + wb)))
      else retE (Inr tbw))"

text \<open>\<^verbatim>\<open>bfs_write_helper\<close> as \<^verbatim>\<open>bfs_write\<close>, \<^verbatim>\<open>bfs_flush\<close> and \<^verbatim>\<open>bfs_fsync\<close> call it, with \<^verbatim>\<open>wb_force_flush\<close> false.\<close>

definition c_write_helper :: "'n cl_env \<Rightarrow> bool \<Rightarrow> byte list \<Rightarrow> nat \<Rightarrow> nat \<Rightarrow> ('n client, int) comp" where
  "c_write_helper C flush buf off fh =
     bindE (getE direct_io_flag) (\<lambda>direct.
     if \<not> direct \<and> \<not> flush then cached_write buf off fh
     else
       seqE lock_writeback
       (bindE (if direct then retE (buf, off, length buf)
               else bindE (local_of fh) (\<lambda>nm. bindE (getE (\<lambda>c. local_files c nm)) (\<lambda>f. retE (f, 0, length f)))) (\<lambda>(file, offset, tot).
        bindE (getE (\<lambda>c. (dirty_chunks c fh, total_dirty_chunks c))) (\<lambda>(d, tdc). case d of
          None \<Rightarrow> throwE BfsBadPointer
        | Some D \<Rightarrow> (case prep_loop (tot div chunk_size + 4) flush buf file offset tot 0 D (replicate tot 0) [] tdc of
            None \<Rightarrow> throwE BfsBlocked
          | Some (D', wbuf, loc, tdc') \<Rightarrow>
              seqE (modE (\<lambda>c. c \<lparr> dirty_chunks := (dirty_chunks c) (fh \<mapsto> D'), total_dirty_chunks := tdc' \<rparr>))
              (seqE unlock_writeback
              (bindE (if flush then send_dirty C fh tot wbuf loc 0
                      else send_all (tot div chunk_size + 2) C fh offset tot wbuf 0) (\<lambda>r. retE (case r of
                 Inl rc \<Rightarrow> rc
               | Inr n \<Rightarrow> if direct then to_int (int n) else rc_success)))))))))"

definition c_write :: "'n cl_env \<Rightarrow> byte list \<Rightarrow> nat \<Rightarrow> nat \<Rightarrow> ('n client, int) comp" where
  "c_write C buf off fh = c_write_helper C False buf off fh"

definition c_flush :: "'n cl_env \<Rightarrow> nat \<Rightarrow> ('n client, int) comp" where
  "c_flush C fh = c_write_helper C True [] 0 fh"

definition c_fsync :: "'n cl_env \<Rightarrow> nat \<Rightarrow> ('n client, int) comp" where
  "c_fsync C fh = c_write_helper C True [] 0 fh"

text \<open>The dirty chunks of a released file are forgotten; the count of dirty chunks stays.\<close>

definition c_release :: "'n cl_env \<Rightarrow> nat \<Rightarrow> ('n client, int) comp" where
  "c_release C fh =
     seqE lock_writeback
     (seqE (modE (\<lambda>c. if file_cache c fh = None then c
        else c \<lparr> file_cache := (file_cache c) (fh := None), dirty_chunks := (dirty_chunks c) (fh := None) \<rparr>))
     (seqE unlock_writeback
     (seqE (guardE (START_FD \<le> fh) BfsAbort)
     (rpc_ret C None [(U64T, int fh)] CLIENT_RELEASE_OP))))"

definition c_releasedir :: "'n cl_env \<Rightarrow> nat \<Rightarrow> ('n client, int) comp" where
  "c_releasedir C fh = c_release C fh"

text \<open>\<^verbatim>\<open>junk\<close> is the content of the fresh allocation that is written.\<close>

definition c_fallocate :: "'n cl_env \<Rightarrow> (nat \<Rightarrow> byte) \<Rightarrow> string \<Rightarrow> nat \<Rightarrow> nat \<Rightarrow> nat \<Rightarrow> nat \<Rightarrow> ('n client, int) comp" where
  "c_fallocate C junk path mode off len fh =
     bindE (c_create C path mode) (\<lambda>(ret, h).
     if ret \<noteq> rc_success then retE (- 1)
     else bindE (c_write C (map junk [0..<off + len]) 0 (case h of None \<Rightarrow> fh | Some f \<Rightarrow> f)) (\<lambda>n.
       retE (if n \<noteq> int (off + len) then - 1 else 0)))"

definition c_lseek :: "('n client, int) comp" where "c_lseek = retE (- 1)"

section \<open>Directories\<close>

text \<open>The entries of the second reply, from the last to the first: \<^verbatim>\<open>de_off\<close> goes down by the size of a name while the
  headers in front of the data get fewer.  An entry below the reserved inode numbers that does not pass the test is freed
  and then used again, or ends the loop with a second \<^verbatim>\<open>free\<close> of the path.  The function that takes the entries is
  assumed to accept each of them.\<close>

definition entry_freed :: "string \<Rightarrow> string \<Rightarrow> int \<Rightarrow> bool" where
  "entry_freed path nm ino \<longleftrightarrow> ino < int FIRST_UNRESERVED_INO \<and>
     (if path = ''/'' then nm \<noteq> ''.'' \<and> nm \<noteq> ''..''
      else nm \<noteq> ''..'' \<or> fst (bfs_dirname path) \<noteq> ''/'')"

primrec take_entries :: "string \<Rightarrow> nat \<Rightarrow> nat list \<Rightarrow> nat \<Rightarrow> (string \<times> int \<times> int \<times> int) list \<Rightarrow> flexbuf \<Rightarrow>
    ('n client, (string \<times> int \<times> int \<times> int) list) comp" where
  "take_entries path num [] de_off acc rpkt = retE acc"
| "take_entries path num (i # is) de_off acc rpkt =
     bindE (lift_buf (unstream_all [U32T, U32T, U32T, U64T, U32T, I64T, U32T]) rpkt) (\<lambda>(vs, b).
     let len = nat (vs ! 6); pos = (num - i - 1) * DE_LEN + de_off; raw = buf_rest b in
     seqE (guardE (0 < len \<and> pos + len < length raw) BfsOutOfBounds)
     (seqE (guardE (raw ! (pos + len) = 0) BfsAbort)
     (let nm = map char_of_byte (takeWhile (\<lambda>x. x \<noteq> 0) (take (len - 1) (drop pos raw))) in
      if entry_freed path nm (vs ! 3) then throwE BfsBadPointer
      else take_entries path num is (sub64 de_off MAX_FILE_NAME_LEN) (acc @ [(nm, vs ! 3, vs ! 4, vs ! 5)]) b)))"

definition c_readdir :: "'n cl_env \<Rightarrow> string \<Rightarrow> nat \<Rightarrow> ('n client, int + (string \<times> int \<times> int \<times> int) list) comp" where
  "c_readdir C path fh =
     seqE (guardE (START_FD \<le> fh) BfsAbort)
     (c_try
       (bindE (rpc C None [(U64T, int fh)] CLIENT_READDIR_OP CLIENT_READDIR_OP 16 False) (\<lambda>rpkt.
        bindE (lift_buf (unstream_all [U64T]) rpkt) (\<lambda>(vs, b).
        let num = nat (hd vs); tot = u32 (num * MAX_FILE_NAME_LEN) in
        bindE (lift_buf (resetWithAlloc tot 0 (u32 (num * DE_LEN)) 0 False) b) (\<lambda>_.
        bindE (recv_msgp C (u32 (tot + num * DE_LEN)) None False) (\<lambda>rpkt2.
        take_entries path num [0..<num] (u32 (tot + (2 ^ 32 - MAX_FILE_NAME_LEN))) [] rpkt2))))))"

section \<open>Starting and stopping\<close>

text \<open>The connection is a new one and the lock is initialised.  \<^verbatim>\<open>bfsCryptoError\<close> is not caught.\<close>

definition c_init :: "'n cl_env \<Rightarrow> bool \<Rightarrow> ('n client, unit) comp" where
  "c_init C do_mkfs =
     seqE (modE (\<lambda>c. c \<lparr> c_live := True, mux_locked := False \<rparr>))
     (catchE
       (bindE (rpc C None [] (if do_mkfs then CLIENT_INIT_MKFS_OP else CLIENT_INIT_OP) CLIENT_INIT_OP 12 False) (\<lambda>rpkt.
        bindE (lift_buf (unstream_all [I32T]) rpkt) (\<lambda>(vs, _).
        if hd vs \<noteq> rc_success then retE () else modE (\<lambda>c. c \<lparr> client_status := True \<rparr>))))
       (\<lambda>e. if e = bfsUtilError then retE ()
            else if e = StdRuntimeError then c_cleanup
            else throwE e))"

definition c_destroy :: "'n cl_env \<Rightarrow> ('n client, unit) comp" where
  "c_destroy C =
     seqE (modE (\<lambda>c. c \<lparr> client_status := False \<rparr>))
     (bindE (catchE
       (bindE (rpc C None [] CLIENT_DESTROY_OP CLIENT_DESTROY_OP 12 False) (\<lambda>rpkt.
        bindE (lift_buf (unstream_all [I32T]) rpkt) (\<lambda>(vs, _). retE (hd vs = rc_success))))
       (\<lambda>e. if e = bfsUtilError \<or> e = StdRuntimeError then retE False else throwE e)) (\<lambda>ok.
      if ok then c_cleanup else retE ()))"

end
