(* ===== verification/Bfs_Rpc.thy ===== *)
theory Bfs_Rpc
  imports Bfs_Client Bfs_Isolation
begin

text \<open>
  The client and the server together.  \<^verbatim>\<open>server_peer\<close> is the loop of \<^verbatim>\<open>client_worker_entry\<close> in
  \<^verbatim>\<open>src/src/bfs_fs/bfs_server.cpp\<close>, which serves one connection; as the peer of a client it closes the circle from a
  call of the client to the operation on the server's file system and back.

  A call reaches the operation with the caller's arguments and returns its result, and both ends stay in step, whatever
  the operation does.  A failure inside the server never reaches the client, which waits for ever.
\<close>

section \<open>The loop of a connection\<close>

record link =
  lk_server :: server
  lk_open :: bool

text \<open>An empty packet ends the loop.  The answers are the packets the handler sent.  When it does not return success the loop ends and deletes the
  connection object, whose destructor does not close the socket: the client can still send and gets no answer.  An
  exception that nobody catches ends the process, which closes the connection.\<close>

definition server_peer :: "srv_env \<Rightarrow> bfs_env \<Rightarrow> nat \<Rightarrow> byte list \<Rightarrow> link \<Rightarrow> byte list list option \<times> link" where
  "server_peer S E conn pkt l =
     (if \<not> lk_open l then (Some [], l)
      else if pkt = [] then (Some [], l \<lparr> lk_open := False \<rparr>)
      else case ecall_bfs_handle_in_msg S E conn (Some pkt) ((lk_server l) \<lparr> sent := [] \<rparr>) of (r, s) \<Rightarrow>
        let ps = map snd (filter (\<lambda>x. fst x = conn) (sent s)) in
        (Some (ps @ (case r of Inl _ \<Rightarrow> [[]] | Inr _ \<Rightarrow> [])), \<lparr> lk_server = s, lk_open = (r = Inr rc_success) \<rparr>))"

section \<open>Packets\<close>

lemma sealed_msg_ne: "sealed_msg G K aad p pkt \<Longrightarrow> pkt \<noteq> []"
  by (auto simp: sealed_msg_def)

definition enc_all :: "(fb_type \<times> int) list \<Rightarrow> byte list" where
  "enc_all ps = concat (map (\<lambda>(ty, v). fb_encode ty v) ps)"

lemma stream_all_bound:
  assumes "fb_ok b" "allocation b + 40 * length ps < 2 ^ 32" "stream_all ps b = (Inr (), b')"
  shows "allocation b' \<le> allocation b + 40 * length ps"
  using assms
proof (induction ps arbitrary: b)
  case (Cons p ps)
  obtain ty v where p: "p = (ty, v)" by (cases p)
  have "allocation b + length (fb_encode ty v) + BFSFLEXBUF_DEFAULT_PAD < 2 ^ 32"
    using Cons.prems(2) fb_sizeof_bounds(2)[of ty] by (simp add: BFSFLEXBUF_DEFAULT_PAD_def)
  from fb.addH[OF Cons.prems(1) this] obtain b1 where
    b1: "addHeader (fb_encode ty v) b = (Inr (length (fb_encode ty v @ fb_data b)), b1)" "fb_ok b1"
      "allocation b1 \<le> allocation b + length (fb_encode ty v) + BFSFLEXBUF_DEFAULT_PAD" by auto
  have a: "allocation b1 \<le> allocation b + 40"
    using b1(3) fb_sizeof_bounds(2)[of ty] by (simp add: BFSFLEXBUF_DEFAULT_PAD_def)
  have "stream_all ps b1 = (Inr (), b')"
    using Cons.prems(3) b1(1) by (simp add: p stream_out_def addHeader_val_def comp_simps)
  from Cons.IH[OF b1(2) _ this] a Cons.prems(2) show ?case by simp
qed (simp add: retE_def)

lemma sum_sizes: "sum_list (map (fb_sizeof \<circ> fst) vals) \<le> 8 * length vals"
  by (induction vals) (use fb_sizeof_bounds(2) in \<open>auto intro: add_mono\<close>)

text \<open>A packet of scalars, and one with a body.\<close>

lemma scalar_pkt:
  assumes "length vals \<le> 100"
  obtains b where "(seqE (resetWithAlloc 0 0 (sum_list (map (fb_sizeof \<circ> fst) vals)) 0 False) (stream_all vals)) flexbuf_new = (Inr (), b)"
    "fb_ok b" "fb_data b = enc_all (rev vals)" "allocation b \<le> 4800"
proof -
  let ?h = "sum_list (map (fb_sizeof \<circ> fst) vals)"
  have h: "?h \<le> 800" using sum_sizes[of vals] assms by linarith
  obtain b1 where b1: "resetWithAlloc 0 0 ?h 0 False flexbuf_new = (Inr 0, b1)" "fb_ok b1" "fb_data b1 = []" "allocation b1 \<le> ?h"
    by (rule reset_new[of ?h 0 0]) (use h in auto)
  have r: "allocation b1 + 40 * length vals < 2 ^ 32" using b1(4) h assms by simp
  obtain b where b: "stream_all vals b1 = (Inr (), b)" "fb_ok b" "fb_data b = enc_all (rev vals) @ fb_data b1"
    using stream_all_ok[OF b1(2) r] by (auto simp: enc_all_def)
  have "allocation b \<le> 4800" using stream_all_bound[OF b1(2) r b(1)] b1(4) h assms by linarith
  then show thesis using that[of b] b1(1,3) b by (simp add: comp_simps)
qed

lemma request_pkt_ok:
  assumes "length vals \<le> 100" "length body < 2 ^ 31"
  obtains b where "request_pkt (Some body) vals flexbuf_new = (Inr (), b)" "fb_ok b" "fb_data b = enc_all (rev vals) @ body"
    "allocation b \<le> length body + 5600"
proof -
  let ?h = "sum_list (map (fb_sizeof \<circ> fst) vals)"
  have h: "?h \<le> 800" using sum_sizes[of vals] assms(1) by linarith
  obtain b1 where b1: "resetWithAlloc (length body) 0 ?h 0 False flexbuf_new = (Inr (length body), b1)" "fb_ok b1"
      "fb_data b1 = replicate (length body) 0" "allocation b1 \<le> ?h + length body + 0"
    by (rule reset_new[of ?h "length body" 0]) (use h assms(2) in auto)
  have bl: "blength b1 = length body" using length_fb_data[OF b1(2)] b1(3) by simp
  have al: "hlength b1 + length body + tlength b1 = allocation b1" using b1(2) bl by (auto simp: fb_ok_def)
  obtain b2 where b2: "setData body b1 = (Inr (length body), b2)" "fb_ok b2" "fb_data b2 = body" "allocation b2 \<le> allocation b1"
    by (rule setData_rep[OF b1(2), of body]) (use al b1(2) in \<open>auto simp: fb_ok_def\<close>)
  have r: "allocation b2 + 40 * length vals < 2 ^ 32" using b2(4) b1(4) h assms by simp
  obtain b where b: "stream_all vals b2 = (Inr (), b)" "fb_ok b" "fb_data b = enc_all (rev vals) @ fb_data b2"
    using stream_all_ok[OF b2(2) r] by (auto simp: enc_all_def)
  have "allocation b \<le> length body + 5600" using stream_all_bound[OF b2(2) r b(1)] b2(4) b1(4) h assms by linarith
  then show thesis using that[of b] b1(1) b2(1,3) b by (simp add: request_pkt_def comp_simps)
qed

section \<open>The server's end\<close>

lemma decrypt_msg_ok:
  assumes G: "gcm_ok (env_gcrypt E)" and o: "on_line K conn u s"
    and m: "sealed_msg (env_gcrypt E) K (seq_aad (user_recv_seq u)) d pkt" and l: "length d + 200 < 2 ^ 31"
  obtains b s' where "decrypt_msg E conn pkt s = (Inr (Some b), s')" "fb_ok b" "fb_data b = d" "on_line K conn (inc_recv_seq u) s'"
    "\<exists>a k. s' = s \<lparr> user_sas := k, acl_layer := (acl_layer s) \<lparr> user_contexts := a \<rparr> \<rparr>"
proof -
  obtain sa where sa: "user_sas s conn = Some sa" "sa_ready K sa" and u: "user_contexts (acl_layer s) conn = Some u"
    using o by (auto simp: on_line_def)
  have lp: "length pkt < 2 ^ 31" "length pkt + 100 < 2 ^ 32" using sealed_msg_length[OF m G] l by simp_all
  have nb: "fb_ok (net_buf pkt)" "fb_data (net_buf pkt) = pkt" by (rule net_buf_ok[OF lp(1)])+
  obtain sa' t where d: "decryptData_out (env_gcrypt E) (seq_aad (user_recv_seq u)) True (sa \<lparr> sa_buf := net_buf pkt, sa_out := flexbuf_new \<rparr>) = (Inr t, sa')"
      "sa_ready K sa'" "fb_ok (sa_out sa')" "fb_data (sa_out sa') = d"
    by (rule unseal_out[OF G sa(2) nb(1), of "seq_aad (user_recv_seq u)" d]) (use nb(2) lp(2) m in auto)
  let ?s = "map_user conn inc_recv_seq (s \<lparr> user_sas := (user_sas s) (conn \<mapsto> sa') \<rparr>)"
  have "decrypt_msg E conn pkt s = (Inr (Some (sa_out sa')), ?s)"
    using u sa(1) d(1) by (simp add: decrypt_msg_def no_crypto_error_def catchE_def comp_simps the_user_run on_user_sa_def)
  moreover have "on_line K conn (inc_recv_seq u) ?s" using u d(2) by (simp add: on_line_def)
  moreover have "\<exists>a k. ?s = s \<lparr> user_sas := k, acl_layer := (acl_layer s) \<lparr> user_contexts := a \<rparr> \<rparr>"
    by (auto simp: map_user_def)
  ultimately show thesis using that d(3,4) by blast
qed

lemma send_pkt_ok:
  assumes G: "gcm_ok (env_gcrypt E)" and o: "on_line K conn u s" and up: "link_up s conn"
    and b: "fb_ok b" "allocation b + 300 < 2 ^ 32"
  obtains pkt s' where "send_pkt E conn b s = (Inr rc_success, s')" "on_line K conn (inc_send_seq u) s'"
    "sealed_msg (env_gcrypt E) K (seq_aad (user_send_seq u)) (fb_data b) pkt"
    "\<exists>p a k. s' = s \<lparr> random_pos := p, user_sas := k, acl_layer := (acl_layer s) \<lparr> user_contexts := a \<rparr>, sent := sent s @ [(conn, pkt)] \<rparr>"
proof -
  obtain sa where sa: "user_sas s conn = Some sa" "sa_ready K sa" and u: "user_contexts (acl_layer s) conn = Some u"
    using o by (auto simp: on_line_def)
  obtain k where k: "saKey sa = Some k" by (rule sa_readyE[OF sa(2)])
  let ?rnd = "\<lambda>i. env_random E (random_pos s + i)"
  let ?s1 = "s \<lparr> random_pos := random_pos s + ivlen k \<rparr>"
  obtain sa' where e: "encryptData_out (env_gcrypt E) ?rnd (seq_aad (user_send_seq u)) True (sa \<lparr> sa_buf := b, sa_out := flexbuf_new \<rparr>) = (Inr (), sa')"
      "sa_ready K sa'" "sealed_msg (env_gcrypt E) K (seq_aad (user_send_seq u)) (fb_data b) (fb_data (sa_out sa'))"
    by (rule seal_out[OF G sa(2) b])
  let ?s2 = "map_user conn inc_send_seq (?s1 \<lparr> user_sas := (user_sas s) (conn \<mapsto> sa') \<rparr>)"
  let ?pkt = "fb_data (sa_out sa')"
  have n: "next_random E (ivlen k) s = (Inr ?rnd, ?s1)" by (simp add: next_random_def comp_simps)
  have "encrypt_msg E conn b s = (Inr (Some ?pkt), ?s2)"
    using u sa(1) k n e(1) by (simp add: encrypt_msg_def no_crypto_error_def catchE_def comp_simps the_user_run on_user_sa_def)
  then have run: "send_pkt E conn b s = (Inr rc_success, ?s2 \<lparr> sent := sent s @ [(conn, ?pkt)] \<rparr>)"
    using up by (simp add: send_pkt_def ocall_handle_out_msg_def net_send_def comp_simps)
  show thesis
    by (rule that[OF run _ e(3)]) (use u e(2) in \<open>auto simp: on_line_def map_user_def\<close>)
qed

section \<open>Operations on a path\<close>

text \<open>The three operations that take a path and return a code, at both ends.\<close>

datatype path_op = OpMkdir string nat | OpUnlink string | OpRmdir string

primrec op_path :: "path_op \<Rightarrow> string" where
  "op_path (OpMkdir p m) = p" | "op_path (OpUnlink p) = p" | "op_path (OpRmdir p) = p"

primrec op_code :: "path_op \<Rightarrow> int" where
  "op_code (OpMkdir p m) = CLIENT_MKDIR_OP" | "op_code (OpUnlink p) = CLIENT_UNLINK_OP" | "op_code (OpRmdir p) = CLIENT_RMDIR_OP"

primrec op_args :: "path_op \<Rightarrow> (fb_type \<times> int) list" where
  "op_args (OpMkdir p m) = [(U32T, int m), (U32T, path_len p)]" | "op_args (OpUnlink p) = [(U32T, path_len p)]" | "op_args (OpRmdir p) = [(U32T, path_len p)]"

primrec c_call :: "'n cl_env \<Rightarrow> path_op \<Rightarrow> ('n client, int) comp" where
  "c_call C (OpMkdir p m) = c_mkdir C p m" | "c_call C (OpUnlink p) = c_unlink C p" | "c_call C (OpRmdir p) = c_rmdir C p"

primrec fs_call :: "bfs_env \<Rightarrow> user_ctx \<Rightarrow> path_op \<Rightarrow> ('z bfs_handle_scheme, unit) comp" where
  "fs_call E u (OpMkdir p m) = bfs_mkdir E (Some u) p m" | "fs_call E u (OpUnlink p) = bfs_unlink E (Some u) p"
| "fs_call E u (OpRmdir p) = bfs_rmdir E (Some u) p"

text \<open>Paths of C strings whose length fits the message.\<close>

definition op_ok :: "path_op \<Rightarrow> bool" where
  "op_ok op \<longleftrightarrow> CHR 0x00 \<notin> set (op_path op) \<and> length (op_path op) + 10000 < 2 ^ 31 \<and>
     (case op of OpMkdir p m \<Rightarrow> m < 2 ^ 32 | _ \<Rightarrow> True)"

lemma spares_fs_call: "spares sess (fs_call E u op)"
  by (cases op) (simp_all add: spares_handlers)

text \<open>The code of the reply, and \<^const>\<open>None\<close> where the handler returns without one.\<close>

definition reply_of :: "bfs_error + unit \<Rightarrow> int option" where
  "reply_of r = (case r of Inr _ \<Rightarrow> Some rc_success
     | Inl e \<Rightarrow> if e = BfsAccessDeniedError then Some (- EPERM) else if e = BfsClientRequestFailedError then Some rc_failure else None)"

lemma c_str_path:
  assumes "fb_ok b" "fb_data b = path_body p" "CHR 0x00 \<notin> set p"
  shows "c_str 0 b = Inr p"
proof -
  obtain H T where "fb_rep b H (path_body p) T" using fb_okE[OF assms(1)] assms(2) by metis
  then have "buffer b = Some (H @ path_body p @ T)" "hlength b = length H" by (auto simp: fb_rep_def path_body_def)
  moreover have "takeWhile (\<lambda>c. c \<noteq> 0) (map byte_of_char p @ 0 # T) = map byte_of_char p"
    using assms(3) by (subst takeWhile_append2) auto
  ultimately show ?thesis by (simp add: c_str_def path_body_def comp_def)
qed

lemma path_args_ok:
  assumes b: "fb_ok b" "fb_data b = enc_all (op_args op) @ path_body (op_path op)" and op: "op_ok op"
  shows "path_args (map fst (op_args op)) b s = (Inr (map snd (op_args op), op_path op), s)"
proof -
  have "path_len (op_path op) < 2 ^ 31" using op by (simp add: op_ok_def path_len_def)
  then have r: "\<forall>(ty, v) \<in> set (op_args op). fb_range ty v" "last (map snd (op_args op)) = path_len (op_path op)"
    using op by (cases op; auto simp: op_ok_def fb_range_def fb_signed_def path_len_def)+
  obtain b' where b': "unstream_all (map fst (op_args op)) b = (Inr (map snd (op_args op)), b')" "fb_ok b'" "fb_data b' = path_body (op_path op)"
    using unstream_all_ok[OF b(1), of "op_args op" "path_body (op_path op)"] b(2) r(1) by (auto simp: enc_all_def)
  have "0 < path_len (op_path op)" by (simp add: path_len_def)
  then show ?thesis
    using b'(1) r(2) c_str_path[OF b'(2,3)] op by (simp add: path_args_def lift_buf_def comp_simps liftS_def op_ok_def)
qed

lemma dispatch_op:
  "dispatch S E conn (op_code op) rpkt =
     bindE (path_args (map fst (op_args op)) rpkt) (\<lambda>(vs, fname).
     bindE (the_user conn) (\<lambda>usr.
     bindE (try_op (seqE (fs_call E usr (case op of OpMkdir p m \<Rightarrow> OpMkdir fname (nat (hd vs)) | OpUnlink p \<Rightarrow> OpUnlink fname | OpRmdir p \<Rightarrow> OpRmdir fname)) (retE rc_success)))
       (reply_code E conn I32T (op_code op))))"
  by (cases op) (simp_all add: dispatch_def op_codes handle_mkdir_def handle_unlink_def handle_rmdir_def)

text \<open>What the handler does with the result of the operation.\<close>

lemma dispatch_run:
  assumes b: "fb_ok b" "fb_data b = enc_all (op_args op) @ path_body (op_path op)" and op: "op_ok op"
    and u: "user_contexts (acl_layer s) conn = Some u" and h: "handle_set s" and f: "fs_call E u op s = (r, t)"
  shows "dispatch S E conn (op_code op) b s = (case reply_of r of
      Some code \<Rightarrow> send_reply E conn [(I32T, code), (I32T, op_code op), (I32T, FROM_SERVER)] t
    | None \<Rightarrow> (if r \<in> {Inl bfsUtilError, Inl BfsServerError} then (Inr rc_failure, t) else (map_sum id (\<lambda>_. 0) r, t)))"
proof -
  have a: "(case op of OpMkdir p m \<Rightarrow> OpMkdir (op_path op) (nat (hd (map snd (op_args op)))) | OpUnlink p \<Rightarrow> OpUnlink (op_path op) | OpRmdir p \<Rightarrow> OpRmdir (op_path op)) = op"
    by (cases op) simp_all
  have d: "dispatch S E conn (op_code op) b s = bindE (try_op (seqE (fs_call E u op) (retE rc_success))) (reply_code E conn I32T (op_code op)) s"
    unfolding dispatch_op bindE_def[of "path_args _ _"] path_args_ok[OF b op]
    by (simp only: prod.case sum.case a bindE_def[of "the_user _"] the_user_run[OF u])
  have "try_op (seqE (fs_call E u op) (retE rc_success)) s =
      (case reply_of r of Some code \<Rightarrow> (Inr (Some code), t)
       | None \<Rightarrow> (if r \<in> {Inl bfsUtilError, Inl BfsServerError} then (Inr None, t) else (map_sum id (\<lambda>_. None) r, t)))"
    using h f by (auto simp: try_op_def with_codes_def on_handle_def comp_simps catchE_def reply_of_def split: sum.splits)
  then have "bindE (try_op (seqE (fs_call E u op) (retE rc_success))) (reply_code E conn I32T (op_code op)) s = (case reply_of r of
      Some code \<Rightarrow> send_reply E conn [(I32T, code), (I32T, op_code op), (I32T, FROM_SERVER)] t
    | None \<Rightarrow> (if r \<in> {Inl bfsUtilError, Inl BfsServerError} then (Inr rc_failure, t) else (map_sum id (\<lambda>_. 0) r, t)))"
    by (auto simp: bindE_def reply_code_def retE_def reply_of_def split: option.splits sum.splits if_splits)
  then show ?thesis unfolding d .
qed


text \<open>The state after a handler that replied: the operation's, but for the random numbers, the associations and users of
  the session and the packets.\<close>

definition session_differs :: "'z server_scheme \<Rightarrow> 'z server_scheme \<Rightarrow> bool" where
  "session_differs t t' \<longleftrightarrow> (\<exists>p k a x. t' = t \<lparr> random_pos := p, user_sas := k, acl_layer := (acl_layer t) \<lparr> user_contexts := a \<rparr>, sent := x \<rparr>)"

lemma send_reply_ok:
  assumes G: "gcm_ok (env_gcrypt E)" and o: "on_line K conn u s" and up: "link_up s conn" and l: "length vals \<le> 100"
  obtains pkt s' where "send_reply E conn vals s = (Inr rc_success, s')" "on_line K conn (inc_send_seq u) s'"
    "sealed_msg (env_gcrypt E) K (seq_aad (user_send_seq u)) (enc_all (rev vals)) pkt"
    "\<exists>p a k. s' = s \<lparr> random_pos := p, user_sas := k, acl_layer := (acl_layer s) \<lparr> user_contexts := a \<rparr>, sent := sent s @ [(conn, pkt)] \<rparr>"
proof -
  obtain b where b: "(seqE (resetWithAlloc 0 0 (sum_list (map (fb_sizeof \<circ> fst) vals)) 0 False) (stream_all vals)) flexbuf_new = (Inr (), b)"
    "fb_ok b" "fb_data b = enc_all (rev vals)" "allocation b \<le> 4800" by (rule scalar_pkt[OF l])
  have "allocation b + 300 < 2 ^ 32" using b(4) by simp
  from send_pkt_ok[OF G o up b(2) this] obtain pkt s' where "send_pkt E conn b s = (Inr rc_success, s')" "on_line K conn (inc_send_seq u) s'"
    "sealed_msg (env_gcrypt E) K (seq_aad (user_send_seq u)) (fb_data b) pkt"
    "\<exists>p a k. s' = s \<lparr> random_pos := p, user_sas := k, acl_layer := (acl_layer s) \<lparr> user_contexts := a \<rparr>, sent := sent s @ [(conn, pkt)] \<rparr>" by metis
  moreover from this(1) have "send_reply E conn vals s = (Inr rc_success, s')"
    unfolding send_reply_def lift_buf_def using b(1) by (simp add: bindE_def retE_def)
  ultimately show thesis using that b(3) by metis
qed

lemma handle_msg_run:
  assumes G: "gcm_ok (env_gcrypt E)" and o: "on_line K conn u s" and sv: "serving conn s" and op: "op_ok op"
    and m: "sealed_msg (env_gcrypt E) K (seq_aad (user_recv_seq u)) (enc_all ((I32T, TO_SERVER) # (I32T, op_code op) # op_args op) @ path_body (op_path op)) pkt"
  obtains b s1 where "ecall_bfs_handle_in_msg S E conn (Some pkt) s = dispatch S E conn (op_code op) b s1"
    "fb_ok b" "fb_data b = enc_all (op_args op) @ path_body (op_path op)" "on_line K conn (inc_recv_seq u) s1"
    "\<exists>a k. s1 = s \<lparr> user_sas := k, acl_layer := (acl_layer s) \<lparr> user_contexts := a \<rparr> \<rparr>"
proof -
  let ?d = "enc_all ((I32T, TO_SERVER) # (I32T, op_code op) # op_args op) @ path_body (op_path op)"
  have l: "length ?d + 200 < 2 ^ 31" using op by (cases op) (auto simp: op_ok_def enc_all_def path_body_def)
  obtain b0 s1 where b0: "decrypt_msg E conn pkt s = (Inr (Some b0), s1)" "fb_ok b0" "fb_data b0 = ?d" "on_line K conn (inc_recv_seq u) s1"
    "\<exists>a k. s1 = s \<lparr> user_sas := k, acl_layer := (acl_layer s) \<lparr> user_contexts := a \<rparr> \<rparr>"
    by (rule decrypt_msg_ok[OF G o m l])
  have r: "\<forall>(ty, v) \<in> set [(I32T, TO_SERVER), (I32T, op_code op)]. fb_range ty v"
    by (cases op) (auto simp: fb_range_def fb_signed_def op_codes)
  obtain b where b: "unstream_all [I32T, I32T] b0 = (Inr [TO_SERVER, op_code op], b)" "fb_ok b" "fb_data b = enc_all (op_args op) @ path_body (op_path op)"
    using unstream_all_ok[OF b0(2) _ r, of "enc_all (op_args op) @ path_body (op_path op)"] b0(3) by (auto simp: enc_all_def)
  have "get_user_context conn (acl_layer s) = Some u" using o sv by (simp add: on_line_def serving_def get_user_context_def)
  then have "ecall_bfs_handle_in_msg S E conn (Some pkt) s = dispatch S E conn (op_code op) b s1"
    using sv b0(1) b(1) unfolding serving_def by (simp add: ecall_bfs_handle_in_msg_def comp_simps lift_buf_def bindE_def)
  then show thesis using that b(2,3) b0(4,5) by blast
qed


lemma length_enc_reply: "length (enc_all [(I32T, FROM_SERVER), (I32T, a), (I32T, v)]) = 12"
  by (simp add: enc_all_def)


text \<open>The result \<^verbatim>\<open>x\<close> of the entry point when the operation ended with result \<^verbatim>\<open>r\<close> in state \<^verbatim>\<open>t\<close>.\<close>

definition served :: "bfs_env \<Rightarrow> byte list \<Rightarrow> nat \<Rightarrow> user_ctx \<Rightarrow> path_op \<Rightarrow> bfs_error + unit \<Rightarrow> server \<Rightarrow> (bfs_error + int) \<times> server \<Rightarrow> bool" where
  "served E K conn u op r t x \<longleftrightarrow> (case reply_of r of
     Some code \<Rightarrow> \<exists>reply t'. x = (Inr rc_success, t') \<and> on_line K conn (inc_send_seq (inc_recv_seq u)) t' \<and> serving conn t' \<and>
       sealed_msg (env_gcrypt E) K (seq_aad (user_send_seq u)) (enc_all [(I32T, FROM_SERVER), (I32T, op_code op), (I32T, code)]) reply \<and>
       session_differs t t' \<and> sent t' = [(conn, reply)]
   | None \<Rightarrow> sent t = [] \<and> x = (if r \<in> {Inl bfsUtilError, Inl BfsServerError} then (Inr rc_failure, t) else (map_sum id (\<lambda>_. 0) r, t)))"

lemma served_reply:
  assumes G: "gcm_ok (env_gcrypt E)" and o: "on_line K conn (inc_recv_seq u) t" and sv: "serving conn t" and e: "sent t = []" and r: "reply_of r = Some code"
  shows "served E K conn u op r t (send_reply E conn [(I32T, code), (I32T, op_code op), (I32T, FROM_SERVER)] t)"
proof -
  have up: "link_up t conn" using sv by (simp add: serving_def)
  obtain reply t' where x: "send_reply E conn [(I32T, code), (I32T, op_code op), (I32T, FROM_SERVER)] t = (Inr rc_success, t')"
    "on_line K conn (inc_send_seq (inc_recv_seq u)) t'"
    "sealed_msg (env_gcrypt E) K (seq_aad (user_send_seq (inc_recv_seq u))) (enc_all (rev [(I32T, code), (I32T, op_code op), (I32T, FROM_SERVER)])) reply"
    "\<exists>p a k. t' = t \<lparr> random_pos := p, user_sas := k, acl_layer := (acl_layer t) \<lparr> user_contexts := a \<rparr>, sent := sent t @ [(conn, reply)] \<rparr>"
    by (rule send_reply_ok[OF G o up, of "[(I32T, code), (I32T, op_code op), (I32T, FROM_SERVER)]"]) simp
  have "session_differs t t'" unfolding session_differs_def using x(4) by blast
  moreover have "sent t' = [(conn, reply)]" "serving conn t'" using x(4) e sv by (auto simp: serving_def)
  moreover have "user_send_seq (inc_recv_seq u) = user_send_seq u" by (simp add: inc_recv_seq_def)
  ultimately show ?thesis using x(1-3) r by (simp add: served_def)
qed

lemma serve_op:
  assumes G: "gcm_ok (env_gcrypt E)" and o: "on_line K conn u s" and sv: "serving conn s" and op: "op_ok op" and e: "sent s = []"
    and m: "sealed_msg (env_gcrypt E) K (seq_aad (user_recv_seq u)) (enc_all ((I32T, TO_SERVER) # (I32T, op_code op) # op_args op) @ path_body (op_path op)) pkt"
  obtains s1 r t where "\<exists>a k. s1 = s \<lparr> user_sas := k, acl_layer := (acl_layer s) \<lparr> user_contexts := a \<rparr> \<rparr>" "fs_call E (inc_recv_seq u) op s1 = (r, t)"
    "served E K conn u op r t (ecall_bfs_handle_in_msg S E conn (Some pkt) s)"
proof -
  obtain b s1 where b: "ecall_bfs_handle_in_msg S E conn (Some pkt) s = dispatch S E conn (op_code op) b s1"
    "fb_ok b" "fb_data b = enc_all (op_args op) @ path_body (op_path op)" "on_line K conn (inc_recv_seq u) s1"
    "\<exists>a k. s1 = s \<lparr> user_sas := k, acl_layer := (acl_layer s) \<lparr> user_contexts := a \<rparr> \<rparr>"
    by (rule handle_msg_run[OF G o sv op m])
  have s1: "serving conn s1" "sent s1 = []" using b(5) sv e by (auto simp: serving_def)
  obtain r t where f: "fs_call E (inc_recv_seq u) op s1 = (r, t)" by force
  then have ss: "sess t = sess s1" by (metis spares_fs_call spares_def snd_conv)
  note t = sess_server[OF ss]
  have o1: "on_line K conn (inc_recv_seq u) t" "serving conn t" "sent t = []"
    using b(4) s1 by (auto simp: serving_def t on_line_sess[OF ss])
  have us: "user_contexts (acl_layer s1) conn = Some (inc_recv_seq u)" "handle_set s1" using b(4) s1(1) by (auto simp: on_line_def serving_def)
  note d = dispatch_run[OF b(2,3) op us f, of S]
  have "served E K conn u op r t (dispatch S E conn (op_code op) b s1)"
  proof (cases "reply_of r")
    case None
    then show ?thesis using o1(3) by (simp add: d served_def)
  next
    case (Some code)
    then show ?thesis using served_reply[OF G o1] by (simp add: d)
  qed
  then show thesis using that b(1,5) f by metis
qed

section \<open>The client's end\<close>

text \<open>The scalars of the request in the order the client streams them.\<close>

primrec op_vals :: "path_op \<Rightarrow> (fb_type \<times> int) list" where
  "op_vals (OpMkdir p m) = [(I32T, path_len p), (U32T, int m)]" | "op_vals (OpUnlink p) = [(I32T, path_len p)]" | "op_vals (OpRmdir p) = [(I32T, path_len p)]"

lemma c_call_rpc: "c_call C op = rpc_ret C (Some (path_body (op_path op))) (op_vals op) (op_code op)"
  by (cases op) (simp_all add: c_mkdir_def c_unlink_def c_rmdir_def)

lemma enc_op_vals:
  assumes "op_ok op"
  shows "enc_all (rev (op_vals op @ [(I32T, op_code op), (I32T, TO_SERVER)])) = enc_all ((I32T, TO_SERVER) # (I32T, op_code op) # op_args op)"
  by (cases op) (simp_all add: enc_all_def fb_encode_def)

lemma send_request_ok:
  assumes G: "gcm_ok (cl_gcrypt C)" and c: "c_live c" "\<not> mux_locked c" "sa_ready K (c_sa c)" and l: "length vals \<le> 100" "length body + 9999 < 2 ^ 31"
  obtains pkt sa n where "sa_ready K sa" "sealed_msg (cl_gcrypt C) K (seq_aad (c_send_seq c)) (enc_all (rev vals) @ body) pkt"
    "send_request C (Some body) vals c =
       send_msgp C pkt (c \<lparr> mux_locked := True, c_random_pos := n, c_sa := sa, c_send_seq := u32 (c_send_seq c + 1) \<rparr>)"
proof -
  obtain b where b: "request_pkt (Some body) vals flexbuf_new = (Inr (), b)" "fb_ok b" "fb_data b = enc_all (rev vals) @ body" "allocation b \<le> length body + 5600"
    by (rule request_pkt_ok[OF l(1), of body]) (use l(2) in auto)
  have a: "allocation b + 200 < 2 ^ 32" using b(4) l(2) by simp
  obtain k where k: "saKey (c_sa c) = Some k" by (rule sa_readyE[OF c(3)])
  let ?n = "c_random_pos c + ivlen k"
  let ?rnd = "\<lambda>i. cl_random C (c_random_pos c + i)"
  obtain sa where sa: "encryptData (cl_gcrypt C) ?rnd (seq_aad (c_send_seq c)) True ((c_sa c) \<lparr> sa_buf := b \<rparr>) = (Inr (), sa)" "sa_ready K sa"
    "sealed_msg (cl_gcrypt C) K (seq_aad (c_send_seq c)) (fb_data b) (fb_data (sa_buf sa))"
    by (rule seal[OF G c(3) b(2) a])
  have "send_request C (Some body) vals c =
      send_msgp C (fb_data (sa_buf sa)) (c \<lparr> mux_locked := True, c_random_pos := ?n, c_sa := sa, c_send_seq := u32 (c_send_seq c + 1) \<rparr>)"
    using c(1,2) b(1) k sa(1)
    by (simp add: send_request_def lift_buf_def comp_simps lock_mux_def c_next_random_def on_c_sa_def bindE_def seqE_def)
  then show thesis using that sa(2,3) b(3) by metis
qed

lemma recv_msgp_ok:
  assumes G: "gcm_ok (cl_gcrypt C)" and c: "c_live c" "sa_ready K (c_sa c)" "inbox c = [p]"
    and m: "sealed_msg (cl_gcrypt C) K (seq_aad (c_recv_seq c)) (enc_all [(I32T, FROM_SERVER), (I32T, otype), (I32T, v)]) p"
    and r: "fb_range I32T otype" "fb_range I32T v"
  obtains b sa where "recv_msgp C 12 (Some otype) False c = (Inr b, c \<lparr> inbox := [], c_sa := sa, c_recv_seq := u32 (c_recv_seq c + 1) \<rparr>)"
    "sa_ready K sa" "fb_ok b" "fb_data b = enc_all [(I32T, v)]"
proof -
  have pl: "40 < length p" "length p < 2 ^ 31" using sealed_msg_length[OF m G] unfolding length_enc_reply by simp_all
  then have pn: "p \<noteq> []" by auto
  note nb = net_buf_ok[OF pl(2)]
  obtain sa t where sa: "decryptData (cl_gcrypt C) (seq_aad (c_recv_seq c)) True ((c_sa c) \<lparr> sa_buf := net_buf p \<rparr>) = (Inr t, sa)" "sa_ready K sa"
    "fb_ok (sa_buf sa)" "fb_data (sa_buf sa) = enc_all [(I32T, FROM_SERVER), (I32T, otype), (I32T, v)]"
    by (rule unseal[OF G c(2) nb(1), of "seq_aad (c_recv_seq c)" "enc_all [(I32T, FROM_SERVER), (I32T, otype), (I32T, v)]"]) (use m nb(2) in auto)
  have bl: "blength (sa_buf sa) = 12" using length_fb_data[OF sa(3)] by (simp add: sa(4) length_enc_reply)
  have "\<forall>(ty, v) \<in> set [(I32T, FROM_SERVER), (I32T, otype)]. fb_range ty v" using r by (simp add: op_codes fb_range_def fb_signed_def)
  from unstream_all_ok[OF sa(3) _ this, of "enc_all [(I32T, v)]"] obtain b where
    b: "unstream_all [I32T, I32T] (sa_buf sa) = (Inr [FROM_SERVER, otype], b)" "fb_ok b" "fb_data b = enc_all [(I32T, v)]"
    by (auto simp: sa(4) enc_all_def)
  have "recv_msgp C 12 (Some otype) False c = (Inr b, c \<lparr> inbox := [], c_sa := sa, c_recv_seq := u32 (c_recv_seq c + 1) \<rparr>)"
    using c(1,3) pn sa(1) b(1) bl
    by (simp add: recv_msgp_def comp_simps on_c_sa_def lift_buf_def Let_def)
  then show thesis using that sa(2) b(2,3) by blast
qed


section \<open>A call\<close>

text \<open>Client and server are in step: the connection is open, the lock is free, both hold the same key, and each expects
  the number with which the other sends next.\<close>

definition in_step :: "byte list \<Rightarrow> nat \<Rightarrow> user_ctx \<Rightarrow> link client \<Rightarrow> bool" where
  "in_step K conn u c \<longleftrightarrow> c_live c \<and> \<not> mux_locked c \<and> inbox c = [] \<and> sa_ready K (c_sa c) \<and> lk_open (c_net c) \<and>
     on_line K conn u (lk_server (c_net c)) \<and> serving conn (lk_server (c_net c)) \<and>
     user_recv_seq u = c_send_seq c \<and> user_send_seq u = c_recv_seq c"

lemma sent_last:
  fixes s :: "'z server_scheme"
  shows "s \<lparr> sent := x, user_sas := k, acl_layer := a \<rparr> = s \<lparr> random_pos := random_pos s, user_sas := k, acl_layer := a, sent := x \<rparr>"
  by (rule server.equality) simp_all

lemma session_differs_recv:
  "session_differs s (s \<lparr> sent := x, user_sas := k, acl_layer := (acl_layer s) \<lparr> user_contexts := a \<rparr> \<rparr>)"
  unfolding session_differs_def by (intro exI) (rule sent_last)

text \<open>What comes back for each result of the operation.\<close>

lemma send_op:
  assumes G: "gcm_ok (cl_gcrypt C)" "cl_gcrypt C = env_gcrypt E" "cl_peer C = server_peer S E conn" and i: "in_step K conn u c" and op: "op_ok op"
  obtains sa n s r t x where "sa_ready K sa" "session_differs (lk_server (c_net c)) s \<and> random_pos s = random_pos (lk_server (c_net c))"
    "fs_call E (inc_recv_seq u) op s = (r, t)" "served E K conn u op r t x"
    "send_request C (Some (path_body (op_path op))) (op_vals op @ [(I32T, op_code op), (I32T, TO_SERVER)]) c =
      (Inr (), c \<lparr> mux_locked := True, c_random_pos := n, c_sa := sa, c_send_seq := u32 (c_send_seq c + 1),
         c_net := \<lparr> lk_server = snd x, lk_open = (fst x = Inr rc_success) \<rparr>,
         inbox := map snd (filter (\<lambda>y. fst y = conn) (sent (snd x))) @ (case fst x of Inl _ \<Rightarrow> [[]] | Inr _ \<Rightarrow> []) \<rparr>)"
proof -
  let ?vals = "op_vals op @ [(I32T, op_code op), (I32T, TO_SERVER)]"
  let ?s = "(lk_server (c_net c)) \<lparr> sent := [] \<rparr>"
  note c = i[unfolded in_step_def]
  have l: "length ?vals \<le> 100" by (cases op) simp_all
  have l2: "length (path_body (op_path op)) + 9999 < 2 ^ 31" using op by (simp add: op_ok_def path_body_def)
  obtain pkt sa n where p: "sa_ready K sa" "sealed_msg (cl_gcrypt C) K (seq_aad (c_send_seq c)) (enc_all (rev ?vals) @ path_body (op_path op)) pkt"
    "send_request C (Some (path_body (op_path op))) ?vals c =
       send_msgp C pkt (c \<lparr> mux_locked := True, c_random_pos := n, c_sa := sa, c_send_seq := u32 (c_send_seq c + 1) \<rparr>)"
    by (rule send_request_ok[OF G(1), of c K ?vals "path_body (op_path op)"]) (use c l l2 in auto)
  have o: "on_line K conn u ?s" "serving conn ?s" "sent ?s = []" using c by (auto simp: on_line_def serving_def)
  have m: "sealed_msg (env_gcrypt E) K (seq_aad (user_recv_seq u)) (enc_all ((I32T, TO_SERVER) # (I32T, op_code op) # op_args op) @ path_body (op_path op)) pkt"
    using p(2) c G(2) by (simp only: enc_op_vals[OF op])
  obtain s1 r t where s1: "\<exists>a k. s1 = ?s \<lparr> user_sas := k, acl_layer := (acl_layer ?s) \<lparr> user_contexts := a \<rparr> \<rparr>" "fs_call E (inc_recv_seq u) op s1 = (r, t)"
    "served E K conn u op r t (ecall_bfs_handle_in_msg S E conn (Some pkt) ?s)"
    by (rule serve_op[OF G(1)[unfolded G(2)] o(1,2) op o(3) m])
  let ?x = "ecall_bfs_handle_in_msg S E conn (Some pkt) ?s"
  have "session_differs (lk_server (c_net c)) s1 \<and> random_pos s1 = random_pos (lk_server (c_net c))"
    using s1(1) session_differs_recv by auto
  moreover have "send_msgp C pkt (c \<lparr> mux_locked := True, c_random_pos := n, c_sa := sa, c_send_seq := u32 (c_send_seq c + 1) \<rparr>) =
      (Inr (), c \<lparr> mux_locked := True, c_random_pos := n, c_sa := sa, c_send_seq := u32 (c_send_seq c + 1),
         c_net := \<lparr> lk_server = snd ?x, lk_open = (fst ?x = Inr rc_success) \<rparr>,
         inbox := map snd (filter (\<lambda>y. fst y = conn) (sent (snd ?x))) @ (case fst ?x of Inl _ \<Rightarrow> [[]] | Inr _ \<Rightarrow> []) \<rparr>)"
    using c sealed_msg_ne[OF p(2)] by (simp add: send_msgp_def G(3) server_peer_def Let_def split_beta)
  ultimately show thesis using that p(1,3) s1(2,3) by metis
qed


lemma unstream_code:
  assumes "fb_ok b" "fb_data b = enc_all [(I32T, v)]" "fb_range I32T v"
  shows "\<exists>b'. unstream_all [I32T] b = (Inr [v], b')"
  using unstream_all_ok[OF assms(1), of "[(I32T, v)]" "[]"] assms(2,3) by (auto simp: enc_all_def)

lemma reply_range: "reply_of r = Some code \<Longrightarrow> fb_range I32T code"
  by (auto simp: reply_of_def EPERM_def fb_range_def fb_signed_def split: sum.splits if_splits)

lemma op_code_range: "fb_range I32T (op_code op)"
  by (cases op) (simp_all add: op_codes fb_range_def fb_signed_def)

text \<open>The three ways a call ends.\<close>

lemma rpc_answered:
  assumes G: "gcm_ok (cl_gcrypt C)" and send: "send_request C body (vals @ [(I32T, otype), (I32T, TO_SERVER)]) c = (Inr (), c1)"
    and c1: "c_live c1" "sa_ready K (c_sa c1)" "inbox c1 = [p]" "sealed_msg (cl_gcrypt C) K (seq_aad (c_recv_seq c1)) (enc_all [(I32T, FROM_SERVER), (I32T, otype), (I32T, v)]) p"
    and r: "fb_range I32T otype" "fb_range I32T v"
  obtains sa where "rpc_ret C body vals otype c = (Inr v, c1 \<lparr> inbox := [], c_sa := sa, c_recv_seq := u32 (c_recv_seq c1 + 1), mux_locked := False \<rparr>)"
    "sa_ready K sa"
proof -
  obtain b sa where b: "recv_msgp C 12 (Some otype) False c1 = (Inr b, c1 \<lparr> inbox := [], c_sa := sa, c_recv_seq := u32 (c_recv_seq c1 + 1) \<rparr>)"
    "sa_ready K sa" "fb_ok b" "fb_data b = enc_all [(I32T, v)]" by (rule recv_msgp_ok[OF G c1 r])
  obtain b' where "unstream_all [I32T] b = (Inr [v], b')" using unstream_code[OF b(3,4) r(2)] by blast
  then have "rpc_ret C body vals otype c = (Inr v, c1 \<lparr> inbox := [], c_sa := sa, c_recv_seq := u32 (c_recv_seq c1 + 1), mux_locked := False \<rparr>)"
    using send b(1) by (simp add: rpc_ret_def rpc_code_def rpc_def c_try_def catchE_def comp_simps unlock_mux_def lift_buf_def)
  then show thesis using that b(2) by blast
qed

lemma rpc_unanswered:
  assumes "send_request C body (vals @ [(I32T, otype), (I32T, TO_SERVER)]) c = (Inr (), c1)" "inbox c1 = []"
  shows "rpc_ret C body vals otype c = (Inl BfsBlocked, c1)"
  using assms by (simp add: rpc_ret_def rpc_code_def rpc_def recv_msgp_def c_try_def catchE_def comp_simps)

lemma rpc_closed:
  assumes "send_request C body (vals @ [(I32T, otype), (I32T, TO_SERVER)]) c = (Inr (), c1)" "inbox c1 = [[]]" "c_live c1"
  shows "rpc_ret C body vals otype c = (Inr rc_failure, c1 \<lparr> inbox := [], mux_locked := False, c_live := False \<rparr>)"
  using assms by (simp add: rpc_ret_def rpc_code_def rpc_def recv_msgp_def c_try_def catchE_def comp_simps unlock_mux_def c_cleanup_def)


section \<open>Properties\<close>

text \<open>C4: A call of the client is the operation on the server.  Take a client and a server that are in step, with a cipher
  that decrypts what it encrypts, and a call of \<^verbatim>\<open>mkdir\<close>, \<^verbatim>\<open>unlink\<close> or \<^verbatim>\<open>rmdir\<close> with any path and mode.  The server runs that
  operation once, for the user of the connection and with the caller's path and mode, from its file system as it is.  If
  the operation succeeds, is refused or fails as a request, the call returns its code, the file system is as the
  operation left it, and both ends are in step again.  If it ends with \<^verbatim>\<open>bfsUtilError\<close> or \<^verbatim>\<open>BfsServerError\<close>, the call
  waits for ever; any other error ends the server, and the call returns -1 and closes the client.\<close>

theorem rpc_transparent:
  assumes "gcm_ok (cl_gcrypt C)" "cl_gcrypt C = env_gcrypt E" "cl_peer C = server_peer S E conn" "in_step K conn u c" "op_ok op"
  shows "\<exists>s r t c'. session_differs (lk_server (c_net c)) s \<and> random_pos s = random_pos (lk_server (c_net c)) \<and>
    fs_call E (inc_recv_seq u) op s = (r, t) \<and>
    (case reply_of r of
       Some code \<Rightarrow> c_call C op c = (Inr code, c') \<and> in_step K conn (inc_send_seq (inc_recv_seq u)) c' \<and> session_differs t (lk_server (c_net c'))
     | None \<Rightarrow> lk_server (c_net c') = t \<and>
         (if r \<in> {Inl bfsUtilError, Inl BfsServerError} then c_call C op c = (Inl BfsBlocked, c')
          else c_call C op c = (Inr rc_failure, c') \<and> \<not> c_live c'))"
proof -
  note i = assms(4)[unfolded in_step_def]
  obtain sa n s r t x where x: "sa_ready K sa" "session_differs (lk_server (c_net c)) s \<and> random_pos s = random_pos (lk_server (c_net c))"
    "fs_call E (inc_recv_seq u) op s = (r, t)" "served E K conn u op r t x"
    "send_request C (Some (path_body (op_path op))) (op_vals op @ [(I32T, op_code op), (I32T, TO_SERVER)]) c =
      (Inr (), c \<lparr> mux_locked := True, c_random_pos := n, c_sa := sa, c_send_seq := u32 (c_send_seq c + 1),
         c_net := \<lparr> lk_server = snd x, lk_open = (fst x = Inr rc_success) \<rparr>,
         inbox := map snd (filter (\<lambda>y. fst y = conn) (sent (snd x))) @ (case fst x of Inl _ \<Rightarrow> [[]] | Inr _ \<Rightarrow> []) \<rparr>)"
    by (rule send_op[OF assms])
  let ?c1 = "c \<lparr> mux_locked := True, c_random_pos := n, c_sa := sa, c_send_seq := u32 (c_send_seq c + 1),
         c_net := \<lparr> lk_server = snd x, lk_open = (fst x = Inr rc_success) \<rparr>,
         inbox := map snd (filter (\<lambda>y. fst y = conn) (sent (snd x))) @ (case fst x of Inl _ \<Rightarrow> [[]] | Inr _ \<Rightarrow> []) \<rparr>"
  have "\<exists>c'. (case reply_of r of
       Some code \<Rightarrow> c_call C op c = (Inr code, c') \<and> in_step K conn (inc_send_seq (inc_recv_seq u)) c' \<and> session_differs t (lk_server (c_net c'))
     | None \<Rightarrow> lk_server (c_net c') = t \<and>
         (if r \<in> {Inl bfsUtilError, Inl BfsServerError} then c_call C op c = (Inl BfsBlocked, c')
          else c_call C op c = (Inr rc_failure, c') \<and> \<not> c_live c'))"
  proof (cases "reply_of r")
    case (Some code)
    obtain reply t' where y: "x = (Inr rc_success, t')" "on_line K conn (inc_send_seq (inc_recv_seq u)) t'" "serving conn t'"
      "sealed_msg (env_gcrypt E) K (seq_aad (user_send_seq u)) (enc_all [(I32T, FROM_SERVER), (I32T, op_code op), (I32T, code)]) reply"
      "session_differs t t'" "sent t' = [(conn, reply)]" using x(4) Some by (auto simp: served_def)
    obtain sa' where "c_call C op c = (Inr code, ?c1 \<lparr> inbox := [], c_sa := sa', c_recv_seq := u32 (c_recv_seq ?c1 + 1), mux_locked := False \<rparr>)" "sa_ready K sa'"
      unfolding c_call_rpc
      by (rule rpc_answered[OF assms(1) x(5), of K reply code]) (use i x(1) y(1,4,6) assms(2) Some in \<open>simp_all add: op_code_range reply_range\<close>)
    then show ?thesis using Some i y by (auto simp: in_step_def inc_send_seq_def inc_recv_seq_def)
  next
    case None
    note y = x(4)[unfolded served_def None option.case]
    show ?thesis
    proof (cases "r \<in> {Inl bfsUtilError, Inl BfsServerError}")
      case True
      then have "inbox ?c1 = []" using y by simp
      from rpc_unanswered[OF x(5) this] show ?thesis using True None y by (auto simp: c_call_rpc)
    next
      case False
      obtain e where e: "r = Inl e" using None by (cases r) (auto simp: reply_of_def)
      then have "inbox ?c1 = [[]]" "c_live ?c1" using y False i by auto
      from rpc_closed[OF x(5) this] show ?thesis using False None y by (auto simp: c_call_rpc)
    qed
  qed
  then show ?thesis using x(2,3) by blast
qed

text \<open>A client in step with the server \<^verbatim>\<open>demo_server\<close>.\<close>

definition demo_cl :: "link cl_env" where
  "demo_cl = \<lparr> cl_gcrypt = env_gcrypt demo_env, cl_random = (\<lambda>_. 0), cl_peer = server_peer demo_srv demo_env 5 \<rparr>"

definition demo_client :: "link client" where
  "demo_client = \<lparr> c_live = True, c_sa = demo_sa, c_send_seq = user_recv_seq demo_user, c_recv_seq = user_send_seq demo_user, c_random_pos = 0,
     mux_locked = False, c_net = \<lparr> lk_server = demo_server, lk_open = True \<rparr>, inbox = [], client_status = True, direct_io_flag = True,
     writeback_locked = False, file_cache = Map.empty, dirty_chunks = Map.empty, total_dirty_chunks = 0, local_ok = True, local_files = (\<lambda>_. []) \<rparr>"

lemma demo_in_step: "in_step (replicate 16 1) 5 demo_user demo_client"
  using sa_ready_demo by (simp add: in_step_def demo_client_def on_line_def serving_def demo_server_sel demo_acl_def)

lemma relative_path:
  "fs_call E u (OpUnlink ''x'') s = (Inl BfsClientRequestFailedError, s)" "fs_call E u (OpRmdir ''x'') s = (Inl BfsClientRequestFailedError, s)"
  by (simp_all add: bfs_unlink_def bfs_rmdir_def path_inode_def check_name_len_def get_de_def comp_simps layout_defs)

lemma rpc_transparent_witness:
  "\<exists>c' s. c_call demo_cl (OpUnlink ''x'') demo_client = (Inr rc_failure, c') \<and> in_step (replicate 16 1) 5 (inc_send_seq (inc_recv_seq demo_user)) c' \<and>
     session_differs (lk_server (c_net demo_client)) s \<and> session_differs s (lk_server (c_net c'))"
proof -
  have a: "gcm_ok (cl_gcrypt demo_cl)" "cl_gcrypt demo_cl = env_gcrypt demo_env" "cl_peer demo_cl = server_peer demo_srv demo_env 5" "op_ok (OpUnlink ''x'')"
    using demo_sa_ok(1) by (simp_all add: demo_cl_def demo_env_def op_ok_def)
  show ?thesis
    using rpc_transparent[OF a(1-3) demo_in_step a(4)] unfolding relative_path(1) prod.inject
    by (auto simp: reply_of_def simp del: c_call.simps)
qed

end
