(* ===== verification/Spec2Isabelle.thy ===== *)
theory Spec2Isabelle
  imports Bfs_Util Bfs_FlexBuffer Bfs_Base64 Bfs_Crypto Bfs_Cache Bfs_Acl Bfs_OnDisk Bfs_Blocks Bfs_FsLayer Bfs_Merkle Bfs_BlkIO Bfs_Inodes Bfs_Dirs Bfs_Files Bfs_ByteFiles Bfs_Format Bfs_Network Bfs_SharedMutex Bfs_Session Bfs_Frames Bfs_Server Bfs_Isolation Bfs_Client Bfs_Rpc
begin

text \<open>
  A verification library for BFS, a network file system that keeps encrypted and authenticated blocks on untrusted
  devices.  The program is the C++ code under \<^verbatim>\<open>src/src\<close>.

  \<^bold>\<open>The program.\<close>  A client (\<^verbatim>\<open>bfs_client\<close>) offers the operations of a file system to FUSE and sends each of them as an
  encrypted packet with a sequence number to the server (\<^verbatim>\<open>bfs_comms\<close> has the connections).  The server (\<^verbatim>\<open>bfs_fs\<close>)
  decrypts the packet, runs a handler on the file system handle and sends an encrypted reply.  The handle keeps a
  superblock, an inode bitmap, an inode table, directories and files in blocks.  Every block is encrypted and has an IV
  and a tag in metadata blocks; a Merkle tree over the tags, kept in memory, protects against replaced blocks.  Blocks go
  through a cluster of devices (\<^verbatim>\<open>bfs_blk\<close>, \<^verbatim>\<open>bfs_device\<close>).  \<^verbatim>\<open>bfs_utils\<close> has byte buffers, keys, a cache and small helpers.

  \<^bold>\<open>Form of the model.\<close>  Stateful code is a computation \<^verbatim>\<open>'s \<Rightarrow> (bfs_error + 'a) \<times> 's\<close> over a state record
  (\<^verbatim>\<open>Bfs_Prelude\<close>): an exception is a value and keeps the changes made before it.  Access outside an array or a C range,
  the use of an invalid pointer, a failed assertion and a wait without end are errors of their own.  The records extend
  each other the way the layers do: \<^verbatim>\<open>fs_layer\<close>, \<^verbatim>\<open>core_blk\<close>, \<^verbatim>\<open>bfs_handle\<close>, \<^verbatim>\<open>server\<close>.  Unsigned C integers are natural
  numbers with the truncation written out (\<^verbatim>\<open>u32\<close>, \<^verbatim>\<open>u64\<close>, \<^verbatim>\<open>sub64\<close>), or words where the code computes with bits or
  signs.  AES-GCM and HMAC of libgcrypt, random bytes, the results of system calls and the values the configuration gives
  are arguments (\<^verbatim>\<open>gcrypt\<close>, \<^verbatim>\<open>bfs_env\<close>, \<^verbatim>\<open>net_env\<close>, \<^verbatim>\<open>srv_env\<close>, \<^verbatim>\<open>cl_env\<close>); the hypotheses on them are that decryption undoes
  encryption (\<^verbatim>\<open>gcm_ok\<close>), that lengths are kept (\<^verbatim>\<open>gcm_length\<close>) and that an HMAC has 32 bytes (\<^verbatim>\<open>hmac_ok\<close>).

  \<^bold>\<open>Theories, from the bottom.\<close>

  \<^item> \<^verbatim>\<open>Bfs_Util\<close>, \<^verbatim>\<open>Bfs_FlexBuffer\<close>, \<^verbatim>\<open>Bfs_Base64\<close>, \<^verbatim>\<open>Bfs_Crypto\<close>, \<^verbatim>\<open>Bfs_Cache\<close> model \<^verbatim>\<open>bfs_utils\<close>: path and bit helpers, the
    buffer with header and trailer space, the codec, keys and security associations, and the ring of the object cache on
    an explicit heap.  Lemmas: round trips, what a message with a wrong tag does, the cache as a bounded list, and the
    cases in which the buffer overflows, the ring breaks or a random value leaves its range.
  \<^item> \<^verbatim>\<open>Bfs_OnDisk\<close> has the structures of \<^verbatim>\<open>bfs_core.h\<close> with their encodings, one contract (\<^verbatim>\<open>codec\<close>) for the four of them,
    and the allocation of blocks.  \<^verbatim>\<open>Bfs_Acl\<close> has users and the permission test.
  \<^item> \<^verbatim>\<open>Bfs_Blocks\<close> models the devices and the cluster.  The contract \<^verbatim>\<open>block_store\<close> (a read returns the last write) holds for
    the cluster and, in \<^verbatim>\<open>Bfs_BlkIO\<close>, for the encrypted blocks.
  \<^item> \<^verbatim>\<open>Bfs_FsLayer\<close>, \<^verbatim>\<open>Bfs_Merkle\<close>, \<^verbatim>\<open>Bfs_BlkIO\<close> model \<^verbatim>\<open>bfs_fs_layer.cpp\<close>, \<^verbatim>\<open>read_blk\<close> and \<^verbatim>\<open>write_blk\<close> of \<^verbatim>\<open>bfs_core.cpp\<close> and the
    block device of \<^verbatim>\<open>bfs_core_ext4_helpers.cpp\<close>.  \<^verbatim>\<open>store_ok\<close> is the invariant: every data block opens under its IV and
    tag and, when the tree is on, the tree agrees with the tags.  Lemmas: writes keep the tree, batches equal single
    updates, reads return the last write and are authentic on changed devices; and the code's failures: a repeated read
    passes after a rejected one, saving the root hash overwrites metadata.
  \<^item> \<^verbatim>\<open>Bfs_Inodes\<close>, \<^verbatim>\<open>Bfs_Dirs\<close>, \<^verbatim>\<open>Bfs_Files\<close>, \<^verbatim>\<open>Bfs_ByteFiles\<close>, \<^verbatim>\<open>Bfs_Format\<close> model the rest of \<^verbatim>\<open>bfs_core.cpp\<close>: inodes, path
    lookup and the handlers that take a path, file reads and writes, \<^verbatim>\<open>mkfs\<close> and \<^verbatim>\<open>mount\<close>.  Lemmas: inodes are read as
    written, allocation is fresh, an open file is a byte sequence (contract \<^verbatim>\<open>byte_file\<close>), writes to one file leave
    others alone, and formatting followed by mounting reaches a state with \<^verbatim>\<open>store_ok\<close>.
  \<^item> \<^verbatim>\<open>Bfs_Network\<close> models packets over sockets, \<^verbatim>\<open>Bfs_SharedMutex\<close> the reader-writer lock as a step relation over any
    number of threads, \<^verbatim>\<open>Bfs_Session\<close> messages between two associations.
  \<^item> \<^verbatim>\<open>Bfs_Server\<close> models \<^verbatim>\<open>bfs_server_ecalls.cpp\<close>, \<^verbatim>\<open>Bfs_Client\<close> the client.  \<^verbatim>\<open>Bfs_Frames\<close> proves that file operations leave
    the sessions alone, \<^verbatim>\<open>Bfs_Isolation\<close> that a request touches only its own connection and that replayed packets are
    refused, and \<^verbatim>\<open>Bfs_Rpc\<close> that a call of the client is the operation on the server.

  \<^bold>\<open>Configuration.\<close>  The definitions of blocks and of the tree cover the native and the lwext4 build; those from inodes on
  are for the native build with the inode and directory-entry caches off (\<^verbatim>\<open>cache_enabled : false\<close>, the shipped
  setting), in which both caches stay empty.  \<^verbatim>\<open>store_env\<close> states this for the lemmas on encrypted blocks.  These lemmas
  hold with the Merkle tree on or off; the lemmas on \<^verbatim>\<open>mkfs\<close> assume it off.

  \<^bold>\<open>Loops.\<close>  Loops are structural or have a termination proof.  The loops of \<^verbatim>\<open>bfs_read\<close> and \<^verbatim>\<open>bfs_write\<close> carry one unit of
  fuel for each byte that is left: \<^verbatim>\<open>file_loops_end\<close> shows that more fuel changes nothing.  The search for slashes in a
  path has the length of the path as its bound, and every round passes a slash.  The padding loop of the codec needs at
  most two rounds.  The loop that fills the client's write buffer may not end in the code; there the model has a bound
  on the rounds and reports the loop as not ended.

  \<^bold>\<open>Not modelled.\<close>  Reading the configuration and starting the layers, logging and measurements, the devices on other
  hosts, the handlers that call the lwext4 library, the generated enclave glue, locks of cached objects and the
  client's background thread.  The model of the file system, the server and the client is sequential; only the
  reader-writer lock is modelled with threads.
\<close>

end
